(* ===== verification/Prelude.thy ===== *)
theory Prelude
  imports Main "HOL-Library.Word" "HOL-Library.Monad_Syntax"
begin

unbundle bit_operations_syntax

text \<open>
  Shared vocabulary of the development: the machine integer types of the C code, the
  theorem collections the component proofs use, and the generic facts on lists, options
  and words that more than one component needs.

  C code that has no defined behaviour (an access outside an object, a NULL or dangling
  pointer, a modulo by zero, a signed overflow) is the value \<open>None\<close> of an \<open>option\<close>
  result throughout; a value \<open>Some r\<close> means that the code ran to its return statement
  and \<open>r\<close> holds what it returned together with what it wrote.
\<close>

type_synonym u8 = "8 word"
type_synonym u16 = "16 word"
type_synonym u32 = "32 word"

text \<open>A byte array of the C code; a pointer into it is an offset.\<close>

type_synonym buf = "u8 list"

text \<open>A call of \<^verbatim>\<open>printf\<close>: its format, less leading tabs and the newline, and its integer arguments.\<close>

type_synonym printf_call = "string \<times> int list"

named_theorems cmem \<open>outcome of loads, stores and field accesses\<close>
named_theorems wordnat \<open>words read as natural numbers\<close>
named_theorems csum \<open>one's complement sums\<close>
named_theorems heap_simps \<open>the session heap\<close>

section \<open>Words as natural numbers\<close>

lemma unat_u8_bound: "unat (x :: u8) < 256"
  using unsigned_less [where ?'a = nat, of x] by simp

lemma unat_u16_bound: "unat (x :: u16) < 65536"
  using unsigned_less [where ?'a = nat, of x] by simp

lemma unat_u32_bound: "unat (x :: u32) < 4294967296"
  using unsigned_less [where ?'a = nat, of x] by simp

lemma unat_of_nat_u8 [wordnat]: "unat (of_nat n :: u8) = n mod 256"
  by (simp add: unat_of_nat)

lemma unat_of_nat_u16 [wordnat]: "unat (of_nat n :: u16) = n mod 65536"
  by (simp add: unat_of_nat)

lemma unat_of_nat_u32 [wordnat]: "unat (of_nat n :: u32) = n mod 4294967296"
  by (simp add: unat_of_nat)

lemma unat_add_u32 [wordnat]: "unat (x + y :: u32) = (unat x + unat y) mod 4294967296"
  by (simp add: unat_word_ariths)

lemma unat_NOT_u16: "unat (NOT (x :: u16)) = 65535 - unat x"
proof -
  have neg: "NOT x = - 1 - x"
    by (simp add: not_eq_complement)
  have max: "unat (- 1 :: u16) = 65535"
    by (simp add: unsigned_minus_1_eq_mask mask_eq_exp_minus_1)
  show ?thesis
    using unat_u16_bound [of x] by (simp add: neg max unat_sub_if_size)
qed

lemma unat_drop_bit_u32: "unat (drop_bit n (x :: u32)) = unat x div 2 ^ n"
  by (simp only: unat_drop_bit_eq drop_bit_eq_div [of n "unat x"])

lemma unat_low_nibble: "unat (x AND 15 :: u8) = unat x mod 16"
proof -
  have "x AND 15 = take_bit 4 x"
    by (simp add: take_bit_eq_mask mask_numeral)
  then show ?thesis
    by (simp only: unsigned_take_bit_eq take_bit_eq_mod [of 4 "unat x"]) simp
qed

lemma unat_high_nibble: "unat (drop_bit 4 x :: u8) = unat x div 16"
  using unat_drop_bit_eq [of 4 x] drop_bit_eq_div [of 4 "unat x"] by simp

section \<open>Lists\<close>

lemma nth_update_other [simp]: "i \<noteq> j \<Longrightarrow> xs[i := v] ! j = xs ! j"
  by simp

lemma take_drop_nth_eq:
  assumes "length xs = length ys" and "\<And>i. a \<le> i \<Longrightarrow> i < a + n \<Longrightarrow> xs ! i = ys ! i"
  shows "take n (drop a xs) = take n (drop a ys)"
  by (rule nth_equalityI) (use assms in auto)

lemma update_take_drop:
  assumes "a \<le> i" and "i < a + n"
  shows "take n (drop a (xs[i := v])) = (take n (drop a xs))[i - a := v]"
  using assms by (simp add: drop_update_swap take_update_swap)

text \<open>Appending an element to one list of a list of lists.\<close>

lemma set_concat_snoc:
  "i < length xss \<Longrightarrow> set (concat (xss[i := xss ! i @ [x]])) = insert x (set (concat xss))"
  by (induction xss arbitrary: i) (auto simp: nth_Cons' split: nat.splits)

lemma distinct_concat_snoc:
  "i < length xss \<Longrightarrow> distinct (map f (concat (xss[i := xss ! i @ [x]]))) \<longleftrightarrow>
     distinct (map f (concat xss)) \<and> f x \<notin> f ` set (concat xss)"
proof -
  assume i: "i < length xss"
  then have "xss = take i xss @ xss ! i # drop (Suc i) xss" "i = length (take i xss)"
    by (simp_all add: id_take_nth_drop)
  then obtain as y bs where xss: "xss = as @ y # bs" and i: "i = length as"
    by metis
  show ?thesis
    unfolding xss i by auto
qed

lemma nth_in_concat: "i < length xss \<Longrightarrow> x \<in> set (xss ! i) \<Longrightarrow> x \<in> set (concat xss)"
  using nth_mem by fastforce

lemma distinct_concat_nth:
  assumes "distinct (map f (concat xss))" and "i < length xss" "j < length xss" "i \<noteq> j"
    and "x \<in> set (xss ! i)" "y \<in> set (xss ! j)"
  shows "f x \<noteq> f y"
  using assms
proof (induction xss arbitrary: i j)
  case (Cons zs xss)
  have apart: "f u \<noteq> f v" if "u \<in> set zs" "v \<in> set (concat xss)" for u v
    using Cons.prems(1) that by (auto simp: disjoint_iff image_iff)
  show ?case
  proof (cases i; cases j)
    fix i' j' assume "i = Suc i'" "j = Suc j'"
    then show ?thesis using Cons.IH [of i' j'] Cons.prems by auto
  next
    fix j' assume "i = 0" "j = Suc j'"
    then show ?thesis using apart [of x y] nth_in_concat [of j' xss y] Cons.prems by auto
  next
    fix i' assume "i = Suc i'" "j = 0"
    then show ?thesis using apart [of y x] nth_in_concat [of i' xss x] Cons.prems by auto
  qed (use Cons.prems in simp)
qed simp

lemma distinct_nth_concat:
  "distinct (map f (concat xss)) \<Longrightarrow> i < length xss \<Longrightarrow> distinct (map f (xss ! i))"
  by (induction xss arbitrary: i) (auto simp: nth_Cons' less_Suc_eq_0_disj)

lemma find_Some_iff_unique:
  assumes "\<And>x y. x \<in> set xs \<Longrightarrow> y \<in> set xs \<Longrightarrow> P x \<Longrightarrow> P y \<Longrightarrow> f x = f y"
  shows "map_option f (find P xs) = Some z \<longleftrightarrow> (\<exists>x \<in> set xs. P x \<and> f x = z)"
  using assms
proof (induction xs)
  case (Cons a xs)
  then show ?case by auto
qed simp

lemma inj_on_insert_cong:
  assumes "inj_on f S" and "\<And>u. u \<in> S \<Longrightarrow> g u = f u" and "g s \<notin> f ` S"
  shows "inj_on g (insert s S)"
  using assms by (force simp: inj_on_def)

lemma option_option_eqI:
  assumes "\<exists>r. a = Some r" and "\<exists>r. b = Some r" and "\<And>u. a = Some (Some u) \<longleftrightarrow> b = Some (Some u)"
  shows "a = b"
proof -
  obtain r q where "a = Some r" "b = Some q" using assms(1,2) by blast
  moreover have "r = q"
    using assms(3) [of "the r"] assms(3) [of "the q"] calculation by (cases r; cases q) simp_all
  ultimately show ?thesis by simp
qed

lemma less_Suc_u32: "v \<noteq> 0xffffffff \<Longrightarrow> v < v + (1 :: u32)"
proof -
  assume "v \<noteq> 0xffffffff"
  then have "unat v \<noteq> 4294967295" by (simp add: word_unat_eq_iff)
  then have "unat v + 1 < 4294967296" using unat_u32_bound [of v] by simp
  then show ?thesis by (simp add: word_less_nat_alt unat_add_u32)
qed

end
