(* ===== verification/Bytes.thy ===== *)
theory Bytes
  imports Prelude
begin

text \<open>
  Memory as the packet code sees it: a byte array with bounds-checked loads and stores,
  the byte order functions of \<^verbatim>\<open>arpa/inet.h\<close> on the little-endian host the code runs on
  (the bit fields of \<^verbatim>\<open>struct iphdr\<close> and \<^verbatim>\<open>struct tcphdr\<close> and the constant
  \<^verbatim>\<open>IPPROTO_EGP\<close> used as \<^verbatim>\<open>htons(ETH_P_IP)\<close> are the little-endian ones), and the fields of the
  two headers at their offsets. The locale \<open>buffer_field\<close> states what a header field
  promises (a read after a write, the bounds, the frame); it is interpreted on the 8, 16 and
  32 bit accesses at every offset.
\<close>

section \<open>Loads and stores\<close>

definition ld8 :: "buf \<Rightarrow> nat \<Rightarrow> u8 option" where
  "ld8 b i = (if i < length b then Some (b ! i) else None)"

definition st8 :: "buf \<Rightarrow> nat \<Rightarrow> u8 \<Rightarrow> buf option" where
  "st8 b i v = (if i < length b then Some (b[i := v]) else None)"

text \<open>The \<open>k\<close>-th octet of a value, and the value of octets in memory order.\<close>

definition octet :: "nat \<Rightarrow> 'a::len word \<Rightarrow> u8" where
  "octet k v = ucast (drop_bit (8 * k) v)"

definition le16 :: "u8 \<Rightarrow> u8 \<Rightarrow> u16" where
  "le16 a b = ucast a + push_bit 8 (ucast b)"

definition le32 :: "u8 \<Rightarrow> u8 \<Rightarrow> u8 \<Rightarrow> u8 \<Rightarrow> u32" where
  "le32 a b c d = ucast a + push_bit 8 (ucast b) + push_bit 16 (ucast c) + push_bit 24 (ucast d)"

definition ld16 :: "buf \<Rightarrow> nat \<Rightarrow> u16 option" where
  "ld16 b i = do { x \<leftarrow> ld8 b i; y \<leftarrow> ld8 b (i + 1); Some (le16 x y) }"

definition ld32 :: "buf \<Rightarrow> nat \<Rightarrow> u32 option" where
  "ld32 b i = do {
     x \<leftarrow> ld8 b i; y \<leftarrow> ld8 b (i + 1); z \<leftarrow> ld8 b (i + 2); w \<leftarrow> ld8 b (i + 3);
     Some (le32 x y z w) }"

definition st16 :: "buf \<Rightarrow> nat \<Rightarrow> u16 \<Rightarrow> buf option" where
  "st16 b i v = do { b \<leftarrow> st8 b i (octet 0 v); st8 b (i + 1) (octet 1 v) }"

definition st32 :: "buf \<Rightarrow> nat \<Rightarrow> u32 \<Rightarrow> buf option" where
  "st32 b i v = do {
     b \<leftarrow> st8 b i (octet 0 v); b \<leftarrow> st8 b (i + 1) (octet 1 v);
     b \<leftarrow> st8 b (i + 2) (octet 2 v); st8 b (i + 3) (octet 3 v) }"

text \<open>\<^verbatim>\<open>memcpy(dst + d, src + s, n)\<close> between two arrays.\<close>

definition memcpy :: "buf \<Rightarrow> nat \<Rightarrow> buf \<Rightarrow> nat \<Rightarrow> nat \<Rightarrow> buf option" where
  "memcpy dst d src s n =
     (if d + n \<le> length dst \<and> s + n \<le> length src
      then Some (take d dst @ take n (drop s src) @ drop (d + n) dst) else None)"

section \<open>Byte order\<close>

definition htons :: "u16 \<Rightarrow> u16" where
  "htons v = le16 (octet 1 v) (octet 0 v)"

definition ntohs :: "u16 \<Rightarrow> u16" where
  "ntohs v = le16 (octet 1 v) (octet 0 v)"

definition htonl :: "u32 \<Rightarrow> u32" where
  "htonl v = le32 (octet 3 v) (octet 2 v) (octet 1 v) (octet 0 v)"

definition ntohl :: "u32 \<Rightarrow> u32" where
  "ntohl v = le32 (octet 3 v) (octet 2 v) (octet 1 v) (octet 0 v)"

section \<open>The headers\<close>

text \<open>
  Field accesses through \<^verbatim>\<open>struct iphdr*\<close> and \<^verbatim>\<open>struct tcphdr*\<close>; the pointer is the offset
  \<open>p\<close> of the header in the buffer. Both structures have 20 bytes.
\<close>

abbreviation sizeof_iphdr :: nat where "sizeof_iphdr \<equiv> 20"
abbreviation sizeof_tcphdr :: nat where "sizeof_tcphdr \<equiv> 20"
abbreviation IPPROTO_TCP :: u8 where "IPPROTO_TCP \<equiv> 6"

definition ip_ihl :: "buf \<Rightarrow> nat \<Rightarrow> nat option" where
  "ip_ihl b p = map_option (\<lambda>x. unat (x AND 15)) (ld8 b p)"

definition set_ip_ihl :: "buf \<Rightarrow> nat \<Rightarrow> nat \<Rightarrow> buf option" where
  "set_ip_ihl b p v = do { x \<leftarrow> ld8 b p; st8 b p ((x AND 240) OR (of_nat v AND 15)) }"

abbreviation (input) "ip_tot_len b p \<equiv> ld16 b (p + 2)"
abbreviation (input) "set_ip_tot_len b p \<equiv> st16 b (p + 2)"
abbreviation (input) "ip_id b p \<equiv> ld16 b (p + 4)"
abbreviation (input) "set_ip_id b p \<equiv> st16 b (p + 4)"
abbreviation (input) "set_ip_frag_off b p \<equiv> st16 b (p + 6)"
abbreviation (input) "set_ip_ttl b p \<equiv> st8 b (p + 8)"
abbreviation (input) "ip_protocol b p \<equiv> ld8 b (p + 9)"
abbreviation (input) "set_ip_check b p \<equiv> st16 b (p + 10)"
abbreviation (input) "ip_saddr b p \<equiv> ld32 b (p + 12)"
abbreviation (input) "set_ip_saddr b p \<equiv> st32 b (p + 12)"
abbreviation (input) "ip_daddr b p \<equiv> ld32 b (p + 16)"
abbreviation (input) "set_ip_daddr b p \<equiv> st32 b (p + 16)"

abbreviation (input) "tcp_source b p \<equiv> ld16 b p"
abbreviation (input) "set_tcp_source b p \<equiv> st16 b p"
abbreviation (input) "tcp_dest b p \<equiv> ld16 b (p + 2)"
abbreviation (input) "set_tcp_dest b p \<equiv> st16 b (p + 2)"
abbreviation (input) "tcp_seq b p \<equiv> ld32 b (p + 4)"
abbreviation (input) "set_tcp_seq b p \<equiv> st32 b (p + 4)"
abbreviation (input) "tcp_ack_seq b p \<equiv> ld32 b (p + 8)"
abbreviation (input) "set_tcp_ack_seq b p \<equiv> st32 b (p + 8)"
abbreviation (input) "set_tcp_check b p \<equiv> st16 b (p + 16)"

definition tcp_doff :: "buf \<Rightarrow> nat \<Rightarrow> nat option" where
  "tcp_doff b p = map_option (\<lambda>x. unat x div 16) (ld8 b (p + 12))"

definition set_tcp_doff :: "buf \<Rightarrow> nat \<Rightarrow> nat \<Rightarrow> buf option" where
  "set_tcp_doff b p v = do {
     x \<leftarrow> ld8 b (p + 12); st8 b (p + 12) ((x AND 15) OR push_bit 4 (of_nat v)) }"

text \<open>The flag bits of byte 13, from \<^verbatim>\<open>fin\<close> (bit 0) to \<^verbatim>\<open>cwr\<close> (bit 7).\<close>

definition tcp_flag :: "nat \<Rightarrow> buf \<Rightarrow> nat \<Rightarrow> bool option" where
  "tcp_flag k b p = map_option (\<lambda>x. bit x k) (ld8 b (p + 13))"

definition set_tcp_flag :: "nat \<Rightarrow> buf \<Rightarrow> nat \<Rightarrow> bool \<Rightarrow> buf option" where
  "set_tcp_flag k b p v = do {
     x \<leftarrow> ld8 b (p + 13); st8 b (p + 13) (if v then set_bit k x else unset_bit k x) }"

abbreviation (input) "tcp_fin \<equiv> tcp_flag 0"
abbreviation (input) "tcp_syn \<equiv> tcp_flag 1"
abbreviation (input) "tcp_rst \<equiv> tcp_flag 2"
abbreviation (input) "tcp_ack \<equiv> tcp_flag 4"

section \<open>Outcomes of the accesses\<close>

lemma ld8_Some [cmem]: "i < length b \<Longrightarrow> ld8 b i = Some (b ! i)"
  by (simp add: ld8_def)

lemma ld8_None [cmem]: "length b \<le> i \<Longrightarrow> ld8 b i = None"
  by (simp add: ld8_def)

lemma st8_Some [cmem]: "i < length b \<Longrightarrow> st8 b i v = Some (b[i := v])"
  by (simp add: st8_def)

lemma st8_None [cmem]: "length b \<le> i \<Longrightarrow> st8 b i v = None"
  by (simp add: st8_def)

lemma ld16_Some [cmem]: "i + 1 < length b \<Longrightarrow> ld16 b i = Some (le16 (b ! i) (b ! (i + 1)))"
  by (simp add: ld16_def ld8_def)

lemma ld32_Some [cmem]:
  "i + 3 < length b \<Longrightarrow>
   ld32 b i = Some (le32 (b ! i) (b ! (i + 1)) (b ! (i + 2)) (b ! (i + 3)))"
  by (simp add: ld32_def ld8_def)

lemma st16_Some [cmem]:
  "i + 1 < length b \<Longrightarrow> st16 b i v = Some (b[i := octet 0 v, i + 1 := octet 1 v])"
  by (simp add: st16_def st8_def)

lemma st32_Some [cmem]:
  "i + 3 < length b \<Longrightarrow>
   st32 b i v = Some (b[i := octet 0 v, i + 1 := octet 1 v, i + 2 := octet 2 v, i + 3 := octet 3 v])"
  by (simp add: st32_def st8_def)

lemma ld16_None [cmem]: "length b \<le> i + 1 \<Longrightarrow> ld16 b i = None"
  by (simp add: ld16_def ld8_def)

lemma ld32_None [cmem]: "length b \<le> i + 3 \<Longrightarrow> ld32 b i = None"
  by (simp add: ld32_def ld8_def)

lemma st16_None [cmem]: "length b \<le> i + 1 \<Longrightarrow> st16 b i v = None"
  by (simp add: st16_def st8_def)

lemma st32_None [cmem]: "length b \<le> i + 3 \<Longrightarrow> st32 b i v = None"
  by (simp add: st32_def st8_def)

lemma ip_ihl_Some [cmem]: "p < length b \<Longrightarrow> ip_ihl b p = Some (unat (b ! p) mod 16)"
  by (simp add: ip_ihl_def ld8_def unat_low_nibble)

lemma tcp_doff_Some [cmem]: "p + 12 < length b \<Longrightarrow> tcp_doff b p = Some (unat (b ! (p + 12)) div 16)"
  by (simp add: tcp_doff_def ld8_def)

lemma tcp_flag_Some [cmem]: "p + 13 < length b \<Longrightarrow> tcp_flag k b p = Some (bit (b ! (p + 13)) k)"
  by (simp add: tcp_flag_def ld8_def)

section \<open>Octets\<close>

lemma unat_octet [wordnat]: "unat (octet k v) = unat v div 256 ^ k mod 256"
proof -
  have "unat (octet k v) = take_bit 8 (drop_bit (8 * k) (unat v))"
    by (simp add: octet_def unsigned_ucast_eq flip: unat_drop_bit_eq)
  then show ?thesis
    by (simp add: take_bit_eq_mod drop_bit_eq_div power_mult)
qed

lemma octet_zero [simp]: "octet k (0 :: 'a::len word) = 0"
  by (simp add: octet_def)

lemma unat_push_byte16: "unat (push_bit 8 (ucast (b :: u8)) :: u16) = 256 * unat b"
  using unat_u8_bound [of b]
  by (simp add: push_bit_eq_mult unat_word_ariths unsigned_ucast_eq take_bit_eq_mod)

lemma unat_push_byte32:
  "unat (push_bit 8 (ucast (b :: u8)) :: u32) = 256 * unat b"
  "unat (push_bit 16 (ucast b) :: u32) = 65536 * unat b"
  "unat (push_bit 24 (ucast b) :: u32) = 16777216 * unat b"
  using unat_u8_bound [of b]
  by (simp_all add: push_bit_eq_mult unat_word_ariths unsigned_ucast_eq take_bit_eq_mod)

lemma unat_le16 [wordnat]: "unat (le16 a b) = unat a + 256 * unat b"
proof -
  have "unat a + 256 * unat b < 65536"
    using unat_u8_bound [of a] unat_u8_bound [of b] by linarith
  then show ?thesis
    by (simp add: le16_def unat_word_ariths unat_push_byte16 unsigned_ucast_eq take_bit_eq_mod)
qed

lemma unat_le32 [wordnat]:
  "unat (le32 a b c d) = unat a + 256 * (unat b + 256 * (unat c + 256 * unat d))"
proof -
  have "unat a + 256 * unat b + 65536 * unat c + 16777216 * unat d < 4294967296"
    using unat_u8_bound [of a] unat_u8_bound [of b] unat_u8_bound [of c] unat_u8_bound [of d]
    by linarith
  then show ?thesis
    by (simp add: le32_def unat_word_ariths unat_push_byte32 unsigned_ucast_eq take_bit_eq_mod)
qed

lemma octet_le16 [simp]: "octet 0 (le16 a b) = a" "octet 1 (le16 a b) = b" "octet (Suc 0) (le16 a b) = b"
  using unat_u8_bound [of a] unat_u8_bound [of b] by (simp_all add: word_unat_eq_iff wordnat)

lemma le16_octet [simp]: "le16 (octet 0 v) (octet 1 v) = v" "le16 (octet 0 v) (octet (Suc 0) v) = v"
  using unat_u16_bound [of v] by (simp_all add: word_unat_eq_iff wordnat)

lemma div_256_powers:
  "(n :: nat) div 65536 = n div 256 div 256" "n div 16777216 = n div 256 div 256 div 256"
  by (simp_all flip: div_mult2_eq)

lemma octet_le32 [simp]:
  "octet 0 (le32 a b c d) = a" "octet 1 (le32 a b c d) = b" "octet (Suc 0) (le32 a b c d) = b"
  "octet 2 (le32 a b c d) = c" "octet 3 (le32 a b c d) = d"
  using unat_u8_bound [of a] unat_u8_bound [of b] unat_u8_bound [of c] unat_u8_bound [of d]
  by (simp_all add: word_unat_eq_iff unat_octet unat_le32 div_256_powers del: distrib_left_numeral)

lemma le32_octet [simp]:
  "le32 (octet 0 v) (octet 1 v) (octet 2 v) (octet 3 v) = v"
  "le32 (octet 0 v) (octet (Suc 0) v) (octet 2 v) (octet 3 v) = v"
proof -
  have "unat v div 256 div 256 div 256 mod 256 = unat v div 256 div 256 div 256"
    using unat_u32_bound [of v] by (simp flip: div_mult2_eq)
  then show "le32 (octet 0 v) (octet 1 v) (octet 2 v) (octet 3 v) = v"
    and "le32 (octet 0 v) (octet (Suc 0) v) (octet 2 v) (octet 3 v) = v"
    by (simp_all add: word_unat_eq_iff unat_octet unat_le32 div_256_powers del: distrib_left_numeral)
qed

section \<open>Byte order, seen from the bytes\<close>

lemma ntohs_le16 [simp]: "ntohs (le16 a b) = le16 b a"
  by (simp add: ntohs_def)

lemma ntohl_le32 [simp]: "ntohl (le32 a b c d) = le32 d c b a"
  by (simp add: ntohl_def)

lemma htons_le16 [simp]: "htons (le16 a b) = le16 b a"
  by (simp add: htons_def)

lemma htonl_le32 [simp]: "htonl (le32 a b c d) = le32 d c b a"
  by (simp add: htonl_def)

lemma ntohs_htons [simp]: "ntohs (htons v) = v"
  by (simp add: htons_def)

lemma ntohl_htonl [simp]: "ntohl (htonl v) = v"
  by (simp add: htonl_def)

lemma octet_htons [simp]: "octet 0 (htons v) = octet 1 v" "octet 1 (htons v) = octet 0 v"
    "octet (Suc 0) (htons v) = octet 0 v"
  by (simp_all add: htons_def)

lemma octet_htonl [simp]:
  "octet 0 (htonl v) = octet 3 v" "octet 1 (htonl v) = octet 2 v"
  "octet (Suc 0) (htonl v) = octet 2 v" "octet 2 (htonl v) = octet 1 v"
  "octet 3 (htonl v) = octet 0 v"
  by (simp_all add: htonl_def)

text \<open>The functions are involutions, so the code may use either of a pair.\<close>

lemma htonl_eq_ntohl: "htonl = ntohl"
  by (simp add: fun_eq_iff htonl_def ntohl_def)

section \<open>The contract of a header field\<close>

text \<open>
  A field occupies the bytes \<open>[off, off + w)\<close>: it can be read and written exactly when they
  are inside the buffer, a read returns the last write, a write keeps the length of the buffer and
  every byte outside, and a read depends on the bytes of the field only.
\<close>

locale buffer_field =
  fixes get :: "buf \<Rightarrow> 'v option"
    and put :: "buf \<Rightarrow> 'v \<Rightarrow> buf option"
    and off w :: nat
  assumes width: "0 < w"
    and get_defined: "(get b \<noteq> None) = (off + w \<le> length b)"
    and put_defined: "(put b v \<noteq> None) = (off + w \<le> length b)"
    and get_put: "put b v = Some b' \<Longrightarrow> get b' = Some v"
    and put_length: "put b v = Some b' \<Longrightarrow> length b' = length b"
    and put_frame: "put b v = Some b' \<Longrightarrow> i < off \<or> off + w \<le> i \<Longrightarrow> b' ! i = b ! i"
    and get_local: "length b = length b' \<Longrightarrow>
      (\<And>i. off \<le> i \<Longrightarrow> i < off + w \<Longrightarrow> b ! i = b' ! i) \<Longrightarrow> get b = get b'"
begin

lemma put_idem:
  assumes "put b v = Some b1" and "put b1 v' = Some b2"
  shows "get b2 = Some v' \<and> length b2 = length b"
  using assms get_put put_length by metis

lemma get_after_write:
  assumes "length b' = length b" and "\<And>i. i < j \<or> j + n \<le> i \<Longrightarrow> b' ! i = b ! i"
    and "off + w \<le> j \<or> j + n \<le> off"
  shows "get b' = get b"
  using assms by (intro get_local) auto

end

locale two_fields =
  f: buffer_field get put off w + g: buffer_field get' put' off' w'
  for get :: "buf \<Rightarrow> 'v option" and put off w
    and get' :: "buf \<Rightarrow> 'u option" and put' off' w' +
  assumes apart: "off + w \<le> off' \<or> off' + w' \<le> off"
begin

text \<open>A write to one field is not seen through the other, and the writes commute.\<close>

lemma get_put_other: "put b v = Some b' \<Longrightarrow> get' b' = get' b"
  using apart by (intro g.get_after_write [of b' b off w]) (auto simp: f.put_length f.put_frame)

lemma get_put_both:
  assumes "put b v = Some b1" and "put' b1 u = Some b2"
  shows "get b2 = Some v \<and> get' b2 = Some u"
proof -
  have "get b2 = get b1"
    using assms(2) apart
    by (intro f.get_after_write [of b2 b1 off' w']) (auto simp: g.put_length g.put_frame)
  then show ?thesis using assms f.get_put g.get_put by simp
qed

end

interpretation field8: buffer_field "\<lambda>b. ld8 b i" "\<lambda>b. st8 b i" i 1 for i
  by unfold_locales (auto simp: ld8_def st8_def split: if_splits)

interpretation field16: buffer_field "\<lambda>b. ld16 b i" "\<lambda>b. st16 b i" i 2 for i
  by unfold_locales (auto simp: ld16_def st16_def ld8_def st8_def split: if_splits)

interpretation field32: buffer_field "\<lambda>b. ld32 b i" "\<lambda>b. st32 b i" i 4 for i
  by unfold_locales (auto simp: ld32_def st32_def ld8_def st8_def split: if_splits)

text \<open>The two addresses of an IP header, and the two ports of a TCP header at offset \<open>p\<close>.\<close>

interpretation addresses: two_fields
  "\<lambda>b. ld32 b 12" "\<lambda>b. st32 b 12" 12 4 "\<lambda>b. ld32 b 16" "\<lambda>b. st32 b 16" 16 4
  by unfold_locales simp

interpretation ports: two_fields
  "\<lambda>b. ld16 b p" "\<lambda>b. st16 b p" p 2 "\<lambda>b. ld16 b (p + 2)" "\<lambda>b. st16 b (p + 2)" "p + 2" 2 for p
  by unfold_locales simp

end
