(* ===== verification/Checksum.thy ===== *)
theory Checksum
  imports Bytes
begin

text \<open>
  The checksum routines of \<^verbatim>\<open>src/src/lib/protocol_headers.c\<close>: \<^verbatim>\<open>summing\<close>, \<^verbatim>\<open>ip_csum\<close> and
  \<^verbatim>\<open>tcp_csum\<close>. The reference is the arithmetic of RFC 1071: \<open>sum16\<close> adds the big-endian 16 bit
  words of a byte sequence (an odd last byte padded with zero) as a natural number, and
  \<open>oc16\<close> is the one's complement (end-around carry) value of such a sum. The lemmas show that the
  32 bit accumulator never wraps for a packet of IP size, that the folding loop ends, that
  \<open>summing\<close> computes \<open>oc16\<close> of the sum, and that a buffer whose check field holds the
  complement of its sum verifies.
\<close>

section \<open>The routines\<close>

text \<open>\<^verbatim>\<open>while (bytes > 1) { sum += buffer[i] << 8; sum += buffer[i+1]; i += 2; bytes -= 2; }\<close>\<close>

function summing_pairs :: "buf \<Rightarrow> nat \<Rightarrow> int \<Rightarrow> u32 \<Rightarrow> (nat \<times> int \<times> u32) option" where
  "summing_pairs b i bytes acc =
     (if bytes > 1 then do {
        x \<leftarrow> ld8 b i;
        y \<leftarrow> ld8 b (i + 1);
        summing_pairs b (i + 2) (bytes - 2) (acc + push_bit 8 (ucast x) + ucast y) }
      else Some (i, bytes, acc))"
  by pat_completeness auto
termination
  by (relation "measure (\<lambda>(b, i, bytes, acc). nat bytes)") auto

text \<open>\<^verbatim>\<open>while (1) { if (sum <= 0xffff) break; sum = (sum >> 16) + (uint16_t)sum; }\<close>\<close>

definition fold_carry :: "u32 \<Rightarrow> u32" where
  "fold_carry acc = drop_bit 16 acc + ucast (ucast acc :: u16)"

lemma unat_fold_carry: "unat (fold_carry s) = unat s div 65536 + unat s mod 65536"
proof -
  have lo: "unat (ucast (ucast s :: u16) :: u32) = unat s mod 65536"
    by (simp add: unsigned_ucast_eq take_bit_eq_mod unat_mod)
  have hi: "unat (drop_bit 16 s) = unat s div 65536"
    by (simp add: unat_drop_bit_u32)
  have "unat s div 65536 + unat s mod 65536 < 4294967296"
    using unat_u32_bound [of s] by linarith
  then show ?thesis
    unfolding fold_carry_def unat_add_u32 lo hi by simp
qed

lemma fold_carry_less: "\<not> s \<le> 0xffff \<Longrightarrow> unat (fold_carry s) < unat s"
proof -
  assume "\<not> s \<le> 0xffff"
  then have "65535 < unat s"
    by (simp add: word_le_nat_alt)
  then have "0 < unat s div 65536"
    by (simp add: div_greater_zero_iff)
  then show ?thesis
    unfolding unat_fold_carry using mult_div_mod_eq [of 65536 "unat s"] by linarith
qed

function summing_fold :: "u32 \<Rightarrow> u32" where
  "summing_fold acc = (if acc \<le> 0xffff then acc else summing_fold (fold_carry acc))"
  by pat_completeness auto
termination
  by (relation "measure unat") (auto intro: fold_carry_less)

declare summing_pairs.simps [simp del] summing_fold.simps [simp del]

definition summing :: "buf \<Rightarrow> nat \<Rightarrow> int \<Rightarrow> u32 \<Rightarrow> u16 option" where
  "summing b p bytes acc = do {
     (i, bytes, acc) \<leftarrow> summing_pairs b p bytes acc;
     acc \<leftarrow> (if bytes = 1 then do { x \<leftarrow> ld8 b i; Some (acc + push_bit 8 (ucast x)) } else Some acc);
     Some (ucast (summing_fold acc)) }"

definition ip_csum :: "buf \<Rightarrow> nat \<Rightarrow> u16 option" where
  "ip_csum b ip_header = do {
     ihl \<leftarrow> ip_ihl b ip_header;
     acc \<leftarrow> summing b ip_header (int (ihl * 4)) 0;
     Some (NOT acc) }"

text \<open>The pointer \<^verbatim>\<open>tcp_data\<close> may be NULL (\<open>None\<close>).\<close>

definition tcp_csum :: "buf \<Rightarrow> nat \<Rightarrow> nat \<Rightarrow> nat option \<Rightarrow> u16 option" where
  "tcp_csum b ip_header tcp_header tcp_data = do {
     tot_len \<leftarrow> ip_tot_len b ip_header;
     ihl \<leftarrow> ip_ihl b ip_header;
     doff \<leftarrow> tcp_doff b tcp_header;
     let tcp_data_bytes = uint (ntohs tot_len) - int (ihl * 4) - int (doff * 4);
     let pseudo_header = replicate 12 0;
     pseudo_header \<leftarrow> memcpy pseudo_header 0 b (ip_header + 12) 4;
     pseudo_header \<leftarrow> memcpy pseudo_header 4 b (ip_header + 16) 4;
     pseudo_header \<leftarrow> st8 pseudo_header 9 IPPROTO_TCP;
     pseudo_header \<leftarrow> st16 pseudo_header 10 (htons (of_int (int (doff * 4) + tcp_data_bytes)));
     acc \<leftarrow> summing pseudo_header 0 12 0;
     acc \<leftarrow> summing b tcp_header (int (doff * 4)) (ucast acc);
     acc \<leftarrow> (if tcp_data_bytes > 0
            then do { d \<leftarrow> tcp_data; summing b d tcp_data_bytes (ucast acc) }
            else Some acc);
     Some (NOT acc) }"

section \<open>The reference: RFC 1071 sums\<close>

fun sum16 :: "buf \<Rightarrow> nat" where
  "sum16 (x # y # r) = 256 * unat x + unat y + sum16 r"
| "sum16 [x] = 256 * unat x"
| "sum16 [] = 0"

definition oc16 :: "nat \<Rightarrow> nat" where
  "oc16 n = (if n = 0 then 0 else (n - 1) mod 65535 + 1)"

section \<open>One's complement arithmetic\<close>

lemma oc16_small [csum]: "n \<le> 65535 \<Longrightarrow> oc16 n = n"
  by (simp add: oc16_def)

lemma oc16_pos: "0 < n \<Longrightarrow> oc16 n = (n - 1) mod 65535 + 1"
  by (simp add: oc16_def)

lemma oc16_le: "oc16 n \<le> 65535"
proof (cases "0 < n")
  case True
  have "(n - 1) mod 65535 < 65535" by simp
  then show ?thesis unfolding oc16_pos [OF True] by linarith
qed (simp add: oc16_def)

lemma oc16_0_iff [csum]: "oc16 n = 0 \<longleftrightarrow> n = 0"
  by (simp add: oc16_def)

lemma oc16_mod: "oc16 n mod 65535 = n mod 65535"
proof (cases "n = 0")
  case False
  have "((n - 1) mod 65535 + 1) mod 65535 = (n - 1 + 1) mod 65535"
    by (rule mod_add_left_eq)
  with False show ?thesis by (simp add: oc16_def)
qed (simp add: oc16_def)

text \<open>A value is determined by its residue and by whether it is zero.\<close>

lemma oc16_eqI:
  assumes "m mod 65535 = n mod 65535" and "m = 0 \<longleftrightarrow> n = 0"
  shows "oc16 m = oc16 n"
proof (cases "n = 0")
  case False
  then have pos: "0 < m" "0 < n" using assms(2) by auto
  have shift: "(k - 1) mod 65535 = (k + 65534) mod 65535" if "0 < k" for k :: nat
  proof -
    have "k + 65534 = (k - 1) + 65535" using that by linarith
    then show ?thesis by (simp only: mod_add_self2)
  qed
  have "(m + 65534) mod 65535 = (n + 65534) mod 65535"
    using assms(1) by (rule mod_add_cong) (rule refl)
  then show ?thesis
    by (simp only: oc16_pos [OF pos(1)] oc16_pos [OF pos(2)] shift [OF pos(1)] shift [OF pos(2)])
qed (use assms in \<open>simp add: oc16_def\<close>)

lemma oc16_add_left [csum]: "oc16 (oc16 a + b) = oc16 (a + b)"
proof (rule oc16_eqI)
  show "(oc16 a + b) mod 65535 = (a + b) mod 65535"
    by (rule mod_add_cong [OF oc16_mod refl])
qed (simp add: oc16_0_iff)

lemma oc16_carry: "oc16 (n div 65536 + n mod 65536) = oc16 n"
proof (rule oc16_eqI)
  have "n = 65535 * (n div 65536) + (n div 65536 + n mod 65536)"
    using mult_div_mod_eq [of 65536 n] by linarith
  then have "n mod 65535 = (65535 * (n div 65536) + (n div 65536 + n mod 65536)) mod 65535"
    by (rule arg_cong)
  then show "(n div 65536 + n mod 65536) mod 65535 = n mod 65535"
    by (simp only: mod_mult_self4)
  show "(n div 65536 + n mod 65536 = 0) = (n = 0)"
    by auto
qed

text \<open>Adding the complement of a sum gives the all-ones value a receiver checks for.\<close>

lemma oc16_complement: "oc16 (n + (65535 - oc16 n)) = 65535"
proof -
  have "oc16 (n + (65535 - oc16 n)) = oc16 (oc16 n + (65535 - oc16 n))"
    by (simp only: oc16_add_left)
  also have "\<dots> = 65535"
    using oc16_le [of n] by (simp add: oc16_small)
  finally show ?thesis .
qed

section \<open>Sums of byte sequences\<close>

lemma sum16_bound: "sum16 xs \<le> 65535 * ((length xs + 1) div 2)"
proof (induction xs rule: sum16.induct)
  case (1 x y r)
  then show ?case
    using unat_u8_bound [of x] unat_u8_bound [of y] by simp
next
  case (2 x)
  then show ?case using unat_u8_bound [of x] by simp
qed simp

lemma sum16_append: "even (length xs) \<Longrightarrow> sum16 (xs @ ys) = sum16 xs + sum16 ys"
  by (induction xs rule: sum16.induct) auto

text \<open>Writing a 16 bit word at an even position that holds zero adds the word.\<close>

lemma sum16_put:
  assumes "even k" and "k + 1 < length xs" and "xs ! k = 0" and "xs ! (k + 1) = 0"
  shows "sum16 (xs[k := x, k + 1 := y]) = sum16 xs + 256 * unat x + unat y"
  using assms
proof (induction xs arbitrary: k rule: sum16.induct)
  case (1 a b r)
  show ?case
  proof (cases k)
    case (Suc j)
    with "1.prems"(1) obtain m where k: "k = m + 2"
      by (cases j) auto
    have "sum16 (r[m := x, m + 1 := y]) = sum16 r + 256 * unat x + unat y"
      using "1.prems" by (intro "1.IH") (auto simp: k)
    then show ?thesis by (simp add: k)
  qed (use "1.prems" in simp)
qed auto

section \<open>The routines meet the reference\<close>

lemma unat_acc:
  assumes "unat s + 256 * unat (x :: u8) + unat (y :: u8) < 4294967296"
  shows "unat (s + push_bit 8 (ucast x) + ucast y :: u32) = unat s + 256 * unat x + unat y"
  using assms
  by (simp add: unat_add_u32 unat_push_byte32 unsigned_ucast_eq take_bit_eq_mod)

lemma summing_pairs_spec:
  "i + n \<le> length b \<Longrightarrow> unat s + sum16 (take n (drop i b)) < 4294967296 \<Longrightarrow>
   \<exists>s'. summing_pairs b i (int n) s = Some (i + 2 * (n div 2), int (n mod 2), s') \<and>
        unat s' + (if odd n then 256 * unat (b ! (i + 2 * (n div 2))) else 0)
          = unat s + sum16 (take n (drop i b))"
proof (induction n arbitrary: i s rule: induct_nat_012)
  case 0
  then show ?case by (simp add: summing_pairs.simps)
next
  case 1
  then have "take 1 (drop i b) = [b ! i]"
    by (simp add: take_Suc hd_drop_conv_nth)
  then show ?case by (simp add: summing_pairs.simps)
next
  case (ge2 n)
  have split: "take (Suc (Suc n)) (drop i b) = b ! i # b ! (i + 1) # take n (drop (i + 2) b)"
    using ge2.prems(1) by (simp flip: Cons_nth_drop_Suc)
  let ?s = "s + push_bit 8 (ucast (b ! i)) + ucast (b ! (i + 1)) :: u32"
  have s: "unat ?s = unat s + 256 * unat (b ! i) + unat (b ! (i + 1))"
    using ge2.prems(2) by (intro unat_acc) (simp add: split)
  have in_range: "i + 2 + n \<le> length b"
    using ge2.prems(1) by simp
  have no_wrap: "unat ?s + sum16 (take n (drop (i + 2) b)) < 4294967296"
    unfolding s using ge2.prems(2) by (simp add: split)
  obtain s' where "summing_pairs b (i + 2) (int n) ?s
      = Some (i + 2 + 2 * (n div 2), int (n mod 2), s')"
    and "unat s' + (if odd n then 256 * unat (b ! (i + 2 + 2 * (n div 2))) else 0)
      = unat ?s + sum16 (take n (drop (i + 2) b))"
    using ge2.IH(1) [OF in_range no_wrap] by blast
  then show ?case
    using ge2.prems
    by (cases "odd n")
      (auto elim!: oddE evenE simp: summing_pairs.simps [of b i] ld8_def s [simplified] split)
qed

lemma unat_summing_fold: "unat (summing_fold s) = oc16 (unat s)"
proof (induction s rule: summing_fold.induct)
  case (1 s)
  show ?case
  proof (cases "s \<le> 0xffff")
    case True
    then show ?thesis by (simp add: summing_fold.simps word_le_nat_alt oc16_small)
  next
    case False
    then have "unat (summing_fold s) = oc16 (unat (fold_carry s))"
      using 1 by (simp add: summing_fold.simps [of s])
    then show ?thesis by (simp add: unat_fold_carry oc16_carry)
  qed
qed

lemma summing_spec:
  assumes "i + n \<le> length b" and "unat s + sum16 (take n (drop i b)) < 4294967296"
  shows "summing b i (int n) s = Some (of_nat (oc16 (unat s + sum16 (take n (drop i b)))))"
proof -
  let ?m = "i + 2 * (n div 2)"
  obtain s' where run: "summing_pairs b i (int n) s = Some (?m, int (n mod 2), s')"
    and s': "unat s' + (if odd n then 256 * unat (b ! ?m) else 0)
      = unat s + sum16 (take n (drop i b))"
    using summing_pairs_spec [OF assms] by blast
  have cast: "(ucast (summing_fold t) :: u16) = of_nat (oc16 (unat t))" for t
    by (simp flip: unat_summing_fold)
  show ?thesis
  proof (cases "odd n")
    case True
    then have "?m < length b"
      using assms(1) by (auto elim!: oddE)
    moreover have "unat (s' + push_bit 8 (ucast (b ! ?m))) = unat s + sum16 (take n (drop i b))"
      using unat_acc [of s' "b ! ?m" 0] s' assms(2) True by simp
    ultimately show ?thesis
      using True by (simp add: summing_def run ld8_def cast odd_iff_mod_2_eq_one)
  next
    case False
    then show ?thesis using s' by (simp add: summing_def run cast even_iff_mod_2_eq_zero)
  qed
qed

text \<open>
  No byte sequence of at most \<open>65535\<close> bytes makes the accumulator wrap, whatever 16 bit value
  it starts from.
\<close>

lemma summing_ip_size:
  assumes "i + n \<le> length b" and "n \<le> 65535"
  shows "summing b i (int n) (ucast (s :: u16))
    = Some (of_nat (oc16 (unat s + sum16 (take n (drop i b)))))"
proof -
  have "sum16 (take n (drop i b)) \<le> 65535 * ((n + 1) div 2)"
    using sum16_bound [of "take n (drop i b)"] assms(1) by simp
  also have "\<dots> \<le> 65535 * 32768"
    using assms(2) by simp
  finally have "unat s + sum16 (take n (drop i b)) < 4294967296"
    using unat_u16_bound [of s] by simp
  then show ?thesis
    using summing_spec [OF assms(1), of "ucast s"] by (simp add: unsigned_ucast_eq take_bit_eq_mod)
qed

text \<open>Sums of consecutive pieces chain through the 16 bit result.\<close>

lemma unat_of_nat_oc16: "unat (of_nat (oc16 m) :: u16) = oc16 m"
  using oc16_le [of m] by (simp add: unat_of_nat_u16)

lemma summing_chain:
  assumes "i + n \<le> length b" and "n \<le> 65535"
  shows "summing b i (int n) (ucast (of_nat (oc16 m) :: u16))
    = Some (of_nat (oc16 (m + sum16 (take n (drop i b)))))"
  using summing_ip_size [OF assms, of "of_nat (oc16 m)"]
  by (simp only: unat_of_nat_oc16 oc16_add_left)

text \<open>Which sums are defined: no byte outside the buffer is read.\<close>

lemma summing_pairs_outcome:
  "if n < 2 \<or> i + 2 * (n div 2) \<le> length b
   then \<exists>s'. summing_pairs b i (int n) s = Some (i + 2 * (n div 2), int (n mod 2), s')
   else summing_pairs b i (int n) s = None"
proof (induction n arbitrary: i s rule: induct_nat_012)
  case (ge2 n)
  show ?case
    using ge2(1) [of "i + 2" "s + push_bit 8 (ucast (b ! i)) + ucast (b ! (i + 1))"]
    by (cases "i + 1 < length b"; cases "n < 2") (auto simp: summing_pairs.simps [of b i] ld8_def less_2_cases_iff)
qed (simp_all add: summing_pairs.simps)

lemma summing_defined:
  "(\<exists>c. summing b i (int n) s = Some c) \<longleftrightarrow> n = 0 \<or> i + n \<le> length b"
proof -
  have n: "n = 2 * (n div 2) + n mod 2" "n mod 2 = 0 \<or> n mod 2 = 1" by auto
  show ?thesis
  proof (cases "n < 2 \<or> i + 2 * (n div 2) \<le> length b")
    case True
    then obtain s' where "summing_pairs b i (int n) s = Some (i + 2 * (n div 2), int (n mod 2), s')"
      using summing_pairs_outcome [of n i b s] by auto
    then show ?thesis
      using True n(2)
      by (cases "n mod 2 = 0") (auto simp: summing_def ld8_def less_2_cases_iff, use n(1) in linarith)
  next
    case False
    then show ?thesis
      using summing_pairs_outcome [of n i b s] by (simp add: summing_def, use n(1) in linarith)
  qed
qed

section \<open>Header and segment checksums\<close>

text \<open>The sums a receiver computes: over the IP header, and over pseudo header and segment.\<close>

definition ip_header_sum :: "buf \<Rightarrow> nat \<Rightarrow> nat \<Rightarrow> nat" where
  "ip_header_sum b ip hl = sum16 (take hl (drop ip b))"

definition tcp_segment_sum :: "buf \<Rightarrow> nat \<Rightarrow> nat \<Rightarrow> nat \<Rightarrow> nat" where
  "tcp_segment_sum b ip tcp n =
     sum16 (take 8 (drop (ip + 12) b)) + 6 + n + sum16 (take n (drop tcp b))"

lemma ip_csum_spec:
  assumes "ip_ihl b ip = Some ihl" and "ip + 4 * ihl \<le> length b"
  shows "ip_csum b ip = Some (NOT (of_nat (oc16 (ip_header_sum b ip (4 * ihl)))))"
proof -
  have "ihl \<le> 15"
    using assms(1) by (auto simp: ip_ihl_def unat_low_nibble ld8_def split: if_splits)
  then show ?thesis
    using assms summing_ip_size [of ip "4 * ihl" b 0]
    by (simp add: ip_csum_def ip_header_sum_def mult.commute)
qed

text \<open>The pseudo header: addresses, a zero byte, the protocol and the segment length.\<close>

lemma sum16_addresses:
  assumes "p + 8 \<le> length b"
  shows "sum16 (take 4 (drop p b)) + sum16 (take 4 (drop (p + 4) b)) = sum16 (take 8 (drop p b))"
proof -
  have "take 8 (drop p b) = take 4 (drop p b) @ take 4 (drop (p + 4) b)"
    using take_add [of 4 4 "drop p b"] by (simp add: add.commute)
  then show ?thesis using assms by (simp add: sum16_append)
qed

lemma pseudo_header_sum:
  assumes "length a = 4" and "length d = 4" and "n \<le> 65535"
  shows "sum16 (a @ d @ [0, IPPROTO_TCP, octet 0 (htons (of_nat n)), octet 1 (htons (of_nat n))])
    = sum16 a + sum16 d + 6 + n"
proof -
  have "256 * unat (octet 1 (of_nat n :: u16)) + unat (octet 0 (of_nat n :: u16)) = n"
    using assms(3) mult_div_mod_eq [of 256 n] by (simp add: unat_octet unat_of_nat_u16)
  then show ?thesis using assms by (simp add: sum16_append)
qed

lemma pseudo_header_steps:
  fixes a d :: buf
  assumes a: "length a = 4" "p + 4 \<le> length b" "take 4 (drop p b) = a"
    and d: "length d = 4" "q + 4 \<le> length b" "take 4 (drop q b) = d"
  shows "memcpy (replicate 12 0) 0 b p 4 = Some (a @ replicate 8 0)"
    and "memcpy (a @ replicate 8 0) 4 b q 4 = Some (a @ d @ [0, 0, 0, 0])"
    and "st8 (a @ d @ [0, 0, 0, 0]) 9 v = Some (a @ d @ [0, v, 0, 0])"
    and "st16 (a @ d @ [0, v, 0, 0]) 10 w = Some (a @ d @ [0, v, octet 0 w, octet 1 w])"
  using assms
  by (simp_all add: memcpy_def st8_def st16_def list_update_append numeral_eq_Suc)

lemma tcp_csum_unfold:
  assumes tot: "ip_tot_len b ip = Some t" and ihl: "ip_ihl b ip = Some ihl"
    and doff: "tcp_doff b tcp = Some doff" and "ip + 20 \<le> length b"
    and "n = unat (ntohs t) - 4 * ihl" and "4 * ihl + 4 * doff \<le> unat (ntohs t)"
  shows "tcp_csum b ip tcp data = do {
    acc \<leftarrow> summing (take 4 (drop (ip + 12) b) @ take 4 (drop (ip + 16) b)
             @ [0, IPPROTO_TCP, octet 0 (htons (of_nat n)), octet 1 (htons (of_nat n))]) 0 12 0;
    acc \<leftarrow> summing b tcp (int (4 * doff)) (ucast acc);
    acc \<leftarrow> (if n \<noteq> 4 * doff then do { d \<leftarrow> data; summing b d (int (n - 4 * doff)) (ucast acc) }
           else Some acc);
    Some (NOT acc) }"
proof -
  let ?a = "take 4 (drop (ip + 12) b)" and ?d = "take 4 (drop (ip + 16) b)"
  have bytes: "uint (ntohs t) - int (ihl * 4) - int (doff * 4) = int (n - 4 * doff)"
    and len: "int (doff * 4) + int (n - 4 * doff) = int n"
    using assms(5,6) by (simp_all add: of_nat_diff)
  have w: "(of_int (int n) :: u16) = of_nat n" by simp
  have guard: "(0 < int (n - 4 * doff)) = (n \<noteq> 4 * doff)"
  proof -
    have "4 * doff \<le> n" using assms(5,6) by linarith
    then show ?thesis unfolding of_nat_0_less_iff zero_less_diff by linarith
  qed
  have fill: "(do { h \<leftarrow> memcpy (replicate 12 0) 0 b (ip + 12) 4; h \<leftarrow> memcpy h 4 b (ip + 16) 4;
      h \<leftarrow> st8 h 9 IPPROTO_TCP; h \<leftarrow> st16 h 10 (htons (of_nat n)); f h })
    = f (?a @ ?d @ [0, IPPROTO_TCP, octet 0 (htons (of_nat n)), octet 1 (htons (of_nat n))])"
    for f :: "buf \<Rightarrow> u16 option"
  proof -
    have "length ?a = 4" "length ?d = 4" "ip + 12 + 4 \<le> length b" "ip + 16 + 4 \<le> length b"
      using assms(4) by auto
    then show ?thesis
      by (simp only: pseudo_header_steps bind.bind_lunit)
  qed
  show ?thesis
    unfolding tcp_csum_def tot ihl doff bind.bind_lunit Let_def bytes len w guard fill
    by (auto simp: mult.commute)
qed

text \<open>What is summed when the data lie at \<open>q\<close>, which should be right behind the header.\<close>

lemma tcp_csum_at:
  assumes tot: "ip_tot_len b ip = Some t" and ihl: "ip_ihl b ip = Some ihl"
    and doff: "tcp_doff b tcp = Some doff" and fits: "ip + 20 \<le> length b" "tcp + 4 * doff \<le> length b"
    and n: "n = unat (ntohs t) - 4 * ihl" and hd: "4 * ihl + 4 * doff \<le> unat (ntohs t)"
    and data: "n \<noteq> 4 * doff \<Longrightarrow> data = Some q" "n \<noteq> 4 * doff \<Longrightarrow> q + (n - 4 * doff) \<le> length b"
  shows "tcp_csum b ip tcp data = Some (NOT (of_nat (oc16 (sum16 (take 8 (drop (ip + 12) b)) + 6 + n +
    sum16 (take (4 * doff) (drop tcp b)) + sum16 (take (n - 4 * doff) (drop q b))))))"
proof -
  let ?a = "take 4 (drop (ip + 12) b)" and ?d = "take 4 (drop (ip + 16) b)"
  let ?ph = "?a @ ?d @ [0, IPPROTO_TCP, octet 0 (htons (of_nat n)), octet 1 (htons (of_nat n))]"
  let ?p = "sum16 ?a + sum16 ?d + 6 + n"
  let ?h = "sum16 (take (4 * doff) (drop tcp b))"
  let ?r = "sum16 (take (n - 4 * doff) (drop q b))"
  have n_le: "n \<le> 65535" and d_le: "4 * doff \<le> n"
    using n hd unat_u16_bound [of "ntohs t"] by auto
  have la: "length ?a = 4" "length ?d = 4" using fits by auto
  have ph: "summing ?ph 0 12 0 = Some (of_nat (oc16 ?p))"
    using summing_ip_size [of 0 12 ?ph 0] pseudo_header_sum [OF la n_le] la by simp
  have hdr: "summing b tcp (int (4 * doff)) (ucast (of_nat (oc16 ?p) :: u16))
      = Some (of_nat (oc16 (?p + ?h)))"
    using fits d_le n_le by (intro summing_chain) auto
  have p8: "?p = sum16 (take 8 (drop (ip + 12) b)) + 6 + n"
    using sum16_addresses [of "ip + 12" b] fits by (simp add: add.commute add.left_commute)
  show ?thesis
  proof (cases "n = 4 * doff")
    case True
    then have r: "?r = 0" and none: "(n \<noteq> 4 * doff) = False" by simp_all
    show ?thesis
      unfolding p8 [symmetric] r add_0_right
      by (simp only: tcp_csum_unfold [OF tot ihl doff fits(1) n hd] ph hdr none if_False bind.bind_lunit)
  next
    case False
    then have dat: "summing b q (int (n - 4 * doff)) (ucast (of_nat (oc16 (?p + ?h)) :: u16))
        = Some (of_nat (oc16 (?p + ?h + ?r)))"
      using data(2) d_le n_le by (intro summing_chain) auto
    show ?thesis
      unfolding p8 [symmetric] using False
      by (simp only: tcp_csum_unfold [OF tot ihl doff fits(1) n hd] ph hdr dat data(1) [OF False] bind.bind_lunit) simp
  qed
qed

lemma tcp_csum_spec:
  assumes tot: "ip_tot_len b ip = Some t" and ihl: "ip_ihl b ip = Some ihl"
    and doff: "tcp_doff b tcp = Some doff" and fits: "ip + 20 \<le> length b" "tcp + n \<le> length b"
    and n: "n = unat (ntohs t) - 4 * ihl" and hd: "4 * ihl + 4 * doff \<le> unat (ntohs t)"
    and data: "n \<noteq> 4 * doff \<Longrightarrow> data = Some (tcp + 4 * doff)"
  shows "tcp_csum b ip tcp data = Some (NOT (of_nat (oc16 (tcp_segment_sum b ip tcp n))))"
proof -
  have d_le: "4 * doff \<le> n" using n hd by auto
  have "take n (drop tcp b) = take (4 * doff) (drop tcp b) @ take (n - 4 * doff) (drop (tcp + 4 * doff) b)"
    using take_add [of "4 * doff" "n - 4 * doff" "drop tcp b"] d_le by (simp add: add.commute)
  then have seg: "sum16 (take n (drop tcp b))
      = sum16 (take (4 * doff) (drop tcp b)) + sum16 (take (n - 4 * doff) (drop (tcp + 4 * doff) b))"
    using fits d_le by (simp add: sum16_append)
  have "tcp + 4 * doff \<le> length b" using fits d_le by simp
  from tcp_csum_at [OF tot ihl doff fits(1) this n hd data] show ?thesis
    using fits(2) d_le by (simp add: tcp_segment_sum_def seg add.assoc)
qed

text \<open>
  When \<^verbatim>\<open>tcp_csum\<close> is defined on any bytes: the header of at most 60 bytes and the data that the length fields
  state lie in the buffer. The fields need not be consistent.
\<close>

lemma summing_neg [simp]: "bytes \<le> 0 \<Longrightarrow> summing b i bytes s = Some (ucast (summing_fold s))"
  by (simp add: summing_def summing_pairs.simps)

lemma ip_csum_defined:
  assumes "p + 60 \<le> length b"
  shows "\<exists>c. ip_csum b p = Some c"
proof -
  have "unat (b ! p) mod 16 < 16" by simp
  then have "\<exists>c. summing b p (int (unat (b ! p) mod 16 * 4)) 0 = Some c"
    using assms by (subst summing_defined) linarith
  then show ?thesis
    using assms by (auto simp: ip_csum_def ip_ihl_Some)
qed

lemma tcp_csum_defined:
  assumes t: "ip_tot_len b ip = Some t" and i: "ip_ihl b ip = Some ihl" and d: "tcp_doff b p = Some doff"
    and len: "ip + 20 \<le> length b" "p + 4 * doff \<le> length b"
    and dat: "4 * ihl + 4 * doff < unat (ntohs t) \<Longrightarrow> q + (unat (ntohs t) - 4 * ihl - 4 * doff) \<le> length b"
  shows "\<exists>c. tcp_csum b ip p (Some q) = Some c"
proof -
  obtain T where T: "T = unat (ntohs t)" and u: "uint (ntohs t) = int T" by simp
  let ?n = "int T - int (ihl * 4) - int (doff * 4)"
  let ?a = "take 4 (drop (ip + 12) b)" and ?d = "take 4 (drop (ip + 16) b)"
  have dn: "\<exists>c. summing b q ?n s = Some c" if "0 < ?n" for s
  proof -
    have n: "?n = int (T - 4 * ihl - 4 * doff)" and "4 * ihl + 4 * doff < T"
      using that by linarith+
    then show ?thesis using dat unfolding n T [symmetric] by (subst summing_defined) simp
  qed
  have hd: "\<exists>c. summing b p (int (doff * 4)) s = Some c" for s
    using len(2) by (subst summing_defined) (simp add: mult.commute)
  have ph: "\<exists>c. summing (?a @ ?d @ [0, v, w, x]) 0 12 0 = Some c" for v w x
    using summing_defined [of "?a @ ?d @ [0, v, w, x]" 0 12 0] len(1) by simp
  have ad: "length ?a = 4" "length ?d = 4" "ip + 12 + 4 \<le> length b" "ip + 16 + 4 \<le> length b"
    using len(1) by auto
  obtain c1 where c1: "summing (?a @ ?d @ [0, IPPROTO_TCP, octet 0 (htons (of_int (int (doff * 4) + ?n))),
      octet 1 (htons (of_int (int (doff * 4) + ?n)))]) 0 12 0 = Some c1"
    using ph by blast
  obtain c2 where c2: "summing b p (int (doff * 4)) (ucast c1) = Some c2"
    using hd by blast
  show ?thesis
    using dn [of "ucast c2"]
    unfolding tcp_csum_def t i d bind.bind_lunit Let_def u
    by (simp only: pseudo_header_steps [OF ad(1,3) refl ad(2,4) refl] c1 c2 bind.bind_lunit) auto
qed

end
