(* ===== verification/Protocol_Headers.thy ===== *)
theory Protocol_Headers
  imports Checksum
begin

text \<open>
  The header routines of \<^verbatim>\<open>src/src/lib/protocol_headers.c\<close>: validation of an IP/TCP packet, the
  rewriting of its source or destination address and port with fresh checksums, and the
  conversion of a packet into a TCP reset. The rewriting of the two directions shares one
  contract, the locale \<open>header_rewrite\<close>, which is interpreted on the source and on the
  destination functions.
\<close>

section \<open>The routines\<close>

text \<open>\<open>VALID_IP_TCP ip tcp\<close> carries the two header pointers the C function stores.\<close>

datatype ip_tcp = INVALID_IP_TCP | VALID_IP_TCP nat nat

text \<open>
  \<^verbatim>\<open>sizeof\<close> has the unsigned 64 bit type \<^verbatim>\<open>size_t\<close>, so the first and the third comparison
  convert \<^verbatim>\<open>buffer_size\<close> to it; the others are comparisons of \<^verbatim>\<open>int\<close>.
\<close>

definition validate_ip_tcp :: "buf \<Rightarrow> int \<Rightarrow> ip_tcp option" where
  "validate_ip_tcp b buffer_size =
     (if (of_nat (sizeof_iphdr + sizeof_tcphdr) :: 64 word) > of_int buffer_size
      then Some INVALID_IP_TCP
      else do {
        protocol \<leftarrow> ip_protocol b 0;
        if protocol \<noteq> IPPROTO_TCP then Some INVALID_IP_TCP
        else do {
          ihl \<leftarrow> ip_ihl b 0;
          let ip_header_len = ihl * 4;
          if (of_nat ip_header_len + of_nat sizeof_tcphdr :: 64 word) > of_int buffer_size
          then Some INVALID_IP_TCP
          else do {
            tot_len \<leftarrow> ip_tot_len b 0;
            if uint (ntohs tot_len) > buffer_size then Some INVALID_IP_TCP
            else do {
              doff \<leftarrow> tcp_doff b ip_header_len;
              if uint (ntohs tot_len) < int (ip_header_len + doff * 4) then Some INVALID_IP_TCP
              else Some (VALID_IP_TCP 0 ip_header_len) } } } })"

definition replace_src_port :: "buf \<Rightarrow> u16 \<Rightarrow> buf option" where
  "replace_src_port b port = do {
     ihl \<leftarrow> ip_ihl b 0;
     let tcp_header = ihl * 4;
     doff \<leftarrow> tcp_doff b tcp_header;
     let tcp_data = tcp_header + doff * 4;
     b \<leftarrow> set_tcp_source b tcp_header (htons port);
     b \<leftarrow> set_tcp_check b tcp_header 0;
     c \<leftarrow> tcp_csum b 0 tcp_header (Some tcp_data);
     set_tcp_check b tcp_header (htons c) }"

definition replace_src_ip :: "buf \<Rightarrow> u32 \<Rightarrow> buf option" where
  "replace_src_ip b src_ip = do {
     b \<leftarrow> set_ip_check b 0 0;
     b \<leftarrow> set_ip_saddr b 0 (htonl src_ip);
     c \<leftarrow> ip_csum b 0;
     set_ip_check b 0 (htons c) }"

definition replace_src_ip_port :: "buf \<Rightarrow> u32 \<Rightarrow> u16 \<Rightarrow> buf option" where
  "replace_src_ip_port b ip port = do { b \<leftarrow> replace_src_ip b ip; replace_src_port b port }"

definition replace_dst_port :: "buf \<Rightarrow> u16 \<Rightarrow> buf option" where
  "replace_dst_port b port = do {
     ihl \<leftarrow> ip_ihl b 0;
     let tcp_header = ihl * 4;
     doff \<leftarrow> tcp_doff b tcp_header;
     let tcp_data = tcp_header + doff * 4;
     b \<leftarrow> set_tcp_dest b tcp_header (htons port);
     b \<leftarrow> set_tcp_check b tcp_header 0;
     c \<leftarrow> tcp_csum b 0 tcp_header (Some tcp_data);
     set_tcp_check b tcp_header (htons c) }"

definition replace_dst_ip :: "buf \<Rightarrow> u32 \<Rightarrow> buf option" where
  "replace_dst_ip b src_ip = do {
     b \<leftarrow> set_ip_check b 0 0;
     b \<leftarrow> set_ip_daddr b 0 (htonl src_ip);
     c \<leftarrow> ip_csum b 0;
     set_ip_check b 0 (htons c) }"

definition replace_dst_ip_port :: "buf \<Rightarrow> u32 \<Rightarrow> u16 \<Rightarrow> buf option" where
  "replace_dst_ip_port b ip port = do { b \<leftarrow> replace_dst_ip b ip; replace_dst_port b port }"

text \<open>The eight assignments to the flag bits, in the order of the source.\<close>

definition set_rst_flags :: "buf \<Rightarrow> nat \<Rightarrow> buf option" where
  "set_rst_flags b p = do {
     b \<leftarrow> set_tcp_flag 0 b p False;
     b \<leftarrow> set_tcp_flag 1 b p False;
     b \<leftarrow> set_tcp_flag 2 b p True;
     b \<leftarrow> set_tcp_flag 3 b p False;
     b \<leftarrow> set_tcp_flag 4 b p True;
     b \<leftarrow> set_tcp_flag 5 b p False;
     b \<leftarrow> set_tcp_flag 6 b p False;
     set_tcp_flag 7 b p False }"

definition fillin_reset_ip :: "buf \<Rightarrow> buf option" where
  "fillin_reset_ip b = do {
     b \<leftarrow> set_ip_ihl b 0 (sizeof_iphdr div 4);
     b \<leftarrow> set_ip_tot_len b 0 (htons (of_nat (sizeof_iphdr + sizeof_tcphdr)));
     id \<leftarrow> ip_id b 0;
     b \<leftarrow> set_ip_id b 0 (id + 1);
     b \<leftarrow> set_ip_frag_off b 0 0;
     b \<leftarrow> set_ip_ttl b 0 60;
     b \<leftarrow> set_ip_check b 0 0;
     temp32 \<leftarrow> ip_saddr b 0;
     daddr \<leftarrow> ip_daddr b 0;
     b \<leftarrow> set_ip_saddr b 0 daddr;
     b \<leftarrow> set_ip_daddr b 0 temp32;
     c \<leftarrow> ip_csum b 0;
     set_ip_check b 0 (htons c) }"

definition fillin_reset_tcp :: "buf \<Rightarrow> buf option" where
  "fillin_reset_tcp b = do {
     ihl \<leftarrow> ip_ihl b 0;
     let tcp_header = ihl * 4;
     temp16 \<leftarrow> tcp_source b tcp_header;
     dest \<leftarrow> tcp_dest b tcp_header;
     b \<leftarrow> set_tcp_source b tcp_header dest;
     b \<leftarrow> set_tcp_dest b tcp_header temp16;
     temp32 \<leftarrow> tcp_seq b tcp_header;
     ack_seq \<leftarrow> tcp_ack_seq b tcp_header;
     b \<leftarrow> set_tcp_seq b tcp_header ack_seq;
     b \<leftarrow> set_tcp_ack_seq b tcp_header (htonl (ntohl temp32 + 1));
     b \<leftarrow> set_tcp_doff b tcp_header (sizeof_tcphdr div 4);
     b \<leftarrow> set_rst_flags b tcp_header;
     b \<leftarrow> set_tcp_check b tcp_header 0;
     c \<leftarrow> tcp_csum b 0 tcp_header None;
     set_tcp_check b tcp_header (htons c) }"

text \<open>The result is the returned length and the buffer.\<close>

definition fillin_reset :: "buf \<Rightarrow> (int \<times> buf) option" where
  "fillin_reset b = do {
     b \<leftarrow> fillin_reset_ip b;
     b \<leftarrow> fillin_reset_tcp b;
     tot_len \<leftarrow> ip_tot_len b 0;
     Some (uint (ntohs tot_len), b) }"

text \<open>Offsets stay numerals: \<open>p + 2\<close> is not rewritten to successors.\<close>

declare add_2_eq_Suc [simp del] add_2_eq_Suc' [simp del]

section \<open>Packets\<close>

text \<open>
  A packet with \<open>ihl\<close> and \<open>doff\<close> 32 bit words of IP and TCP header and \<open>tot\<close> bytes in all, held
  at the start of a buffer that may be longer.
\<close>

definition ip_tcp_packet :: "buf \<Rightarrow> nat \<Rightarrow> nat \<Rightarrow> nat \<Rightarrow> bool" where
  "ip_tcp_packet b ihl doff tot \<longleftrightarrow>
     5 \<le> ihl \<and> 5 \<le> doff \<and> 4 * ihl + 4 * doff \<le> tot \<and> tot \<le> length b \<and>
     ip_ihl b 0 = Some ihl \<and> tcp_doff b (4 * ihl) = Some doff \<and>
     map_option (\<lambda>t. unat (ntohs t)) (ip_tot_len b 0) = Some tot"

text \<open>What a receiver checks.\<close>

definition ip_checksum_ok :: "buf \<Rightarrow> nat \<Rightarrow> bool" where
  "ip_checksum_ok b ihl \<longleftrightarrow> oc16 (ip_header_sum b 0 (4 * ihl)) = 65535"

definition tcp_checksum_ok :: "buf \<Rightarrow> nat \<Rightarrow> nat \<Rightarrow> bool" where
  "tcp_checksum_ok b ihl tot \<longleftrightarrow> oc16 (tcp_segment_sum b 0 (4 * ihl) (tot - 4 * ihl)) = 65535"

section \<open>Patching a checksum\<close>

lemma unat_octets: "256 * unat (octet 1 c) + unat (octet 0 c) = unat (c :: u16)"
  using unat_u16_bound [of c] mult_div_mod_eq [of 256 "unat c"] by (simp add: unat_octet)

lemma sum16_patch:
  assumes "even k" and "k + 1 < n" and "p + n \<le> length b"
    and "b ! (p + k) = 0" and "b ! (p + k + 1) = 0"
  shows "sum16 (take n (drop p (b[p + k := octet 1 c, p + k + 1 := octet 0 (c :: u16)])))
    = sum16 (take n (drop p b)) + unat c"
proof -
  have "take n (drop p (b[p + k := octet 1 c, p + k + 1 := octet 0 c]))
      = (take n (drop p b))[k := octet 1 c, k + 1 := octet 0 c]"
    using assms(2) by (simp add: update_take_drop)
  then show ?thesis
    using sum16_put [of k "take n (drop p b)" "octet 1 c" "octet 0 c"] assms unat_octets [of c]
    by simp
qed

lemma oc16_NOT: "oc16 (n + unat (NOT (of_nat (oc16 n)) :: u16)) = 65535"
  by (simp only: unat_NOT_u16 unat_of_nat_oc16 oc16_complement)

section \<open>Shape of a packet\<close>

lemma packet_bytes:
  "ip_tcp_packet b ihl doff tot \<longleftrightarrow>
     5 \<le> ihl \<and> 5 \<le> doff \<and> 4 * ihl + 4 * doff \<le> tot \<and> tot \<le> length b \<and>
     unat (b ! 0) mod 16 = ihl \<and> unat (b ! (4 * ihl + 12)) div 16 = doff \<and>
     unat (le16 (b ! 3) (b ! 2)) = tot"
proof (cases "40 \<le> length b \<and> 4 * ihl + 12 < length b")
  case True
  then have "0 < length b" by linarith
  then have "ip_ihl b 0 = Some (unat (b ! 0) mod 16)"
    by (rule ip_ihl_Some)
  moreover have "tcp_doff b (4 * ihl) = Some (unat (b ! (4 * ihl + 12)) div 16)"
    and "ip_tot_len b 0 = Some (le16 (b ! 2) (b ! 3))"
    using True tcp_doff_Some [of "4 * ihl" b] ld16_Some [of 2 b] by (simp_all add: numeral_3_eq_3)
  ultimately show ?thesis unfolding ip_tcp_packet_def by auto
qed (auto simp: ip_tcp_packet_def)

lemma packet_cong:
  assumes "ip_tcp_packet b ihl doff tot" and "length b' = length b"
    and "b' ! 0 = b ! 0" "b' ! 2 = b ! 2" "b' ! 3 = b ! 3" "b' ! (4 * ihl + 12) = b ! (4 * ihl + 12)"
  shows "ip_tcp_packet b' ihl doff tot"
  using assms by (simp add: packet_bytes)

lemma packet_lengths:
  assumes "ip_tcp_packet b ihl doff tot"
  shows "20 \<le> 4 * ihl" "4 * ihl + 20 \<le> tot" "40 \<le> tot" "tot \<le> length b" "40 \<le> length b"
    "4 * ihl + 4 * doff \<le> tot" "4 * ihl + (tot - 4 * ihl) = tot"
  using assms by (auto simp: ip_tcp_packet_def)

lemma packet_tcp_csum:
  assumes "ip_tcp_packet b ihl doff tot"
  shows "tcp_csum b 0 (4 * ihl) (Some (4 * ihl + 4 * doff))
    = Some (NOT (of_nat (oc16 (tcp_segment_sum b 0 (4 * ihl) (tot - 4 * ihl)))))"
proof -
  obtain t where t: "ip_tot_len b 0 = Some t" "unat (ntohs t) = tot"
    using assms by (auto simp: ip_tcp_packet_def)
  show ?thesis
    using assms packet_lengths [OF assms]
    by (intro tcp_csum_spec [OF t(1)]) (auto simp: ip_tcp_packet_def t(2))
qed

section \<open>The contract of a rewrite\<close>

text \<open>
  A rewrite of one end point: \<open>ipo\<close> is the offset of the address in the IP header and \<open>po\<close> that of
  the port in the TCP header. The assumptions are the code of the two functions; the conclusions
  hold for whichever end point they write.
\<close>

locale header_rewrite =
  fixes rep_ip :: "buf \<Rightarrow> u32 \<Rightarrow> buf option"
    and rep_port :: "buf \<Rightarrow> u16 \<Rightarrow> buf option"
    and rep :: "buf \<Rightarrow> u32 \<Rightarrow> u16 \<Rightarrow> buf option"
    and ipo po :: nat
  assumes rep_ip_eq: "rep_ip b ip = do {
      b \<leftarrow> st16 b 10 0; b \<leftarrow> st32 b ipo (htonl ip); c \<leftarrow> ip_csum b 0; st16 b 10 (htons c) }"
    and rep_port_eq: "rep_port b port = do {
      ihl \<leftarrow> ip_ihl b 0; doff \<leftarrow> tcp_doff b (4 * ihl);
      b \<leftarrow> st16 b (4 * ihl + po) (htons port); b \<leftarrow> st16 b (4 * ihl + 16) 0;
      c \<leftarrow> tcp_csum b 0 (4 * ihl) (Some (4 * ihl + 4 * doff)); st16 b (4 * ihl + 16) (htons c) }"
    and rep_eq: "rep b ip port = do { b \<leftarrow> rep_ip b ip; rep_port b port }"
    and ipo: "ipo = 12 \<or> ipo = 16"
    and po: "po = 0 \<or> po = 2"
begin

lemma rep_ip_correct:
  assumes pkt: "ip_tcp_packet b ihl doff tot"
  obtains b' where "rep_ip b ip = Some b'" and "length b' = length b"
    and "\<And>i. i \<noteq> 10 \<Longrightarrow> i \<noteq> 11 \<Longrightarrow> i < ipo \<or> ipo + 4 \<le> i \<Longrightarrow> b' ! i = b ! i"
    and "ld32 b' ipo = Some (htonl ip)" and "ip_checksum_ok b' ihl"
proof -
  note len = packet_lengths [OF pkt]
  let ?b = "b[10 := 0, 11 := 0, ipo := octet 0 (htonl ip), ipo + 1 := octet 1 (htonl ip),
    ipo + 2 := octet 2 (htonl ip), ipo + 3 := octet 3 (htonl ip)]"
  let ?c = "NOT (of_nat (oc16 (ip_header_sum ?b 0 (4 * ihl)))) :: u16"
  let ?b' = "?b[10 := octet 1 ?c, 11 := octet 0 ?c]"
  have zero: "?b ! 10 = 0" "?b ! 11 = 0" "?b ! 0 = b ! 0"
    using ipo len by (auto simp: nth_list_update)
  have "0 < length ?b" using len by (simp only: length_list_update)
  then have "ip_ihl ?b 0 = Some ihl"
    using pkt ip_ihl_Some [of 0 ?b] by (simp only: zero packet_bytes)
  then have csum: "ip_csum ?b 0 = Some ?c"
    using len by (intro ip_csum_spec) auto
  have st: "st16 b 10 0 = Some (b[10 := 0, 11 := 0])"
    "st32 (b[10 := 0, 11 := 0]) ipo (htonl ip) = Some ?b" "st16 ?b 10 (htons ?c) = Some ?b'"
    using ipo len by (auto simp: st16_Some st32_Some)
  have run: "rep_ip b ip = Some ?b'"
    by (simp only: rep_ip_eq st csum bind.bind_lunit)
  have sum: "ip_header_sum ?b' 0 (4 * ihl) = ip_header_sum ?b 0 (4 * ihl) + unat ?c"
    using sum16_patch [of 10 "4 * ihl" 0 ?b ?c] len zero by (simp add: ip_header_sum_def)
  show thesis
  proof (rule that [OF run])
    show "ip_checksum_ok ?b' ihl"
      unfolding ip_checksum_ok_def sum by (rule oc16_NOT)
    show "ld32 ?b' ipo = Some (htonl ip)"
      using ipo len by (auto simp: ld32_Some simp del: octet_htonl)
  qed (use ipo in \<open>auto simp: nth_list_update\<close>)
qed

lemma rep_port_correct:
  assumes pkt: "ip_tcp_packet b ihl doff tot"
  obtains b' where "rep_port b port = Some b'" and "length b' = length b"
    and "\<And>i. i < 4 * ihl + po \<or> 4 * ihl + po + 2 \<le> i \<Longrightarrow> i < 4 * ihl + 16 \<or> 4 * ihl + 18 \<le> i \<Longrightarrow> b' ! i = b ! i"
    and "ld16 b' (4 * ihl + po) = Some (htons port)" and "tcp_checksum_ok b' ihl tot"
proof -
  note len = packet_lengths [OF pkt]
  let ?t = "4 * ihl" and ?n = "tot - 4 * ihl"
  let ?b = "b[?t + po := octet 0 (htons port), ?t + po + 1 := octet 1 (htons port), ?t + 16 := 0, ?t + 16 + 1 := 0]"
  let ?c = "NOT (of_nat (oc16 (tcp_segment_sum ?b 0 ?t ?n))) :: u16"
  let ?b' = "?b[?t + 16 := octet 1 ?c, ?t + 16 + 1 := octet 0 ?c]"
  have pkt': "ip_tcp_packet ?b ihl doff tot"
    using po len by (intro packet_cong [OF pkt]) (auto simp: nth_list_update)
  have st: "st16 b (?t + po) (htons port) = Some (b[?t + po := octet 0 (htons port), ?t + po + 1 := octet 1 (htons port)])"
    "st16 (b[?t + po := octet 0 (htons port), ?t + po + 1 := octet 1 (htons port)]) (?t + 16) 0 = Some ?b"
    "st16 ?b (?t + 16) (htons ?c) = Some ?b'"
    using po len by (auto simp: st16_Some)
  have hdr: "ip_ihl b 0 = Some ihl" "tcp_doff b ?t = Some doff"
    using pkt by (simp_all add: ip_tcp_packet_def)
  have run: "rep_port b port = Some ?b'"
    by (simp only: rep_port_eq hdr st packet_tcp_csum [OF pkt'] bind.bind_lunit)
  have "sum16 (take ?n (drop ?t ?b')) = sum16 (take ?n (drop ?t ?b)) + unat ?c"
    using sum16_patch [of 16 ?n ?t ?b ?c] len by simp
  moreover have "take 8 (drop 12 ?b') = take 8 (drop 12 ?b)"
    using len by (intro take_drop_nth_eq) auto
  ultimately have sum: "tcp_segment_sum ?b' 0 ?t ?n = tcp_segment_sum ?b 0 ?t ?n + unat ?c"
    by (simp add: tcp_segment_sum_def)
  show thesis
  proof (rule that [OF run])
    show "tcp_checksum_ok ?b' ihl tot"
      unfolding tcp_checksum_ok_def sum by (rule oc16_NOT)
    show "ld16 ?b' (?t + po) = Some (htons port)"
      using po len by (auto simp: ld16_Some simp del: octet_htons)
  qed (use po in \<open>auto simp: nth_list_update\<close>)
qed

lemma rep_correct:
  assumes pkt: "ip_tcp_packet b ihl doff tot"
  shows "\<exists>b'. rep b ip port = Some b' \<and> length b' = length b \<and> ip_tcp_packet b' ihl doff tot \<and>
    ld32 b' ipo = Some (htonl ip) \<and> ld16 b' (4 * ihl + po) = Some (htons port) \<and>
    ip_checksum_ok b' ihl \<and> tcp_checksum_ok b' ihl tot \<and>
    (\<forall>i. i \<in> {10, 11} \<or> i \<in> {ipo ..< ipo + 4} \<or> i \<in> {4 * ihl + po, 4 * ihl + po + 1}
         \<or> i \<in> {4 * ihl + 16, 4 * ihl + 17} \<or> b' ! i = b ! i)"
proof -
  note len = packet_lengths [OF pkt]
  obtain b1 where b1: "rep_ip b ip = Some b1" "length b1 = length b"
    and fr1: "\<And>i. i \<noteq> 10 \<Longrightarrow> i \<noteq> 11 \<Longrightarrow> i < ipo \<or> ipo + 4 \<le> i \<Longrightarrow> b1 ! i = b ! i"
    and ip1: "ld32 b1 ipo = Some (htonl ip)" "ip_checksum_ok b1 ihl"
    using rep_ip_correct [OF pkt] by metis
  have pkt1: "ip_tcp_packet b1 ihl doff tot"
    using ipo len by (intro packet_cong [OF pkt]) (auto simp: b1 fr1)
  obtain b2 where b2: "rep_port b1 port = Some b2" "length b2 = length b1"
    and fr2: "\<And>i. i < 4 * ihl + po \<or> 4 * ihl + po + 2 \<le> i \<Longrightarrow> i < 4 * ihl + 16 \<or> 4 * ihl + 18 \<le> i
      \<Longrightarrow> b2 ! i = b1 ! i"
    and port2: "ld16 b2 (4 * ihl + po) = Some (htons port)" "tcp_checksum_ok b2 ihl tot"
    using rep_port_correct [OF pkt1] by metis
  have pkt2: "ip_tcp_packet b2 ihl doff tot"
    using po len by (intro packet_cong [OF pkt1]) (auto simp: b2 fr2)
  have low: "b2 ! i = b1 ! i" if "i < 4 * ihl" for i
    using that by (intro fr2) auto
  have "take (4 * ihl) b2 = take (4 * ihl) b1"
    using take_drop_nth_eq [of b2 b1 0 "4 * ihl"] b2 low by simp
  then have "ip_checksum_ok b2 ihl"
    using ip1(2) by (simp add: ip_checksum_ok_def ip_header_sum_def)
  moreover have "ld32 b2 ipo = Some (htonl ip)"
    using field32.get_local [of b2 b1 ipo] b2(2) low ip1(1) ipo len by auto
  moreover have "\<forall>i. i \<in> {10, 11} \<or> i \<in> {ipo ..< ipo + 4} \<or> i \<in> {4 * ihl + po, 4 * ihl + po + 1}
      \<or> i \<in> {4 * ihl + 16, 4 * ihl + 17} \<or> b2 ! i = b ! i"
  proof (rule allI, rule ccontr)
    fix i
    assume no: "\<not> (i \<in> {10, 11} \<or> i \<in> {ipo ..< ipo + 4} \<or> i \<in> {4 * ihl + po, 4 * ihl + po + 1}
      \<or> i \<in> {4 * ihl + 16, 4 * ihl + 17} \<or> b2 ! i = b ! i)"
    then have "b1 ! i = b ! i" by (intro fr1) auto
    moreover have "b2 ! i = b1 ! i" using no by (intro fr2) auto
    ultimately show False using no by simp
  qed
  ultimately show ?thesis
    using b1 b2 pkt2 port2 by (simp add: rep_eq)
qed

text \<open>
  On any bytes: a buffer that holds the longest headers and the stated length is enough, even when the length fields
  put the two headers on top of each other. The one exception is a port written into the IP header's own length
  field, which happens for the destination port when the IP header is said to be empty.
\<close>

lemma rep_ip_defined:
  assumes "60 \<le> length b"
  obtains b' where "rep_ip b ip = Some b'" and "length b' = length b"
    and "\<And>i. i < 10 \<Longrightarrow> b' ! i = b ! i"
proof -
  let ?b = "b[10 := 0, 11 := 0, ipo := octet 0 (htonl ip), ipo + 1 := octet 1 (htonl ip),
    ipo + 2 := octet 2 (htonl ip), ipo + 3 := octet 3 (htonl ip)]"
  have st: "st16 b 10 0 = Some (b[10 := 0, 11 := 0])"
    "st32 (b[10 := 0, 11 := 0]) ipo (htonl ip) = Some ?b"
    using ipo assms by (auto simp: st16_Some st32_Some)
  obtain c where c: "ip_csum ?b 0 = Some c"
    using ip_csum_defined [of 0 ?b] assms by auto
  have "st16 ?b 10 (htons c) = Some (?b[10 := octet 1 c, 11 := octet 0 c])"
    using assms by (simp add: st16_Some)
  then have "rep_ip b ip = Some (?b[10 := octet 1 c, 11 := octet 0 c])"
    by (simp only: rep_ip_eq st c bind.bind_lunit)
  then show thesis
    by (rule that) (use ipo in \<open>auto simp: nth_list_update\<close>)
qed

lemma rep_port_defined:
  assumes len: "120 \<le> length b" and tot: "unat (le16 (b ! 3) (b ! 2)) \<le> length b"
    and ihl: "po = 0 \<or> unat (b ! 0) mod 16 \<noteq> 0"
  shows "\<exists>b'. rep_port b port = Some b' \<and> length b' = length b"
proof -
  let ?i = "unat (b ! 0) mod 16"
  let ?t = "4 * ?i"
  let ?d = "unat (b ! (?t + 12)) div 16"
  let ?b = "b[?t + po := octet 0 (htons port), ?t + po + 1 := octet 1 (htons port), ?t + 16 := 0, ?t + 16 + 1 := 0]"
  have "?i < 16" "?d < 16" using unat_u8_bound [of "b ! (?t + 12)"] by (auto simp: div_less_iff_less_mult)
  then have bnd: "?t \<le> 60" "?t + 4 * ?d \<le> length b" using len by linarith+
  have hdr: "ip_ihl b 0 = Some ?i" "tcp_doff b ?t = Some ?d"
    using len bnd by (auto intro!: ip_ihl_Some tcp_doff_Some simp del: length_greater_0_conv)
  have st: "st16 b (?t + po) (htons port) = Some (b[?t + po := octet 0 (htons port), ?t + po + 1 := octet 1 (htons port)])"
    "st16 (b[?t + po := octet 0 (htons port), ?t + po + 1 := octet 1 (htons port)]) (?t + 16) 0 = Some ?b"
    using po len bnd by (auto simp: st16_Some)
  have same: "?b ! 2 = b ! 2" "?b ! 3 = b ! 3" "?b ! (?t + 12) = b ! (?t + 12)"
  proof -
    have "4 * k \<noteq> 2" "4 * k \<noteq> 3" "Suc (4 * k) \<noteq> 2" "Suc (4 * k) \<noteq> 3" for k :: nat by presburger+
    then show "?b ! 2 = b ! 2" "?b ! 3 = b ! 3" "?b ! (?t + 12) = b ! (?t + 12)"
      using po ihl by (auto simp: nth_list_update)
  qed
  have l': "ip_tot_len ?b 0 = Some (le16 (b ! 2) (b ! 3))" "ip_ihl ?b 0 = Some (unat (?b ! 0) mod 16)"
    "tcp_doff ?b ?t = Some ?d"
    using len bnd same ld16_Some [of 2 ?b] ip_ihl_Some [of 0 ?b] tcp_doff_Some [of ?t ?b]
    by (simp_all add: numeral_3_eq_3 del: length_greater_0_conv)
  have low: "?i = 0 \<or> unat (?b ! 0) mod 16 = ?i" by (cases "?i = 0") auto
  have data: "?t + 4 * ?d + (unat (ntohs (le16 (b ! 2) (b ! 3))) - 4 * (unat (?b ! 0) mod 16) - 4 * ?d) \<le> length ?b"
    if "4 * (unat (?b ! 0) mod 16) + 4 * ?d < unat (ntohs (le16 (b ! 2) (b ! 3)))"
    using low that tot unfolding ntohs_le16 length_list_update by linarith
  have "0 + 20 \<le> length ?b" "?t + 4 * ?d \<le> length ?b" using len bnd by simp_all
  then obtain c where c: "tcp_csum ?b 0 ?t (Some (?t + 4 * ?d)) = Some c"
    using tcp_csum_defined [OF l' _ _ data] by blast
  have "st16 ?b (?t + 16) (htons c) = Some (?b[?t + 16 := octet 1 c, ?t + 16 + 1 := octet 0 c])"
    using len bnd by (simp add: st16_Some)
  then have "rep_port b port = Some (?b[?t + 16 := octet 1 c, ?t + 16 + 1 := octet 0 c])"
    by (simp only: rep_port_eq hdr st c bind.bind_lunit)
  then show ?thesis by simp
qed

lemma rep_defined:
  assumes "120 \<le> length b" and "unat (le16 (b ! 3) (b ! 2)) \<le> length b"
    and "po = 0 \<or> unat (b ! 0) mod 16 \<noteq> 0"
  shows "\<exists>b'. rep b ip port = Some b' \<and> length b' = length b"
proof -
  have "60 \<le> length b" using assms(1) by simp
  then obtain b1 where b1: "rep_ip b ip = Some b1" "length b1 = length b" "\<And>i. i < 10 \<Longrightarrow> b1 ! i = b ! i"
    using rep_ip_defined by blast
  then show ?thesis
    using rep_port_defined [of b1 port] assms by (simp add: rep_eq)
qed

end

lemma replace_ip_code:
  "replace_src_ip b ip = do {
      b \<leftarrow> st16 b 10 0; b \<leftarrow> st32 b 12 (htonl ip); c \<leftarrow> ip_csum b 0; st16 b 10 (htons c) }"
  "replace_dst_ip b ip = do {
      b \<leftarrow> st16 b 10 0; b \<leftarrow> st32 b 16 (htonl ip); c \<leftarrow> ip_csum b 0; st16 b 10 (htons c) }"
  by (simp_all add: replace_src_ip_def replace_dst_ip_def)

interpretation src: header_rewrite replace_src_ip replace_src_port replace_src_ip_port 12 0
  by unfold_locales
    (simp_all add: replace_ip_code replace_src_port_def replace_src_ip_port_def mult.commute Let_def)

interpretation dst: header_rewrite replace_dst_ip replace_dst_port replace_dst_ip_port 16 2
  by unfold_locales
    (simp_all add: replace_ip_code replace_dst_port_def replace_dst_ip_port_def mult.commute Let_def)

section \<open>Validation\<close>

text \<open>\<^verbatim>\<open>int\<close> values against \<^verbatim>\<open>size_t\<close> values.\<close>

lemma size_t_less:
  assumes "0 \<le> n" and "n < 2 ^ 31" and "m < 1000"
  shows "(of_int n < (of_nat m :: 64 word)) = (n < int m)"
proof -
  have "uint (of_int n :: 64 word) = n"
    using assms(1,2) by (simp add: uint_word_of_int_eq take_bit_int_eq_self_iff)
  moreover have "uint (of_nat m :: 64 word) = int m"
    using assms(3) by (simp add: uint_nat unat_of_nat)
  ultimately show ?thesis by (simp only: word_less_def)
qed

lemma validate_ip_tcp_spec:
  assumes "0 \<le> n" and "n < 2 ^ 31" and "n \<le> int (length b)"
  shows "validate_ip_tcp b n = Some (
    let ihl = unat (b ! 0) mod 16; tot = unat (le16 (b ! 3) (b ! 2));
        doff = unat (b ! (4 * ihl + 12)) div 16
    in if 40 \<le> n \<and> b ! 9 = IPPROTO_TCP \<and> int (4 * ihl + 20) \<le> n \<and> int tot \<le> n \<and> 4 * ihl + 4 * doff \<le> tot
       then VALID_IP_TCP 0 (4 * ihl) else INVALID_IP_TCP)"
proof -
  let ?ihl = "unat (b ! 0) mod 16"
  have s40: "(of_int n < (of_nat (sizeof_iphdr + sizeof_tcphdr) :: 64 word)) = (n < 40)"
    using size_t_less [OF assms(1,2), of "sizeof_iphdr + sizeof_tcphdr"] by (simp only: of_nat_numeral) simp
  have "?ihl < 16" by simp
  then have shl: "(of_int n < (of_nat (?ihl * 4) + of_nat sizeof_tcphdr :: 64 word)) = (n < int (4 * ?ihl + 20))"
    using size_t_less [OF assms(1,2), of "?ihl * 4 + 20"] by (simp only: of_nat_add) (simp add: mult.commute)
  show ?thesis
  proof (cases "n < 40")
    case True
    then show ?thesis unfolding validate_ip_tcp_def s40 by (simp add: Let_def)
  next
    case False
    then have len: "40 \<le> length b" "0 < length b" using assms(3) by linarith+
    then have ld: "ld8 b (0 + 9) = Some (b ! 9)" "ip_ihl b 0 = Some ?ihl"
      "ld16 b (0 + 2) = Some (le16 (b ! 2) (b ! 3))"
      using ld16_Some [of 2 b] ip_ihl_Some [of 0 b] by (simp_all add: ld8_def numeral_3_eq_3)
    have doff: "tcp_doff b (?ihl * 4) = Some (unat (b ! (4 * ?ihl + 12)) div 16)"
      if "int (4 * ?ihl + 20) \<le> n"
      using that assms(3) tcp_doff_Some [of "?ihl * 4" b] by (simp add: mult.commute)
    have cmp: "(uint (ntohs (le16 (b ! 2) (b ! 3))) < int (?ihl * 4 + d * 4))
      = (unat (le16 (b ! 3) (b ! 2)) < 4 * ?ihl + 4 * d)" for d
      by (simp only: ntohs_le16 uint_nat of_nat_less_iff mult.commute)
    show ?thesis
      unfolding validate_ip_tcp_def s40 ld bind.bind_lunit Let_def shl cmp
      using False doff by (auto simp: mult.commute not_less)
  qed
qed

lemma validate_packet:
  assumes "validate_ip_tcp b n = Some (VALID_IP_TCP i t)"
    and "0 \<le> n" and "n < 2 ^ 31" and "n \<le> int (length b)"
  obtains ihl doff tot where "i = 0" and "t = 4 * ihl" and "ip_ihl b 0 = Some ihl"
    and "tcp_doff b t = Some doff" and "t + 20 \<le> length b" and "tot \<le> length b"
    and "4 * ihl + 4 * doff \<le> tot" and "5 \<le> ihl \<Longrightarrow> 5 \<le> doff \<Longrightarrow> ip_tcp_packet b ihl doff tot"
proof -
  let ?ihl = "unat (b ! 0) mod 16" and ?tot = "unat (le16 (b ! 3) (b ! 2))"
  let ?doff = "unat (b ! (4 * ?ihl + 12)) div 16"
  have v: "i = 0" "t = 4 * ?ihl" "40 \<le> n" "int (4 * ?ihl + 20) \<le> n" "int ?tot \<le> n"
    "4 * ?ihl + 4 * ?doff \<le> ?tot"
    using assms(1) validate_ip_tcp_spec [OF assms(2-4)] by (auto simp: Let_def split: if_splits)
  have tot: "?tot \<le> length b" using v(5) assms(4) by linarith
  have "0 < length b" using v(3) assms(4) by linarith
  then have "ip_ihl b 0 = Some ?ihl" by (rule ip_ihl_Some)
  moreover have "tcp_doff b t = Some ?doff" using v assms(4) by (simp add: tcp_doff_Some)
  ultimately show thesis
    using v(1,2,4,6) tot assms(4) by (intro that [of ?ihl ?doff ?tot]) (auto simp: packet_bytes)
qed

section \<open>Resets\<close>

lemma reset_nibbles:
  "unat (((x :: u8) AND 240) OR (of_nat (sizeof_iphdr div 4) AND 15)) mod 16 = 5"
  "unat ((x AND 15) OR push_bit 4 (of_nat (sizeof_tcphdr div 4))) div 16 = 5"
proof -
  have "((x AND 240) OR 5) AND 15 = 5"
    by (simp add: bit.conj_disj_distrib2 and.assoc)
  then show "unat ((x AND 240) OR (of_nat (sizeof_iphdr div 4) AND 15)) mod 16 = 5"
    by (simp flip: unat_low_nibble)
  have "drop_bit 4 ((x AND 15) OR 80) = 5"
    by (simp add: drop_bit_or drop_bit_and)
  then have "unat (drop_bit 4 ((x AND 15) OR 80)) = 5"
    by simp
  then show "unat ((x AND 15) OR push_bit 4 (of_nat (sizeof_tcphdr div 4))) div 16 = 5"
    by (simp only: unat_high_nibble) (simp add: push_bit_eq_mult)
qed

lemma set_rst_flags_Some:
  "p + 13 < length b \<Longrightarrow> set_rst_flags b p = Some (b[p + 13 := 20])"
proof -
  assume p: "p + 13 < length b"
  have "unset_bit 7 (unset_bit 6 (unset_bit 5 (set_bit 4 (unset_bit 3 (set_bit 2
      (unset_bit 1 (unset_bit 0 x))))))) = (20 :: u8)" for x
    by (rule bit_word_eqI) (auto simp: bit_simps less_Suc_eq numeral_eq_Suc)
  then show ?thesis
    using p by (simp add: set_rst_flags_def set_tcp_flag_def ld8_def st8_def)
qed

lemma fillin_reset_ip_correct:
  assumes len: "20 \<le> length b"
  obtains b' where "fillin_reset_ip b = Some b'" and "length b' = length b"
    and "\<And>i. 20 \<le> i \<Longrightarrow> b' ! i = b ! i" and "b' ! 9 = b ! 9"
    and "unat (b' ! 0) mod 16 = 5" and "le16 (b' ! 3) (b' ! 2) = 40"
    and "ld32 b' 12 = ld32 b 16" and "ld32 b' 16 = ld32 b 12" and "ip_checksum_ok b' 5"
proof -
  let ?v = "(b ! 0 AND 240) OR (of_nat (sizeof_iphdr div 4) AND 15) :: u8"
  let ?id = "le16 (b ! 4) (b ! 5) + 1"
  let ?b = "b[0 := ?v, 2 := octet 1 (40 :: u16), 3 := octet 0 (40 :: u16), 4 := octet 0 ?id, 5 := octet 1 ?id,
    6 := 0, 7 := 0, 8 := 60, 10 := 0, 11 := 0,
    12 := b ! 16, 13 := b ! 17, 14 := b ! 18, 15 := b ! 19,
    16 := b ! 12, 17 := b ! 13, 18 := b ! 14, 19 := b ! 15]"
  let ?c = "NOT (of_nat (oc16 (ip_header_sum ?b 0 20))) :: u16"
  let ?b' = "?b[10 := octet 1 ?c, 11 := octet 0 ?c]"
  have ne: "b \<noteq> []" using len by auto
  have pos: "0 < length ?b" using len by (simp only: length_list_update)
  have ihl: "ip_ihl ?b 0 = Some 5"
    using ip_ihl_Some [OF pos] reset_nibbles(1) [of "b ! 0"] ne by simp
  have csum: "ip_csum ?b 0 = Some ?c"
    using ip_csum_spec [OF ihl] len by simp
  have run: "fillin_reset_ip b = do { c \<leftarrow> ip_csum ?b 0; st16 ?b 10 (htons c) }"
    using len ne
    by (simp add: fillin_reset_ip_def set_ip_ihl_def ld8_def st8_def ld16_Some st16_Some ld32_Some st32_Some)
  have sum: "ip_header_sum ?b' 0 20 = ip_header_sum ?b 0 20 + unat ?c"
    using sum16_patch [of 10 20 0 ?b ?c] len by (simp add: ip_header_sum_def)
  show thesis
  proof (rule that [of ?b'])
    show "fillin_reset_ip b = Some ?b'"
      unfolding run csum using len by (simp add: st16_Some)
    show "ip_checksum_ok ?b' 5"
      unfolding ip_checksum_ok_def using sum by (simp add: oc16_NOT)
    show "unat (?b' ! 0) mod 16 = 5"
      using reset_nibbles(1) [of "b ! 0"] ne by simp
    show "le16 (?b' ! 3) (?b' ! 2) = 40"
      using len by (simp del: One_nat_def)
  qed (use len in \<open>simp_all add: ld32_Some\<close>)
qed

lemma fillin_reset_tcp_correct:
  assumes len: "40 \<le> length b" and ihl: "unat (b ! 0) mod 16 = 5" and tot: "le16 (b ! 3) (b ! 2) = 40"
  obtains b' where "fillin_reset_tcp b = Some b'" and "length b' = length b"
    and "\<And>i. i < 20 \<or> 40 \<le> i \<Longrightarrow> b' ! i = b ! i"
    and "ld16 b' 20 = ld16 b 22" and "ld16 b' 22 = ld16 b 20" and "ld32 b' 24 = ld32 b 28"
    and "ld32 b' 28 = map_option (\<lambda>s. htonl (ntohl s + 1)) (ld32 b 24)"
    and "b' ! 33 = 20" and "ip_tcp_packet b' 5 5 40" and "tcp_checksum_ok b' 5 40"
proof -
  let ?a = "htonl (ntohl (le32 (b ! 24) (b ! 25) (b ! 26) (b ! 27)) + 1)"
  let ?d = "(b ! 32 AND 15) OR push_bit 4 (of_nat (sizeof_tcphdr div 4)) :: u8"
  let ?b = "b[20 := b ! 22, 21 := b ! 23, 22 := b ! 20, 23 := b ! 21,
    24 := b ! 28, 25 := b ! 29, 26 := b ! 30, 27 := b ! 31,
    28 := octet 0 ?a, 29 := octet 1 ?a, 30 := octet 2 ?a, 31 := octet 3 ?a,
    32 := ?d, 33 := 20, 36 := 0, 37 := 0]"
  let ?c = "NOT (of_nat (oc16 (tcp_segment_sum ?b 0 20 20))) :: u16"
  let ?b' = "?b[36 := octet 1 ?c, 37 := octet 0 ?c]"
  have pos: "0 < length b" using len by linarith
  have pkt: "ip_tcp_packet ?b 5 5 40" "ip_tcp_packet ?b' 5 5 40"
    using len ihl tot reset_nibbles(2) [of "b ! 32"] by (simp_all add: packet_bytes)
  obtain t where t: "ip_tot_len ?b 0 = Some t" "unat (ntohs t) = 40"
    using pkt(1) by (auto simp: ip_tcp_packet_def)
  have csum: "tcp_csum ?b 0 20 None = Some ?c"
    using pkt(1) len by (intro tcp_csum_spec [OF t(1), where ihl = 5 and doff = 5])
      (auto simp: ip_tcp_packet_def t(2))
  have run: "fillin_reset_tcp b = do { c \<leftarrow> tcp_csum ?b 0 20 None; st16 ?b 36 (htons c) }"
    using len ihl ip_ihl_Some [OF pos]
    by (simp add: fillin_reset_tcp_def set_tcp_doff_def ld8_def st8_def ld16_Some st16_Some
        ld32_Some st32_Some set_rst_flags_Some del: octet_htonl)
  have "sum16 (take 20 (drop 20 ?b')) = sum16 (take 20 (drop 20 ?b)) + unat ?c"
    using sum16_patch [of 16 20 20 ?b ?c] len by simp
  moreover have "take 8 (drop 12 ?b') = take 8 (drop 12 ?b)"
    by (intro take_drop_nth_eq) auto
  ultimately have sum: "tcp_segment_sum ?b' 0 20 20 = tcp_segment_sum ?b 0 20 20 + unat ?c"
    by (simp add: tcp_segment_sum_def)
  show thesis
  proof (rule that [of ?b'])
    show "fillin_reset_tcp b = Some ?b'"
      unfolding run csum using len by (simp add: st16_Some)
    show "tcp_checksum_ok ?b' 5 40"
      unfolding tcp_checksum_ok_def using sum by (simp add: oc16_NOT)
    show "ip_tcp_packet ?b' 5 5 40" by (rule pkt(2))
  qed (use len in \<open>auto simp: ld32_Some ld16_Some simp del: octet_htonl\<close>)
qed

text \<open>A sum that returns has read only bytes of the buffer.\<close>

lemma summing_pairs_in_bounds:
  "summing_pairs b i bytes acc = Some r \<Longrightarrow> 1 < bytes \<Longrightarrow> i + nat (bytes - bytes mod 2) \<le> length b"
proof (induction b i bytes acc rule: summing_pairs.induct)
  case (1 b i bytes acc)
  from "1.prems" have ld: "i + 1 < length b"
    by (auto simp: summing_pairs.simps [of b i] ld8_def bind_eq_Some_conv split: if_splits)
  show ?case
  proof (cases "1 < bytes - 2")
    case True
    have "summing_pairs b (i + 2) (bytes - 2) (acc + push_bit 8 (ucast (b ! i)) + ucast (b ! (i + 1))) = Some r"
      using "1.prems" ld by (simp add: summing_pairs.simps [of b i] ld8_def)
    then have "i + 2 + nat (bytes - 2 - (bytes - 2) mod 2) \<le> length b"
      using "1.IH" [of "b ! i" "b ! (i + 1)"] "1.prems"(2) ld True by (simp add: ld8_def)
    moreover have "(bytes - 2) mod 2 = bytes mod 2"
      by presburger
    ultimately show ?thesis using True by auto
  next
    case False
    then have "bytes = 2 \<or> bytes = 3" using "1.prems"(2) by auto
    then show ?thesis using ld by auto
  qed
qed

lemma tcp_csum_in_bounds:
  assumes "tcp_csum b ip t d = Some c" and doff: "tcp_doff b t = Some doff" and "0 < doff"
  shows "t + 4 * doff \<le> length b"
proof -
  obtain acc r where "summing b t (int (doff * 4)) acc = Some r"
    using assms(1) by (auto simp: tcp_csum_def doff bind_eq_Some_conv Let_def)
  then obtain r' where "summing_pairs b t (int (doff * 4)) acc = Some r'"
    by (auto simp: summing_def bind_eq_Some_conv)
  then show ?thesis
    using summing_pairs_in_bounds [of b t "int (doff * 4)" acc r'] \<open>0 < doff\<close>
    by (simp add: mult.commute nat_mult_distrib)
qed

lemmas put_lengths = field8.put_length field16.put_length field32.put_length

lemma fillin_reset_ip_in_bounds:
  assumes "fillin_reset_ip b = Some b'"
  shows "20 \<le> length b"
proof -
  have "ld32 x 16 = Some y \<Longrightarrow> 20 \<le> length x" for x y
    using field32.get_defined [of x 16] by simp
  then show ?thesis
    using assms
    by (fastforce simp: fillin_reset_ip_def set_ip_ihl_def bind_eq_Some_conv dest!: put_lengths)
qed

lemma fillin_reset_tcp_in_bounds:
  assumes "fillin_reset_tcp b = Some b'" and ihl: "ip_ihl b 0 = Some 5"
  shows "40 \<le> length b"
proof -
  obtain b1 b2 b3 b4 c where run: "length b1 = length b" "set_tcp_doff b1 20 5 = Some b2"
    "set_rst_flags b2 20 = Some b3" "st16 b3 36 0 = Some b4" "tcp_csum b4 0 20 None = Some c"
    using assms(1) by (fastforce simp: fillin_reset_tcp_def ihl bind_eq_Some_conv dest: put_lengths)
  then have b2: "32 < length b" "b2 = b1[32 := (b1 ! 32 AND 15) OR push_bit 4 (of_nat 5)]"
    by (auto simp: set_tcp_doff_def ld8_def st8_def split: if_splits)
  have "37 < length b3" "b4 = b3[36 := 0, 37 := 0]"
    using run(4) by (auto simp: st16_def st8_def split: if_splits)
  moreover have "length b3 = length b2"
    using run(3) by (auto simp: set_rst_flags_def set_tcp_flag_def bind_eq_Some_conv dest!: put_lengths)
  ultimately have b4: "b4 = b2[33 := 20, 36 := 0, 37 := 0]" "37 < length b"
    using run(3) set_rst_flags_Some [of 20 b2] b2(2) run(1) by auto
  have "tcp_doff b4 20 = Some 5"
    using b2 b4 run(1) reset_nibbles(2) [of "b1 ! 32"] by (simp add: tcp_doff_Some)
  then show ?thesis
    using tcp_csum_in_bounds [OF run(5)] b2(2) b4 run(1) by simp
qed

lemma fillin_reset_correct:
  assumes len: "40 \<le> length b"
  shows "\<exists>b'. fillin_reset b = Some (40, b') \<and> length b' = length b \<and> ip_tcp_packet b' 5 5 40 \<and>
    ip_checksum_ok b' 5 \<and> tcp_checksum_ok b' 5 40 \<and>
    ld32 b' 12 = ld32 b 16 \<and> ld32 b' 16 = ld32 b 12 \<and> ld16 b' 20 = ld16 b 22 \<and> ld16 b' 22 = ld16 b 20 \<and>
    ld32 b' 24 = ld32 b 28 \<and> ld32 b' 28 = map_option (\<lambda>s. htonl (ntohl s + 1)) (ld32 b 24) \<and>
    b' ! 9 = b ! 9 \<and> b' ! 33 = 20 \<and> (\<forall>i \<ge> 40. b' ! i = b ! i)"
proof -
  have "20 \<le> length b" using len by simp
  then obtain b1 where b1: "fillin_reset_ip b = Some b1" "length b1 = length b"
    "\<And>i. 20 \<le> i \<Longrightarrow> b1 ! i = b ! i" "b1 ! 9 = b ! 9" "unat (b1 ! 0) mod 16 = 5" "le16 (b1 ! 3) (b1 ! 2) = 40"
    "ld32 b1 12 = ld32 b 16" "ld32 b1 16 = ld32 b 12" "ip_checksum_ok b1 5"
    by (rule fillin_reset_ip_correct) blast
  have "40 \<le> length b1" using len b1(2) by simp
  then obtain b2 where b2: "fillin_reset_tcp b1 = Some b2" "length b2 = length b1"
    "\<And>i. i < 20 \<or> 40 \<le> i \<Longrightarrow> b2 ! i = b1 ! i"
    "ld16 b2 20 = ld16 b1 22" "ld16 b2 22 = ld16 b1 20" "ld32 b2 24 = ld32 b1 28"
    "ld32 b2 28 = map_option (\<lambda>s. htonl (ntohl s + 1)) (ld32 b1 24)"
    "b2 ! 33 = 20" "ip_tcp_packet b2 5 5 40" "tcp_checksum_ok b2 5 40"
    by (rule fillin_reset_tcp_correct [OF _ b1(5,6)]) blast
  obtain t where "ip_tot_len b2 0 = Some t" "unat (ntohs t) = 40"
    using b2(9) by (auto simp: ip_tcp_packet_def)
  moreover then have "uint (ntohs t) = 40" by (metis of_nat_numeral uint_nat)
  ultimately have run: "fillin_reset b = Some (40, b2)"
    by (simp add: fillin_reset_def b1(1) b2(1))
  have old: "ld16 b1 k = ld16 b k" "ld32 b1 k = ld32 b k" if "20 \<le> k" "k \<le> 36" for k
    using that len b1(2,3) by (simp_all add: ld16_Some ld32_Some)
  have ip: "ld32 b2 k = ld32 b1 k" if "k \<le> 16" for k
    using that len b1(2) b2(2,3) by (simp add: ld32_Some)
  have "take 20 b2 = take 20 b1"
    using b2(2,3) by (intro nth_equalityI) auto
  then have "ip_checksum_ok b2 5"
    using b1(9) by (simp add: ip_checksum_ok_def ip_header_sum_def)
  then show ?thesis
    using run b1 b2 old ip by auto
qed

lemma fillin_reset_short:
  assumes "length b < 40"
  shows "fillin_reset b = None"
proof (rule ccontr)
  assume "fillin_reset b \<noteq> None"
  then obtain b1 b2 where run: "fillin_reset_ip b = Some b1" "fillin_reset_tcp b1 = Some b2"
    by (auto simp: fillin_reset_def bind_eq_Some_conv)
  have "20 \<le> length b" using fillin_reset_ip_in_bounds [OF run(1)] .
  then obtain b' where "fillin_reset_ip b = Some b'" "length b' = length b" "unat (b' ! 0) mod 16 = 5"
    by (rule fillin_reset_ip_correct) blast
  moreover from this have "0 < length b'" using \<open>20 \<le> length b\<close> by linarith
  ultimately have "length b1 = length b" "ip_ihl b1 0 = Some 5"
    using run(1) by (auto simp: ip_ihl_Some)
  then show False
    using fillin_reset_tcp_in_bounds [OF run(2)] assms by simp
qed

section \<open>Packets in a longer buffer\<close>

text \<open>A packet and the buffer it lies at the start of have the same fields.\<close>

lemma ld16_take: "i + 2 \<le> n \<Longrightarrow> n \<le> length b \<Longrightarrow> ld16 (take n b) i = ld16 b i"
  by (simp add: ld16_Some)

lemma ld32_take: "i + 4 \<le> n \<Longrightarrow> n \<le> length b \<Longrightarrow> ld32 (take n b) i = ld32 b i"
  by (simp add: ld32_Some)

lemma take_drop_take: "i + m \<le> n \<Longrightarrow> take m (drop i (take n b)) = take m (drop i b)"
  by (simp add: drop_take min_def)

lemma packet_take:
  assumes "n \<le> length b" and "tot \<le> n"
  shows "ip_tcp_packet (take n b) ihl doff tot = ip_tcp_packet b ihl doff tot"
proof (cases "4 * ihl + 20 \<le> tot \<and> 40 \<le> tot")
  case True
  then show ?thesis using assms by (auto simp: packet_bytes)
next
  case False
  then show ?thesis using packet_lengths by blast
qed

lemma checksums_take:
  assumes "ip_tcp_packet b ihl doff tot" and "n \<le> length b" and "tot \<le> n"
  shows "ip_checksum_ok (take n b) ihl = ip_checksum_ok b ihl"
    and "tcp_checksum_ok (take n b) ihl tot = tcp_checksum_ok b ihl tot"
proof -
  note len = packet_lengths [OF assms(1)]
  have "take (4 * ihl) (drop 0 (take n b)) = take (4 * ihl) (drop 0 b)"
    using len assms(3) by (intro take_drop_take) simp
  then show "ip_checksum_ok (take n b) ihl = ip_checksum_ok b ihl"
    by (simp only: ip_checksum_ok_def ip_header_sum_def)
  have "take 8 (drop 12 (take n b)) = take 8 (drop 12 b)"
    "take (tot - 4 * ihl) (drop (4 * ihl) (take n b)) = take (tot - 4 * ihl) (drop (4 * ihl) b)"
    using len assms(3) by (intro take_drop_take; linarith)+
  then show "tcp_checksum_ok (take n b) ihl tot = tcp_checksum_ok b ihl tot"
    by (simp add: tcp_checksum_ok_def tcp_segment_sum_def)
qed

text \<open>The rewrite of a packet of which the buffer holds more bytes, seen on the first \<open>n\<close> bytes.\<close>

context header_rewrite
begin

lemma rep_take:
  assumes pkt: "ip_tcp_packet b ihl doff tot" and n: "tot \<le> n" "n \<le> length b" and run: "rep b ip port = Some b'"
  shows "length (take n b') = n \<and> ip_tcp_packet (take n b') ihl doff tot \<and>
    ip_checksum_ok (take n b') ihl \<and> tcp_checksum_ok (take n b') ihl tot \<and>
    ld32 (take n b') ipo = Some (htonl ip) \<and> ld16 (take n b') (4 * ihl + po) = Some (htons port) \<and>
    (\<forall>i. i \<in> {10, 11} \<or> i \<in> {ipo ..< ipo + 4} \<or> i \<in> {4 * ihl + po, 4 * ihl + po + 1}
         \<or> i \<in> {4 * ihl + 16, 4 * ihl + 17} \<or> n \<le> i \<or> take n b' ! i = take n b ! i)"
proof -
  note hl = packet_lengths [OF pkt]
  have f: "length b' = length b" "ip_tcp_packet b' ihl doff tot" "ld32 b' ipo = Some (htonl ip)"
    "ld16 b' (4 * ihl + po) = Some (htons port)" "ip_checksum_ok b' ihl" "tcp_checksum_ok b' ihl tot"
    and same: "i \<in> {10, 11} \<or> i \<in> {ipo ..< ipo + 4} \<or> i \<in> {4 * ihl + po, 4 * ihl + po + 1}
         \<or> i \<in> {4 * ihl + 16, 4 * ihl + 17} \<or> b' ! i = b ! i" for i
    using rep_correct [OF pkt, of ip port] unfolding run by blast+
  have bnd: "ipo + 4 \<le> n" "4 * ihl + po + 2 \<le> n" using ipo po hl n(1) by auto
  have "i \<in> {10, 11} \<or> i \<in> {ipo ..< ipo + 4} \<or> i \<in> {4 * ihl + po, 4 * ihl + po + 1}
         \<or> i \<in> {4 * ihl + 16, 4 * ihl + 17} \<or> n \<le> i \<or> take n b' ! i = take n b ! i" for i
    using same [of i] by (cases "i < n") simp_all
  then show ?thesis
    using f n bnd by (simp add: packet_take checksums_take ld16_take ld32_take)
qed

end

end
