(* ===== verification/Session_List.thy ===== *)
theory Session_List
  imports Prelude
begin

text \<open>
  The session objects and linked lists of \<^verbatim>\<open>src/src/lib/session_struct.[ch]\<close>, on an explicit store.
  Sessions are shared: the two hash arrays of a table point to the same session objects, and the
  packet handlers write through those pointers. So a pointer is an address (NULL is \<open>None\<close>), and the
  heap maps addresses to list nodes and to sessions. The list functions walk the \<^verbatim>\<open>next\<close> pointers as
  the C loops do; an access through NULL or a freed address has no defined behaviour and
  is \<open>None\<close>, and so is a loop that does not end (on a cyclic list).

  The predicate \<open>chain\<close> says which cells a list consists of. The lemmas show that on a chain each
  function ends, touches no memory outside it and does what its list counterpart does:
  append at the end, find the first match, drop the expired sessions, free every cell.
\<close>

section \<open>Store\<close>

type_synonym addr = nat
type_synonym ptr = "addr option"

record tcp_session =
  client_ip :: u32
  client_port :: u16
  server_port :: u16
  client_last_state_seq :: u32
  server_last_state_seq :: u32
  syn_state :: u8
  client_fin_state :: u8
  server_fin_state :: u8
  expire :: int

record session_linked_list =
  session :: ptr
  nxt :: ptr

text \<open>
  \<open>brk\<close> bounds the addresses handed out so far (an address is not reused, so that a
  stale pointer stays detectable), and \<open>times n\<close> is what the \<open>n\<close>-th future call of
  \<^verbatim>\<open>time(NULL)\<close> returns.
\<close>

record heap =
  nodes :: "addr \<Rightarrow> session_linked_list option"
  sessions :: "addr \<Rightarrow> tcp_session option"
  brk :: addr
  times :: "nat \<Rightarrow> int"

definition zero_session :: tcp_session where
  "zero_session = \<lparr>client_ip = 0, client_port = 0, server_port = 0, client_last_state_seq = 0,
     server_last_state_seq = 0, syn_state = 0, client_fin_state = 0, server_fin_state = 0, expire = 0\<rparr>"

text \<open>\<^verbatim>\<open>calloc(1, sizeof(...))\<close> for the two structures, \<^verbatim>\<open>free\<close>, and \<^verbatim>\<open>time(NULL)\<close>.\<close>

definition calloc_node :: "heap \<Rightarrow> addr \<times> heap" where
  "calloc_node h = (brk h, h\<lparr>nodes := (nodes h)(brk h \<mapsto> \<lparr>session = None, nxt = None\<rparr>), brk := Suc (brk h)\<rparr>)"

definition calloc_session :: "heap \<Rightarrow> addr \<times> heap" where
  "calloc_session h = (brk h, h\<lparr>sessions := (sessions h)(brk h \<mapsto> zero_session), brk := Suc (brk h)\<rparr>)"

definition free_node :: "heap \<Rightarrow> addr \<Rightarrow> heap option" where
  "free_node h a = (case nodes h a of None \<Rightarrow> None | Some _ \<Rightarrow> Some (h\<lparr>nodes := (nodes h)(a := None)\<rparr>))"

definition free_session :: "heap \<Rightarrow> ptr \<Rightarrow> heap option" where
  "free_session h p = (case p of None \<Rightarrow> Some h
     | Some a \<Rightarrow> (case sessions h a of None \<Rightarrow> None
         | Some _ \<Rightarrow> Some (h\<lparr>sessions := (sessions h)(a := None)\<rparr>)))"

definition time_NULL :: "heap \<Rightarrow> int" where
  "time_NULL h = times h 0"

definition tick :: "heap \<Rightarrow> heap" where
  "tick h = h\<lparr>times := (\<lambda>n. times h (Suc n))\<rparr>"

text \<open>The session a list node points to.\<close>

definition node_session :: "heap \<Rightarrow> session_linked_list \<Rightarrow> tcp_session option" where
  "node_session h n = do { s \<leftarrow> session n; sessions h s }"

section \<open>The list functions\<close>

text \<open>\<^verbatim>\<open>difftime(time(NULL), session->expire) > 0.0\<close>\<close>

definition session_expired :: "heap \<Rightarrow> addr \<Rightarrow> (bool \<times> heap) option" where
  "session_expired h s = do { x \<leftarrow> sessions h s; Some (time_NULL h > expire x, tick h) }"

text \<open>\<^verbatim>\<open>while (head->next != NULL) head = head->next;\<close>\<close>

partial_function (option) last_node :: "heap \<Rightarrow> addr \<Rightarrow> addr option" where
  "last_node h a = do {
     n \<leftarrow> nodes h a;
     case nxt n of None \<Rightarrow> Some a | Some a' \<Rightarrow> last_node h a' }"

text \<open>The result is the new value of \<^verbatim>\<open>*_head\<close> and the heap.\<close>

definition insert_tcp_session :: "heap \<Rightarrow> ptr \<Rightarrow> addr \<Rightarrow> (ptr \<times> heap) option" where
  "insert_tcp_session h head s =
     (case head of
        None \<Rightarrow> (let (a, h) = calloc_node h
                 in Some (Some a, h\<lparr>nodes := (nodes h)(a \<mapsto> \<lparr>session = Some s, nxt = None\<rparr>)\<rparr>))
      | Some p \<Rightarrow> do {
          l \<leftarrow> last_node h p;
          n \<leftarrow> nodes h l;
          let (a, h) = calloc_node h;
          let h = h\<lparr>nodes := (nodes h)(l \<mapsto> n\<lparr>nxt := Some a\<rparr>)\<rparr>;
          Some (Some p, h\<lparr>nodes := (nodes h)(a \<mapsto> \<lparr>session = Some s, nxt = None\<rparr>)\<rparr>) })"

partial_function (option) search_tcp_session_by_client ::
    "heap \<Rightarrow> ptr \<Rightarrow> u32 \<Rightarrow> u16 \<Rightarrow> ptr option" where
  "search_tcp_session_by_client h head ip port =
     (case head of None \<Rightarrow> Some None
      | Some a \<Rightarrow> do {
          n \<leftarrow> nodes h a;
          x \<leftarrow> node_session h n;
          if client_ip x = ip \<and> client_port x = port then Some (session n)
          else search_tcp_session_by_client h (nxt n) ip port })"

partial_function (option) search_tcp_session_by_server :: "heap \<Rightarrow> ptr \<Rightarrow> u16 \<Rightarrow> ptr option" where
  "search_tcp_session_by_server h head port =
     (case head of None \<Rightarrow> Some None
      | Some a \<Rightarrow> do {
          n \<leftarrow> nodes h a;
          x \<leftarrow> node_session h n;
          if server_port x = port then Some (session n)
          else search_tcp_session_by_server h (nxt n) port })"

text \<open>
  The loop of \<^verbatim>\<open>delete_expired_session\<close>: look at the cell after \<^verbatim>\<open>current\<close>, unlink and free it when
  its session has expired, else step to it. The clock is read once per cell.
\<close>

partial_function (option) delete_expired_loop :: "heap \<Rightarrow> addr \<Rightarrow> heap option" where
  "delete_expired_loop h current = do {
     n \<leftarrow> nodes h current;
     case nxt n of None \<Rightarrow> Some h
     | Some d \<Rightarrow> do {
         m \<leftarrow> nodes h d;
         x \<leftarrow> node_session h m;
         if time_NULL h > expire x then do {
           h \<leftarrow> free_node ((tick h)\<lparr>nodes := (nodes h)(current \<mapsto> n\<lparr>nxt := nxt m\<rparr>)\<rparr>) d;
           delete_expired_loop h current }
         else delete_expired_loop (tick h) d } }"

definition delete_expired_session :: "heap \<Rightarrow> ptr \<Rightarrow> (ptr \<times> heap) option" where
  "delete_expired_session h head =
     (case head of None \<Rightarrow> Some (None, h)
      | Some p \<Rightarrow> do {
          h \<leftarrow> delete_expired_loop h p;
          n \<leftarrow> nodes h p;
          x \<leftarrow> node_session h n;
          if time_NULL h > expire x
          then do { h \<leftarrow> free_node (tick h) p; Some (nxt n, h) }
          else Some (Some p, tick h) })"

partial_function (option) delete_all_session :: "heap \<Rightarrow> ptr \<Rightarrow> bool \<Rightarrow> heap option" where
  "delete_all_session h head remove_session =
     (case head of None \<Rightarrow> Some h
      | Some a \<Rightarrow> do {
          n \<leftarrow> nodes h a;
          h \<leftarrow> (if remove_session then free_session h (session n) else Some h);
          h \<leftarrow> free_node h a;
          delete_all_session h (nxt n) remove_session })"

declare last_node.simps [code] search_tcp_session_by_client.simps [code] search_tcp_session_by_server.simps [code]
  delete_expired_loop.simps [code] delete_all_session.simps [code]

section \<open>Chains\<close>

text \<open>
  \<open>chain N p cs\<close>: from \<open>p\<close> the list visits exactly the cells \<open>cs\<close>, each an address of a node with
  the address of its session, and then ends.
\<close>

primrec chain :: "(addr \<Rightarrow> session_linked_list option) \<Rightarrow> ptr \<Rightarrow> (addr \<times> addr) list \<Rightarrow> bool" where
  "chain N p [] \<longleftrightarrow> p = None"
| "chain N p (c # cs) \<longleftrightarrow> p = Some (fst c) \<and>
     (case N (fst c) of None \<Rightarrow> False | Some n \<Rightarrow> session n = Some (snd c) \<and> chain N (nxt n) cs)"

text \<open>All sessions of a list of cells are allocated.\<close>

definition live_cells :: "heap \<Rightarrow> (addr \<times> addr) list \<Rightarrow> bool" where
  "live_cells h cs \<longleftrightarrow> (\<forall>c \<in> set cs. sessions h (snd c) \<noteq> None)"

abbreviation sess :: "heap \<Rightarrow> addr \<Rightarrow> tcp_session" where
  "sess h s \<equiv> the (sessions h s)"

abbreviation cells :: "(addr \<times> addr) list \<Rightarrow> addr set" where
  "cells cs \<equiv> fst ` set cs"

lemma heap_upd_order:
  "h\<lparr>brk := b, nodes := N\<rparr> = h\<lparr>nodes := N, brk := b\<rparr>"
  "h\<lparr>sessions := S, nodes := N\<rparr> = h\<lparr>nodes := N, sessions := S\<rparr>"
  by simp_all

lemma chain_Cons_iff:
  "chain N p (c # cs) \<longleftrightarrow> p = Some (fst c) \<and>
     (\<exists>q. N (fst c) = Some \<lparr>session = Some (snd c), nxt = q\<rparr> \<and> chain N q cs)"
  by (cases "N (fst c)")
    (auto intro!: exI [of _ "nxt (the (N (fst c)))"] session_linked_list.equality)

lemma chain_cong:
  "(\<And>a. a \<in> cells cs \<Longrightarrow> N' a = N a) \<Longrightarrow> chain N' p cs = chain N p cs"
  by (induction cs arbitrary: p) (simp_all split: option.splits)

lemma chain_update_other [simp]: "a \<notin> cells cs \<Longrightarrow> chain (N(a := v)) p cs = chain N p cs"
  by (rule chain_cong) auto

lemma chain_allocated: "chain N p cs \<Longrightarrow> a \<in> cells cs \<Longrightarrow> \<exists>n. N a = Some n"
  by (induction cs arbitrary: p) (auto simp: chain_Cons_iff simp del: chain.simps(2))

text \<open>A chain is determined by its first pointer.\<close>

lemma chain_unique: "chain N p cs \<Longrightarrow> chain N p ds \<Longrightarrow> cs = ds"
proof (induction cs arbitrary: p ds)
  case Nil
  then show ?case by (cases ds) auto
next
  case (Cons c cs)
  then show ?case
    by (cases ds) (auto simp: chain_Cons_iff prod_eq_iff simp del: chain.simps(2))
qed

section \<open>Insertion\<close>

lemma last_node_chain:
  "chain (nodes h) (Some a) cs \<Longrightarrow> last_node h a = Some (fst (last cs))"
proof (induction cs arbitrary: a)
  case (Cons c cs)
  then show ?case
    by (cases cs) (auto simp: last_node.simps [of h "fst c"] split: option.splits)
qed simp

text \<open>Linking a fresh cell behind the last one.\<close>

lemma chain_snoc:
  assumes "chain N p (cs @ [l])" and "distinct (map fst (cs @ [l]))" and "a \<notin> cells (cs @ [l])"
  shows "chain (N(fst l \<mapsto> \<lparr>session = Some (snd l), nxt = Some a\<rparr>, a \<mapsto> \<lparr>session = Some s, nxt = None\<rparr>))
    p (cs @ [l, (a, s)])"
  using assms
proof (induction cs arbitrary: p)
  case Nil
  then show ?case by (auto simp: chain_Cons_iff simp del: chain.simps(2))
next
  case (Cons c cs)
  then show ?case by (auto simp: chain_Cons_iff simp del: chain.simps(2))
qed

lemma chain_last: "chain N p (cs @ [l]) \<Longrightarrow> N (fst l) = Some \<lparr>session = Some (snd l), nxt = None\<rparr>"
  by (induction cs arbitrary: p) (auto simp: chain_Cons_iff simp del: chain.simps(2))

lemma insert_tcp_session_chain:
  assumes ch: "chain (nodes h) p cs" and dist: "distinct (map fst cs)" and fresh: "brk h \<notin> cells cs"
  shows "\<exists>p' N'. insert_tcp_session h p s = Some (p', h\<lparr>nodes := N', brk := Suc (brk h)\<rparr>) \<and>
    chain N' p' (cs @ [(brk h, s)]) \<and> dom N' = insert (brk h) (dom (nodes h)) \<and>
    (\<forall>a. a \<noteq> brk h \<longrightarrow> a \<notin> cells cs \<longrightarrow> N' a = nodes h a)"
proof (cases cs rule: rev_cases)
  case Nil
  with ch have "p = None" by simp
  then show ?thesis
    by (intro exI [of _ "Some (brk h)"] exI [of _ "(nodes h)(brk h \<mapsto> \<lparr>session = Some s, nxt = None\<rparr>)"])
      (cases h, auto simp: insert_tcp_session_def calloc_node_def Nil)
next
  case (snoc ds l)
  then obtain a where p: "p = Some a"
    using ch by (cases ds) auto
  have l: "last_node h a = Some (fst l)" and n: "nodes h (fst l) = Some \<lparr>session = Some (snd l), nxt = None\<rparr>"
    using last_node_chain [of h a cs] chain_last [of "nodes h" p ds l] ch by (auto simp: p snoc)
  let ?N = "(nodes h)(fst l \<mapsto> \<lparr>session = Some (snd l), nxt = Some (brk h)\<rparr>,
    brk h \<mapsto> \<lparr>session = Some s, nxt = None\<rparr>)"
  have "fst l \<noteq> brk h" using fresh snoc by auto
  then have run: "insert_tcp_session h p s = Some (p, h\<lparr>nodes := ?N, brk := Suc (brk h)\<rparr>)"
    by (simp add: insert_tcp_session_def p l n calloc_node_def heap_upd_order)
  have "chain ?N p (cs @ [(brk h, s)])"
    using chain_snoc [of "nodes h" p ds l "brk h" s] ch dist fresh by (simp add: snoc)
  then show ?thesis
    using run n by (intro exI [of _ p] exI [of _ ?N]) (auto simp: snoc)
qed

section \<open>Search\<close>

lemma search_by_client_chain:
  assumes "chain (nodes h) p cs" and "live_cells h cs"
  shows "search_tcp_session_by_client h p ip port =
    Some (map_option snd (find (\<lambda>c. client_ip (sess h (snd c)) = ip \<and> client_port (sess h (snd c)) = port) cs))"
  using assms
proof (induction cs arbitrary: p)
  case (Cons c cs)
  then show ?case
    by (auto simp: search_tcp_session_by_client.simps [of h "Some (fst c)"] chain_Cons_iff live_cells_def
        node_session_def simp del: chain.simps(2))
qed (simp add: search_tcp_session_by_client.simps)

lemma search_by_server_chain:
  assumes "chain (nodes h) p cs" and "live_cells h cs"
  shows "search_tcp_session_by_server h p port =
    Some (map_option snd (find (\<lambda>c. server_port (sess h (snd c)) = port) cs))"
  using assms
proof (induction cs arbitrary: p)
  case (Cons c cs)
  then show ?case
    by (auto simp: search_tcp_session_by_server.simps [of h "Some (fst c)"] chain_Cons_iff live_cells_def
        node_session_def simp del: chain.simps(2))
qed (simp add: search_tcp_session_by_server.simps)

section \<open>Removal of expired sessions\<close>

text \<open>
  The cells that survive when the \<open>n\<close>-th cell is judged at time \<open>T n\<close>, and the survivors of
  \<^verbatim>\<open>delete_expired_session\<close>, which judges the first cell last.
\<close>

primrec keep_unexpired :: "(addr \<Rightarrow> tcp_session) \<Rightarrow> (nat \<Rightarrow> int) \<Rightarrow> (addr \<times> addr) list \<Rightarrow> (addr \<times> addr) list" where
  "keep_unexpired S T [] = []"
| "keep_unexpired S T (c # cs) =
     (if T 0 > expire (S (snd c)) then [] else [c]) @ keep_unexpired S (\<lambda>n. T (Suc n)) cs"

primrec survivors :: "(addr \<Rightarrow> tcp_session) \<Rightarrow> (nat \<Rightarrow> int) \<Rightarrow> (addr \<times> addr) list \<Rightarrow> (addr \<times> addr) list" where
  "survivors S T [] = []"
| "survivors S T (c # cs) =
     (if T (length cs) > expire (S (snd c)) then [] else [c]) @ keep_unexpired S T cs"

lemma set_keep_unexpired: "set (keep_unexpired S T cs) \<subseteq> set cs"
  by (induction cs arbitrary: T) (auto split: if_splits)

lemma set_survivors: "set (survivors S T cs) \<subseteq> set cs"
  using set_keep_unexpired by (cases cs) auto

lemma distinct_keep_unexpired: "distinct (map f cs) \<Longrightarrow> distinct (map f (keep_unexpired S T cs))"
  using set_keep_unexpired by (induction cs arbitrary: T) (auto, blast)

lemma distinct_survivors: "distinct (map f cs) \<Longrightarrow> distinct (map f (survivors S T cs))"
  using set_keep_unexpired by (cases cs) (auto simp: distinct_keep_unexpired, blast)

text \<open>With a clock that does not move, the survivors are the unexpired cells.\<close>

lemma keep_unexpired_const:
  "(\<And>n. T n = t) \<Longrightarrow> keep_unexpired S T cs = filter (\<lambda>c. t \<le> expire (S (snd c))) cs"
  by (induction cs arbitrary: T) auto

lemma survivors_const:
  "(\<And>n. T n = t) \<Longrightarrow> survivors S T cs = filter (\<lambda>c. t \<le> expire (S (snd c))) cs"
  by (cases cs) (auto simp: keep_unexpired_const)

lemma delete_expired_loop_chain:
  assumes "chain (nodes h) (Some (fst c)) (c # cs)" and "distinct (map fst (c # cs))"
    and "live_cells h cs"
  shows "\<exists>N'. delete_expired_loop h (fst c) =
      Some (h\<lparr>nodes := N', times := (\<lambda>n. times h (n + length cs))\<rparr>) \<and>
    chain N' (Some (fst c)) (c # keep_unexpired (sess h) (times h) cs) \<and>
    (\<forall>a. a \<notin> cells (c # cs) \<longrightarrow> N' a = nodes h a) \<and>
    (\<forall>d \<in> set cs. d \<notin> set (keep_unexpired (sess h) (times h) cs) \<longrightarrow> N' (fst d) = None)"
  using assms
proof (induction cs arbitrary: h c)
  case Nil
  then have "nodes h (fst c) = Some \<lparr>session = Some (snd c), nxt = None\<rparr>"
    by (auto simp: chain_Cons_iff simp del: chain.simps(2))
  then show ?case
    by (intro exI [of _ "nodes h"]) (simp add: delete_expired_loop.simps)
next
  case (Cons d cs)
  then obtain q where c: "nodes h (fst c) = Some \<lparr>session = Some (snd c), nxt = Some (fst d)\<rparr>"
    and d: "nodes h (fst d) = Some \<lparr>session = Some (snd d), nxt = q\<rparr>" and q: "chain (nodes h) q cs"
    by (auto simp: chain_Cons_iff simp del: chain.simps(2))
  obtain x where live: "sessions h (snd d) = Some x" "live_cells h cs"
    using Cons.prems(3) by (auto simp: live_cells_def)
  have neq: "fst c \<noteq> fst d" "fst c \<notin> cells cs" "fst d \<notin> cells cs" "distinct (map fst cs)"
    using Cons.prems(2) by auto
  show ?case
  proof (cases "time_NULL h > expire (sess h (snd d))")
    case True
    let ?N = "(nodes h)(fst c \<mapsto> \<lparr>session = Some (snd c), nxt = q\<rparr>, fst d := None)"
    let ?h = "(tick h)\<lparr>nodes := ?N\<rparr>"
    have step: "delete_expired_loop h (fst c) = delete_expired_loop ?h (fst c)"
      using True neq
      by (subst delete_expired_loop.simps) (simp add: c d live node_session_def free_node_def tick_def)
    have "chain (nodes ?h) (Some (fst c)) (c # cs)" "distinct (map fst (c # cs))" "live_cells ?h cs"
      using q neq live(2) by (simp_all add: live_cells_def tick_def)
    note IH = Cons.IH [OF this]
    obtain N' where N': "delete_expired_loop ?h (fst c) =
        Some (?h\<lparr>nodes := N', times := (\<lambda>n. times ?h (n + length cs))\<rparr>)"
      "chain N' (Some (fst c)) (c # keep_unexpired (sess ?h) (times ?h) cs)"
      "\<forall>a. a \<notin> cells (c # cs) \<longrightarrow> N' a = nodes ?h a"
      "\<forall>d \<in> set cs. d \<notin> set (keep_unexpired (sess ?h) (times ?h) cs) \<longrightarrow> N' (fst d) = None"
      using IH by blast
    show ?thesis
      using N' neq True unfolding step
      by (intro exI [of _ N']) (auto simp: tick_def time_NULL_def)
  next
    case False
    let ?h = "tick h"
    have step: "delete_expired_loop h (fst c) = delete_expired_loop ?h (fst d)"
      using False by (subst delete_expired_loop.simps) (simp add: c d live node_session_def)
    have "chain (nodes ?h) (Some (fst d)) (d # cs)" "distinct (map fst (d # cs))" "live_cells ?h cs"
      using q d neq live(2) by (simp_all add: live_cells_def tick_def)
    note IH = Cons.IH [OF this]
    obtain N' where N': "delete_expired_loop ?h (fst d) =
        Some (?h\<lparr>nodes := N', times := (\<lambda>n. times ?h (n + length cs))\<rparr>)"
      "chain N' (Some (fst d)) (d # keep_unexpired (sess ?h) (times ?h) cs)"
      "\<forall>a. a \<notin> cells (d # cs) \<longrightarrow> N' a = nodes ?h a"
      "\<forall>e \<in> set cs. e \<notin> set (keep_unexpired (sess ?h) (times ?h) cs) \<longrightarrow> N' (fst e) = None"
      using IH by blast
    have "N' (fst c) = nodes h (fst c)"
      using N'(3) neq by (simp add: tick_def)
    then show ?thesis
      using N' neq False c unfolding step
      by (intro exI [of _ N']) (auto simp: tick_def time_NULL_def)
  qed
qed

lemma delete_expired_session_chain:
  assumes ch: "chain (nodes h) p cs" and dist: "distinct (map fst cs)" and live: "live_cells h cs"
  shows "\<exists>p' N'. delete_expired_session h p =
      Some (p', h\<lparr>nodes := N', times := (\<lambda>n. times h (n + length cs))\<rparr>) \<and>
    chain N' p' (survivors (sess h) (times h) cs) \<and>
    (\<forall>a. a \<notin> cells cs \<longrightarrow> N' a = nodes h a) \<and>
    (\<forall>d \<in> set cs. d \<notin> set (survivors (sess h) (times h) cs) \<longrightarrow> N' (fst d) = None)"
proof (cases cs)
  case Nil
  then show ?thesis
    using ch by (intro exI [of _ None] exI [of _ "nodes h"]) (simp add: delete_expired_session_def)
next
  case (Cons c ds)
  let ?k = "keep_unexpired (sess h) (times h) ds"
  let ?h = "\<lambda>N. h\<lparr>nodes := N, times := (\<lambda>n. times h (n + length ds))\<rparr>"
  have p: "p = Some (fst c)" using ch Cons by simp
  have "live_cells h ds" using live Cons by (simp add: live_cells_def)
  then obtain N where loop: "delete_expired_loop h (fst c) = Some (?h N)"
    and N: "chain N (Some (fst c)) (c # ?k)" "\<forall>a. a \<notin> cells (c # ds) \<longrightarrow> N a = nodes h a"
      "\<forall>d \<in> set ds. d \<notin> set ?k \<longrightarrow> N (fst d) = None"
    using delete_expired_loop_chain [of h c ds] ch dist by (auto simp: Cons p simp del: chain.simps(2))
  obtain q where q: "N (fst c) = Some \<lparr>session = Some (snd c), nxt = q\<rparr>" "chain N q ?k"
    using N(1) by (auto simp: chain_Cons_iff simp del: chain.simps(2))
  obtain x where x: "sessions h (snd c) = Some x"
    using live Cons by (auto simp: live_cells_def)
  have nin: "fst c \<notin> cells ds" "fst c \<notin> cells ?k"
    using dist Cons set_keep_unexpired [of "sess h" "times h" ds] by auto
  show ?thesis
  proof (cases "times h (length ds) > expire x")
    case True
    have "delete_expired_session h p =
        Some (q, h\<lparr>nodes := N(fst c := None), times := (\<lambda>n. times h (n + length cs))\<rparr>)"
      using True by (simp add: delete_expired_session_def p loop q x node_session_def time_NULL_def
          free_node_def tick_def Cons)
    then show ?thesis
      using True q N nin
      by (intro exI [of _ q] exI [of _ "N(fst c := None)"]) (auto simp: Cons x)
  next
    case False
    have "delete_expired_session h p =
        Some (p, h\<lparr>nodes := N, times := (\<lambda>n. times h (n + length cs))\<rparr>)"
      using False by (simp add: delete_expired_session_def p loop q x node_session_def time_NULL_def
          tick_def Cons)
    then show ?thesis
      using False N by (intro exI [of _ p] exI [of _ N]) (auto simp: Cons x p)
  qed
qed

section \<open>Freeing a list\<close>

lemma delete_all_session_chain:
  assumes "chain (nodes h) p cs" and "distinct (map fst cs)"
    and "rm \<Longrightarrow> live_cells h cs \<and> distinct (map snd cs)"
  shows "delete_all_session h p rm = Some (h\<lparr>
    nodes := (\<lambda>a. if a \<in> cells cs then None else nodes h a),
    sessions := (\<lambda>s. if rm \<and> s \<in> snd ` set cs then None else sessions h s)\<rparr>)"
  using assms
proof (induction cs arbitrary: h p)
  case Nil
  then show ?case by (simp add: delete_all_session.simps)
next
  case (Cons c cs)
  then obtain q where c: "p = Some (fst c)" "nodes h (fst c) = Some \<lparr>session = Some (snd c), nxt = q\<rparr>"
    "chain (nodes h) q cs"
    by (auto simp: chain_Cons_iff simp del: chain.simps(2))
  let ?h = "h\<lparr>nodes := (nodes h)(fst c := None),
    sessions := (if rm then (sessions h)(snd c := None) else sessions h)\<rparr>"
  have step: "delete_all_session h p rm = delete_all_session ?h q rm"
    using Cons.prems(3)
    by (auto simp: delete_all_session.simps [of h] c free_session_def free_node_def live_cells_def heap_upd_order)
  have "chain (nodes ?h) q cs" "distinct (map fst cs)" "rm \<Longrightarrow> live_cells ?h cs \<and> distinct (map snd cs)"
    using c Cons.prems(2,3) by (auto simp: live_cells_def image_iff)
  note IH = Cons.IH [OF this]
  have "?h\<lparr>nodes := (\<lambda>a. if a \<in> cells cs then None else nodes ?h a),
      sessions := (\<lambda>s. if rm \<and> s \<in> snd ` set cs then None else sessions ?h s)\<rparr>
    = h\<lparr>nodes := (\<lambda>a. if a \<in> cells (c # cs) then None else nodes h a),
      sessions := (\<lambda>s. if rm \<and> s \<in> snd ` set (c # cs) then None else sessions h s)\<rparr>"
    by (rule heap.equality) (auto simp: fun_eq_iff)
  then show ?case using trans [OF step IH] by (simp only:)
qed

end
