(* ===== verification/Session_Table.thy ===== *)
theory Session_Table
  imports Session_List
begin

text \<open>
  The session hash table of \<^verbatim>\<open>src/src/lib/session_struct.c\<close>: two arrays of linked lists over the
  same session objects, one hashed by the client's address and port, one by the port the server
  uses for the session, and the allocation of server ports.

  The invariant \<open>table_inv\<close> says that both arrays hold the same sessions, each exactly once and in
  the bucket its key selects, on disjoint chains, and that no two sessions share a client end point or a
  server port. The locale \<open>nat_table\<close> is the interface the packet handlers rely on.
\<close>

section \<open>The table\<close>

record session_hash_table =
  list_client_key :: "ptr list"
  list_server_key :: "ptr list"
  len :: int
  min_port :: u16
  mod_num :: u16
  next_num :: u32

text \<open>The element of an array at an \<^verbatim>\<open>int\<close> index, and the two hash expressions.\<close>

definition arr :: "ptr list \<Rightarrow> int \<Rightarrow> ptr option" where
  "arr xs i = (if 0 \<le> i \<and> i < int (length xs) then Some (xs ! nat i) else None)"

text \<open>\<^verbatim>\<open>(client_ip + client_port) % len\<close>: unsigned 32 bit arithmetic, stored in an \<^verbatim>\<open>int\<close>.\<close>

definition hash_client :: "session_hash_table \<Rightarrow> u32 \<Rightarrow> u16 \<Rightarrow> int option" where
  "hash_client t ip port =
     (if (of_int (len t) :: u32) = 0 then None
      else Some (sint ((ip + ucast port) mod of_int (len t))))"

text \<open>\<^verbatim>\<open>server_port % len\<close>: the port is promoted to \<^verbatim>\<open>int\<close>, and the remainder has its sign.\<close>

definition hash_server :: "session_hash_table \<Rightarrow> u16 \<Rightarrow> int option" where
  "hash_server t port = (if len t = 0 then None else Some (uint port mod \<bar>len t\<bar>))"

definition init_hash_table :: "int \<Rightarrow> u16 \<Rightarrow> u16 \<Rightarrow> session_hash_table" where
  "init_hash_table num_entry minp maxp =
     \<lparr>list_client_key = replicate (nat num_entry) None, list_server_key = replicate (nat num_entry) None,
      len = num_entry, min_port = minp, mod_num = maxp - minp + 1, next_num = 0\<rparr>"

definition get_tcp_session_by_client :: "heap \<Rightarrow> session_hash_table \<Rightarrow> u32 \<Rightarrow> u16 \<Rightarrow> ptr option" where
  "get_tcp_session_by_client h t ip port = do {
     i \<leftarrow> hash_client t ip port;
     p \<leftarrow> arr (list_client_key t) i;
     search_tcp_session_by_client h p ip port }"

definition get_tcp_session_by_server :: "heap \<Rightarrow> session_hash_table \<Rightarrow> u16 \<Rightarrow> ptr option" where
  "get_tcp_session_by_server h t port = do {
     i \<leftarrow> hash_server t port;
     p \<leftarrow> arr (list_server_key t) i;
     search_tcp_session_by_server h p port }"

text \<open>\<^verbatim>\<open>(next_num % mod_num) + min_port\<close>, truncated to 16 bits.\<close>

definition next_port :: "session_hash_table \<Rightarrow> u16" where
  "next_port t = ucast (next_num t mod ucast (mod_num t) + ucast (min_port t))"

text \<open>
  The loop that looks for a free port. \<^verbatim>\<open>count\<close> is not initialised by the source: its first
  value is an argument. Incrementing the largest \<^verbatim>\<open>int\<close> is undefined.
\<close>

function find_port :: "heap \<Rightarrow> session_hash_table \<Rightarrow> int \<Rightarrow> (u16 option \<times> session_hash_table) option" where
  "find_port h t count =
     (if mod_num t = 0 then None
      else let server_port = next_port t; t' = t\<lparr>next_num := next_num t + 1\<rparr>
      in case do { i \<leftarrow> hash_server t' server_port; p \<leftarrow> arr (list_server_key t') i;
                   search_tcp_session_by_server h p server_port }
         of None \<Rightarrow> None
          | Some None \<Rightarrow> Some (Some server_port, t')
          | Some (Some _) \<Rightarrow>
              (if count \<ge> 2 ^ 31 - 1 then None
               else if count + 1 > uint (mod_num t) then Some (None, t')
               else find_port h t' (count + 1)))"
  by pat_completeness auto
termination
  by (relation "measure (\<lambda>(h, t, count). nat (uint (mod_num t) - count))") auto

declare find_port.simps [simp del]

text \<open>
  The first argument is the uninitialised \<^verbatim>\<open>count\<close>. The result is the returned pointer with the heap
  and the table.
\<close>

definition add_tcp_session ::
    "int \<Rightarrow> heap \<Rightarrow> session_hash_table \<Rightarrow> u32 \<Rightarrow> u16 \<Rightarrow> int \<Rightarrow> (ptr \<times> heap \<times> session_hash_table) option" where
  "add_tcp_session count h t ip port timeout = do {
     hash_c \<leftarrow> hash_client t ip port;
     p \<leftarrow> arr (list_client_key t) hash_c;
     r \<leftarrow> search_tcp_session_by_client h p ip port;
     case r of
       Some s \<Rightarrow> Some (Some s, h, t)
     | None \<Rightarrow> do {
         (found, t) \<leftarrow> find_port h t count;
         case found of
           None \<Rightarrow> Some (None, h, t)
         | Some sport \<Rightarrow> do {
             hash_s \<leftarrow> hash_server t sport;
             let (s, h) = calloc_session h;
             let x = zero_session\<lparr>client_ip := ip, client_port := port, server_port := sport,
                       expire := time_NULL h + timeout\<rparr>;
             let h = (tick h)\<lparr>sessions := (sessions h)(s \<mapsto> x)\<rparr>;
             p \<leftarrow> arr (list_client_key t) hash_c;
             (p, h) \<leftarrow> insert_tcp_session h p s;
             let t = t\<lparr>list_client_key := (list_client_key t)[nat hash_c := p]\<rparr>;
             q \<leftarrow> arr (list_server_key t) hash_s;
             (q, h) \<leftarrow> insert_tcp_session h q s;
             let t = t\<lparr>list_server_key := (list_server_key t)[nat hash_s := q]\<rparr>;
             Some (Some s, h, t) } } }"

text \<open>The loops over the buckets, from index \<open>i\<close>.\<close>

function clean_expired_from :: "heap \<Rightarrow> session_hash_table \<Rightarrow> int \<Rightarrow> (heap \<times> session_hash_table) option" where
  "clean_expired_from h t i =
     (if i < len t then do {
        p \<leftarrow> arr (list_client_key t) i;
        (p, h) \<leftarrow> delete_expired_session h p;
        let t' = t\<lparr>list_client_key := (list_client_key t)[nat i := p]\<rparr>;
        q \<leftarrow> arr (list_server_key t') i;
        (q, h) \<leftarrow> delete_expired_session h q;
        clean_expired_from h (t'\<lparr>list_server_key := (list_server_key t')[nat i := q]\<rparr>) (i + 1) }
      else Some (h, t))"
  by pat_completeness auto
termination
  by (relation "measure (\<lambda>(h, t, i). nat (len t - i))") auto

declare clean_expired_from.simps [simp del]

definition clean_expired_session :: "heap \<Rightarrow> session_hash_table \<Rightarrow> (heap \<times> session_hash_table) option" where
  "clean_expired_session h t = clean_expired_from h t 0"

function delete_table_from :: "heap \<Rightarrow> session_hash_table \<Rightarrow> int \<Rightarrow> heap option" where
  "delete_table_from h t i =
     (if i < len t then do {
        p \<leftarrow> arr (list_client_key t) i;
        h \<leftarrow> delete_all_session h p False;
        q \<leftarrow> arr (list_server_key t) i;
        h \<leftarrow> delete_all_session h q True;
        delete_table_from h t (i + 1) }
      else Some h)"
  by pat_completeness auto
termination
  by (relation "measure (\<lambda>(h, t, i). nat (len t - i))") auto

declare delete_table_from.simps [simp del]

text \<open>
  \<^verbatim>\<open>free\<close> of an array. No pointer besides the one in the table leads to it, so it is a value of the table, and a
  freed array is one without elements: every access through the dangling pointer, and a second \<^verbatim>\<open>free\<close>, is undefined. (A table
  of no entries, which has such arrays from the start, divides by zero in all its other operations.)
\<close>

definition free_array :: "ptr list \<Rightarrow> ptr list option" where
  "free_array xs = (if xs = [] then None else Some [])"

text \<open>The result is the heap, and the table with its dangling pointers.\<close>

definition delete_hash_table :: "heap \<Rightarrow> session_hash_table \<Rightarrow> (heap \<times> session_hash_table) option" where
  "delete_hash_table h t = do {
     h \<leftarrow> delete_table_from h t 0;
     xs \<leftarrow> free_array (list_client_key t);
     let t = t\<lparr>list_client_key := xs\<rparr>;
     ys \<leftarrow> free_array (list_server_key t);
     Some (h, t\<lparr>list_server_key := ys\<rparr>) }"

section \<open>The invariant\<close>

definition client_key :: "tcp_session \<Rightarrow> u32 \<times> u16" where
  "client_key x = (client_ip x, client_port x)"

text \<open>The bucket numbers of a table with \<open>n\<close> buckets.\<close>

definition client_bucket :: "nat \<Rightarrow> u32 \<Rightarrow> u16 \<Rightarrow> nat" where
  "client_bucket n ip port = unat (ip + ucast port) mod n"

definition server_bucket :: "nat \<Rightarrow> u16 \<Rightarrow> nat" where
  "server_bucket n port = unat port mod n"

text \<open>One array: its chains, and every cell in the bucket that \<open>f\<close> selects for its session.\<close>

definition buckets :: "heap \<Rightarrow> (tcp_session \<Rightarrow> nat) \<Rightarrow> ptr list \<Rightarrow> (addr \<times> addr) list list \<Rightarrow> bool" where
  "buckets h f ps css \<longleftrightarrow> list_all2 (chain (nodes h)) ps css \<and>
     (\<forall>i < length css. \<forall>c \<in> set (css ! i). f (sess h (snd c)) = i)"

text \<open>The sessions of a table, and the ports it hands out.\<close>

abbreviation cell_sessions :: "(addr \<times> addr) list list \<Rightarrow> addr set" where
  "cell_sessions css \<equiv> snd ` set (concat css)"

definition port_range :: "session_hash_table \<Rightarrow> u16 set" where
  "port_range t = {ucast (k + ucast (min_port t)) | k :: u32. unat k < unat (mod_num t)}"

definition table_rep ::
    "heap \<Rightarrow> session_hash_table \<Rightarrow> (addr \<times> addr) list list \<Rightarrow> (addr \<times> addr) list list \<Rightarrow> bool" where
  "table_rep h t cc sc \<longleftrightarrow>
     0 < len t \<and> len t < 2 ^ 31 \<and>
     length (list_client_key t) = nat (len t) \<and> length (list_server_key t) = nat (len t) \<and>
     buckets h (\<lambda>x. client_bucket (nat (len t)) (client_ip x) (client_port x)) (list_client_key t) cc \<and>
     buckets h (\<lambda>x. server_bucket (nat (len t)) (server_port x)) (list_server_key t) sc \<and>
     distinct (map fst (concat cc @ concat sc)) \<and>
     distinct (map snd (concat cc)) \<and> distinct (map snd (concat sc)) \<and>
     cell_sessions cc = cell_sessions sc \<and>
     (\<forall>s \<in> cell_sessions cc. sessions h s \<noteq> None \<and> server_port (sess h s) \<in> port_range t) \<and>
     inj_on (\<lambda>s. client_key (sess h s)) (cell_sessions cc) \<and>
     inj_on (\<lambda>s. server_port (sess h s)) (cell_sessions cc) \<and>
     (\<forall>a. nodes h a \<noteq> None \<longrightarrow> a < brk h) \<and> (\<forall>s. sessions h s \<noteq> None \<longrightarrow> s < brk h)"

definition table_inv :: "heap \<Rightarrow> session_hash_table \<Rightarrow> bool" where
  "table_inv h t \<longleftrightarrow> (\<exists>cc sc. table_rep h t cc sc)"

section \<open>Hashing\<close>

lemma hash_client_bucket:
  assumes "0 < len t" and "len t < 2 ^ 31"
  shows "hash_client t ip port = Some (int (client_bucket (nat (len t)) ip port))"
proof -
  let ?l = "of_int (len t) :: u32" and ?k = "ip + ucast port :: u32"
  have ul: "uint ?l = len t"
    using assms by (simp add: uint_word_of_int_eq take_bit_int_eq_self_iff)
  have "?l \<noteq> 0" using ul assms by auto
  have "uint (?k mod ?l) = uint ?k mod len t" by (simp add: uint_mod_distrib ul)
  moreover have "uint ?k mod len t < len t" "0 \<le> uint ?k mod len t" using assms by simp_all
  ultimately have "sint (?k mod ?l) = uint ?k mod len t"
    using assms(2) by (simp add: sint_uint signed_take_bit_int_eq_self)
  also have "\<dots> = int (client_bucket (nat (len t)) ip port)"
    using assms(1) by (simp add: client_bucket_def zmod_int)
  finally show ?thesis using \<open>?l \<noteq> 0\<close> by (simp add: hash_client_def)
qed

lemma hash_server_bucket:
  "0 < len t \<Longrightarrow> hash_server t port = Some (int (server_bucket (nat (len t)) port))"
  by (simp add: hash_server_def server_bucket_def zmod_int)

lemma bucket_less: "0 < n \<Longrightarrow> client_bucket n ip port < n" "0 < n \<Longrightarrow> server_bucket n p < n"
  by (simp_all add: client_bucket_def server_bucket_def)

lemma arr_int: "i < length xs \<Longrightarrow> arr xs (int i) = Some (xs ! i)"
  by (simp add: arr_def)

section \<open>Buckets under heap changes\<close>

lemma cells_disjoint:
  assumes "distinct (map fst (concat css))" and "i < length css" "j < length css" "i \<noteq> j"
  shows "cells (css ! i) \<inter> cells (css ! j) = {}"
  using distinct_concat_nth [OF assms(1), of i j] assms(2-4) by fastforce

lemma buckets_frame:
  assumes "buckets h f ps css" and "\<And>a. a \<in> cells (concat css) \<Longrightarrow> nodes h' a = nodes h a"
    and "\<And>s. s \<in> cell_sessions css \<Longrightarrow> f (sess h' s) = f (sess h s)"
  shows "buckets h' f ps css"
proof -
  have "chain (nodes h') p cs = chain (nodes h) p cs" if "cs \<in> set css" for p cs
    using that assms(2) by (intro chain_cong) force
  then have "list_all2 (chain (nodes h')) ps css"
    using assms(1) unfolding buckets_def list_all2_conv_all_nth by (metis nth_mem)
  moreover have "f (sess h' (snd c)) = i" if "i < length css" "c \<in> set (css ! i)" for i c
    using that assms(1) assms(3) [of "snd c"] nth_in_concat [OF that] by (simp add: buckets_def)
  ultimately show ?thesis by (simp add: buckets_def)
qed

lemma buckets_update:
  assumes b: "buckets h f ps css" and i: "i < length css" and dist: "distinct (map fst (concat css))"
    and new: "chain (nodes h') p' cs'" "\<And>c. c \<in> set cs' \<Longrightarrow> f (sess h' (snd c)) = i"
    and nodes: "\<And>a. a \<in> cells (concat css) \<Longrightarrow> a \<notin> cells (css ! i) \<Longrightarrow> nodes h' a = nodes h a"
    and same: "\<And>s. s \<in> cell_sessions css \<Longrightarrow> f (sess h' s) = f (sess h s)"
  shows "buckets h' f (ps[i := p']) (css[i := cs'])"
proof -
  have len: "length ps = length css"
    using b by (auto simp: buckets_def dest: list_all2_lengthD)
  have other: "chain (nodes h') (ps ! j) (css ! j)" if j: "j < length css" "j \<noteq> i" for j
  proof -
    have "chain (nodes h) (ps ! j) (css ! j)"
      using b j(1) len by (auto simp: buckets_def list_all2_nthD)
    moreover have "nodes h' a = nodes h a" if "a \<in> cells (css ! j)" for a
      using that cells_disjoint [OF dist j(1) i j(2)] nth_mem [OF j(1)] by (intro nodes) auto
    ultimately show ?thesis using chain_cong [of "css ! j"] by metis
  qed
  have "list_all2 (chain (nodes h')) (ps[i := p']) (css[i := cs'])"
    using other new(1) len i by (auto simp: list_all2_conv_all_nth nth_list_update)
  moreover have "f (sess h' (snd c)) = j" if "j < length css" "c \<in> set (css[i := cs'] ! j)" for j c
    using that b new(2) same [of "snd c"] nth_in_concat [OF that(1), of c]
    by (cases "j = i") (auto simp: buckets_def)
  ultimately show ?thesis by (simp add: buckets_def)
qed

section \<open>Lookup\<close>

lemma table_repD:
  assumes "table_rep h t cc sc"
  shows "0 < len t" "len t < 2 ^ 31" "length cc = nat (len t)" "length sc = nat (len t)"
    "length (list_client_key t) = nat (len t)" "length (list_server_key t) = nat (len t)"
    "\<And>i. i < nat (len t) \<Longrightarrow> chain (nodes h) (list_client_key t ! i) (cc ! i)"
    "\<And>i. i < nat (len t) \<Longrightarrow> chain (nodes h) (list_server_key t ! i) (sc ! i)"
    "\<And>i. i < nat (len t) \<Longrightarrow> live_cells h (cc ! i)" "\<And>i. i < nat (len t) \<Longrightarrow> live_cells h (sc ! i)"
proof -
  have b: "list_all2 (chain (nodes h)) (list_client_key t) cc" "list_all2 (chain (nodes h)) (list_server_key t) sc"
    using assms by (auto simp: table_rep_def buckets_def)
  have l: "length (list_client_key t) = nat (len t)" "length (list_server_key t) = nat (len t)"
    using assms by (auto simp: table_rep_def)
  show "0 < len t" "len t < 2 ^ 31" "length cc = nat (len t)" "length sc = nat (len t)"
    "length (list_client_key t) = nat (len t)" "length (list_server_key t) = nat (len t)"
    using assms b l by (auto simp: table_rep_def dest: list_all2_lengthD)
  show "\<And>i. i < nat (len t) \<Longrightarrow> chain (nodes h) (list_client_key t ! i) (cc ! i)"
    "\<And>i. i < nat (len t) \<Longrightarrow> chain (nodes h) (list_server_key t ! i) (sc ! i)"
    using b l by (auto simp: list_all2_nthD)
  have live: "\<forall>s \<in> cell_sessions cc. sessions h s \<noteq> None" "cell_sessions cc = cell_sessions sc"
    using assms unfolding table_rep_def by blast+
  have "length cc = nat (len t)" "length sc = nat (len t)"
    using b l by (auto dest: list_all2_lengthD)
  then show "\<And>i. i < nat (len t) \<Longrightarrow> live_cells h (cc ! i)" "\<And>i. i < nat (len t) \<Longrightarrow> live_cells h (sc ! i)"
    using live nth_in_concat [of _ cc] nth_in_concat [of _ sc] unfolding live_cells_def
    by (metis image_eqI)+
qed

lemma get_by_client_find:
  assumes "table_rep h t cc sc"
  shows "get_tcp_session_by_client h t ip port = Some (map_option snd
    (find (\<lambda>c. client_ip (sess h (snd c)) = ip \<and> client_port (sess h (snd c)) = port)
      (cc ! client_bucket (nat (len t)) ip port)))"
proof -
  note d = table_repD [OF assms]
  have "client_bucket (nat (len t)) ip port < nat (len t)"
    using d(1) by (intro bucket_less) simp
  then show ?thesis
    using d by (simp add: get_tcp_session_by_client_def hash_client_bucket arr_int search_by_client_chain)
qed

lemma get_by_server_find:
  assumes "table_rep h t cc sc"
  shows "get_tcp_session_by_server h t port = Some (map_option snd
    (find (\<lambda>c. server_port (sess h (snd c)) = port) (sc ! server_bucket (nat (len t)) port)))"
proof -
  note d = table_repD [OF assms]
  have "server_bucket (nat (len t)) port < nat (len t)"
    using d(1) by (intro bucket_less) simp
  then show ?thesis
    using d by (simp add: get_tcp_session_by_server_def hash_server_bucket arr_int search_by_server_chain)
qed

text \<open>
  Placement: a session of the table is a cell of the bucket its key selects, and of no other.
\<close>

lemma buckets_in:
  assumes "buckets h f ps css" and "s \<in> cell_sessions css"
  shows "\<exists>c \<in> set (css ! f (sess h s)). snd c = s"
proof -
  obtain cs c where c: "cs \<in> set css" "c \<in> set cs" "snd c = s"
    using assms(2) by auto
  then obtain i where "i < length css" "cs = css ! i"
    by (metis in_set_conv_nth)
  then show ?thesis
    using assms(1) c by (auto simp: buckets_def)
qed

lemma get_by_client_iff:
  assumes rep: "table_rep h t cc sc"
  shows "get_tcp_session_by_client h t ip port = Some (Some s) \<longleftrightarrow>
    s \<in> cell_sessions cc \<and> client_key (sess h s) = (ip, port)"
proof -
  let ?P = "\<lambda>c. client_ip (sess h (snd c)) = ip \<and> client_port (sess h (snd c)) = port"
  let ?cs = "cc ! client_bucket (nat (len t)) ip port"
  note d = table_repD [OF rep]
  have i: "client_bucket (nat (len t)) ip port < length cc"
    using d by (simp add: bucket_less)
  have inj: "inj_on (\<lambda>s. client_key (sess h s)) (cell_sessions cc)"
    and b: "buckets h (\<lambda>x. client_bucket (nat (len t)) (client_ip x) (client_port x)) (list_client_key t) cc"
    using rep unfolding table_rep_def by blast+
  have "snd x = snd y" if "x \<in> set ?cs" "y \<in> set ?cs" "?P x" "?P y" for x y
    using inj_onD [OF inj, of "snd x" "snd y"] that nth_in_concat [OF i] by (auto simp: client_key_def)
  then have "map_option snd (find ?P ?cs) = Some s \<longleftrightarrow> (\<exists>c \<in> set ?cs. ?P c \<and> snd c = s)"
    by (rule find_Some_iff_unique)
  also have "\<dots> \<longleftrightarrow> s \<in> cell_sessions cc \<and> client_key (sess h s) = (ip, port)"
  proof
    assume s: "s \<in> cell_sessions cc \<and> client_key (sess h s) = (ip, port)"
    then have "\<exists>c \<in> set ?cs. snd c = s"
      using buckets_in [OF b, of s] by (simp add: client_key_def)
    with s show "\<exists>c \<in> set ?cs. ?P c \<and> snd c = s"
      by (simp add: client_key_def) metis
  qed (use nth_in_concat [OF i] in \<open>auto simp: client_key_def\<close>)
  finally show ?thesis by (simp add: get_by_client_find [OF rep])
qed

lemma get_by_server_iff:
  assumes rep: "table_rep h t cc sc"
  shows "get_tcp_session_by_server h t port = Some (Some s) \<longleftrightarrow>
    s \<in> cell_sessions cc \<and> server_port (sess h s) = port"
proof -
  let ?P = "\<lambda>c. server_port (sess h (snd c)) = port"
  let ?cs = "sc ! server_bucket (nat (len t)) port"
  note d = table_repD [OF rep]
  have i: "server_bucket (nat (len t)) port < length sc"
    using d by (simp add: bucket_less)
  have same: "cell_sessions cc = cell_sessions sc"
    and inj: "inj_on (\<lambda>s. server_port (sess h s)) (cell_sessions cc)"
    and b: "buckets h (\<lambda>x. server_bucket (nat (len t)) (server_port x)) (list_server_key t) sc"
    using rep unfolding table_rep_def by blast+
  have "snd x = snd y" if "x \<in> set ?cs" "y \<in> set ?cs" "?P x" "?P y" for x y
    using inj_onD [OF inj, of "snd x" "snd y"] that nth_in_concat [OF i] same by auto
  then have "map_option snd (find ?P ?cs) = Some s \<longleftrightarrow> (\<exists>c \<in> set ?cs. ?P c \<and> snd c = s)"
    by (rule find_Some_iff_unique)
  also have "\<dots> \<longleftrightarrow> s \<in> cell_sessions sc \<and> server_port (sess h s) = port"
  proof
    assume s: "s \<in> cell_sessions sc \<and> server_port (sess h s) = port"
    then have "\<exists>c \<in> set ?cs. snd c = s"
      using buckets_in [OF b, of s] by simp
    with s show "\<exists>c \<in> set ?cs. ?P c \<and> snd c = s"
      by metis
  qed (use nth_in_concat [OF i] in auto)
  finally show ?thesis by (simp only: get_by_server_find [OF rep] same option.inject)
qed

lemma get_total:
  assumes "table_rep h t cc sc"
  shows "\<exists>r. get_tcp_session_by_client h t ip port = Some r" "\<exists>r. get_tcp_session_by_server h t p = Some r"
  using get_by_client_find [OF assms] get_by_server_find [OF assms] by auto

section \<open>The search for a free port\<close>

lemma get_by_server_next_num [simp]:
  "get_tcp_session_by_server h (t\<lparr>next_num := n\<rparr>) p = get_tcp_session_by_server h t p"
  by (simp add: get_tcp_session_by_server_def hash_server_def)

lemma port_range_next_num [simp]: "port_range (t\<lparr>next_num := n\<rparr>) = port_range t"
  by (simp add: port_range_def)

lemma find_port_unfold:
  "mod_num t \<noteq> 0 \<Longrightarrow> find_port h t count =
     (case get_tcp_session_by_server h t (next_port t) of
        None \<Rightarrow> None
      | Some None \<Rightarrow> Some (Some (next_port t), t\<lparr>next_num := next_num t + 1\<rparr>)
      | Some (Some _) \<Rightarrow>
          (if count \<ge> 2 ^ 31 - 1 then None
           else if count + 1 > uint (mod_num t) then Some (None, t\<lparr>next_num := next_num t + 1\<rparr>)
           else find_port h (t\<lparr>next_num := next_num t + 1\<rparr>) (count + 1)))"
  by (subst find_port.simps)
    (simp add: Let_def get_tcp_session_by_server_def hash_server_def split: option.splits)

lemma unat_ucast_mod_num: "unat (ucast (m :: u16) :: u32) = unat m"
  using unat_u16_bound [of m] by (simp add: unsigned_ucast_eq take_bit_eq_mod)

lemma next_port_in_range: "mod_num t \<noteq> 0 \<Longrightarrow> next_port t \<in> port_range t"
proof -
  assume "mod_num t \<noteq> 0"
  then have "0 < unat (mod_num t)" by (simp add: unat_gt_0)
  then have "unat (next_num t mod ucast (mod_num t)) < unat (mod_num t)"
    by (simp add: unat_mod unat_ucast_mod_num)
  then show ?thesis by (auto simp: next_port_def port_range_def)
qed

lemma find_port_mod_num: "find_port h t count \<noteq> None \<Longrightarrow> mod_num t \<noteq> 0"
  by (auto simp: find_port.simps)

text \<open>What the loop returns: only \<^verbatim>\<open>next_num\<close> has changed, and a returned port is in range and free.\<close>

lemma find_port_result:
  "find_port h t count = Some (r, t') \<Longrightarrow>
     (\<exists>n. t' = t\<lparr>next_num := n\<rparr>) \<and>
     (\<forall>p. r = Some p \<longrightarrow> p \<in> port_range t \<and> get_tcp_session_by_server h t p = Some None)"
proof (induction "nat (uint (mod_num t) - count)" arbitrary: t count rule: less_induct)
  case less
  let ?t = "t\<lparr>next_num := next_num t + 1\<rparr>"
  have m: "mod_num t \<noteq> 0" using less.prems find_port_mod_num by force
  have IH: "(\<exists>n. t' = t\<lparr>next_num := n\<rparr>) \<and>
      (\<forall>p. r = Some p \<longrightarrow> p \<in> port_range t \<and> get_tcp_session_by_server h t p = Some None)"
    if "find_port h ?t (count + 1) = Some (r, t')" "\<not> uint (mod_num t) < count + 1"
    using less.hyps [of ?t "count + 1"] that by auto
  show ?case
    using less.prems next_port_in_range [OF m] IH
    by (auto simp: find_port_unfold [OF m] split: option.splits if_splits)
qed

text \<open>The loop ends normally, unless its uninitialised counter starts at the largest \<^verbatim>\<open>int\<close>.\<close>

lemma find_port_total:
  assumes "table_rep h t cc sc"
  shows "mod_num t \<noteq> 0 \<Longrightarrow> count < 2 ^ 31 - 1 \<Longrightarrow> \<exists>r. find_port h (t\<lparr>next_num := n\<rparr>) count = Some r"
proof (induction "nat (uint (mod_num t) - count)" arbitrary: count n rule: less_induct)
  case less
  let ?t = "t\<lparr>next_num := n\<rparr>"
  obtain g where "get_tcp_session_by_server h ?t (next_port ?t) = Some g"
    using get_total(2) [OF assms] by auto
  moreover have "\<exists>r. find_port h (?t\<lparr>next_num := n + 1\<rparr>) (count + 1) = Some r"
    if "\<not> uint (mod_num t) < count + 1"
  proof -
    have "uint (mod_num t) < 65536" using uint_bounded [of "mod_num t"] by simp
    then show ?thesis using less.hyps [of "count + 1" "n + 1"] less.prems that by simp
  qed
  ultimately show ?case
    using less.prems by (cases g) (auto simp: find_port_unfold)
qed

text \<open>
  Every port of the range is tried when the counter starts at zero and \<^verbatim>\<open>next_num\<close> does not wrap.
\<close>

lemma find_port_hits:
  assumes rep: "table_rep h t cc sc" and "mod_num t \<noteq> 0"
  shows "0 \<le> count \<Longrightarrow> int k + count \<le> uint (mod_num t) \<Longrightarrow>
    get_tcp_session_by_server h t (next_port (t\<lparr>next_num := n + of_nat k\<rparr>)) = Some None \<Longrightarrow>
    \<exists>p t'. find_port h (t\<lparr>next_num := n\<rparr>) count = Some (Some p, t')"
proof (induction k arbitrary: count n)
  case 0
  then show ?case using assms by (simp add: find_port_unfold)
next
  case (Suc k)
  let ?t = "t\<lparr>next_num := n\<rparr>"
  obtain g where g: "get_tcp_session_by_server h t (next_port ?t) = Some g"
    using get_total(2) [OF rep] by auto
  have "\<exists>p t'. find_port h (?t\<lparr>next_num := n + 1\<rparr>) (count + 1) = Some (Some p, t')"
    using Suc.IH [of "count + 1" "n + 1"] Suc.prems by (simp add: add.assoc)
  moreover have "uint (mod_num t) < 65536" using uint_bounded [of "mod_num t"] by simp
  ultimately show ?case
    using g assms(2) Suc.prems by (cases g) (auto simp: find_port_unfold)
qed

lemma find_port_complete:
  assumes rep: "table_rep h t cc sc" and m: "mod_num t \<noteq> 0"
    and nowrap: "unat (next_num t) + unat (mod_num t) < 2 ^ 32"
    and free: "p \<in> port_range t" "get_tcp_session_by_server h t p = Some None"
  shows "\<exists>q t'. find_port h t 0 = Some (Some q, t')"
proof -
  let ?m = "unat (mod_num t)" and ?n = "unat (next_num t)"
  have pos: "0 < ?m" using m by (simp add: unat_gt_0)
  obtain k :: u32 where k: "p = ucast (k + ucast (min_port t))" "unat k < ?m"
    using free(1) by (auto simp: port_range_def)
  define j where "j = (unat k + (?m - ?n mod ?m)) mod ?m"
  have j: "j < ?m" using pos by (simp add: j_def)
  have "(?n + j) mod ?m = (?n mod ?m + (unat k + (?m - ?n mod ?m))) mod ?m"
    unfolding j_def by (metis mod_add_left_eq mod_add_right_eq)
  also have "?n mod ?m + (unat k + (?m - ?n mod ?m)) = unat k + ?m"
    using pos mod_less_divisor [OF pos, of ?n] by linarith
  finally have res: "(?n + j) mod ?m = unat k" using k(2) by simp
  have "unat (next_num t + of_nat j) = ?n + j"
    using nowrap j by (simp add: unat_add_u32 unat_of_nat_u32)
  then have "unat ((next_num t + of_nat j) mod ucast (mod_num t)) = unat k"
    using res by (simp only: unat_mod unat_ucast_mod_num)
  then have "(next_num t + of_nat j) mod ucast (mod_num t) = k"
    by (simp only: word_unat_eq_iff)
  then have "next_port (t\<lparr>next_num := next_num t + of_nat j\<rparr>) = p"
    by (simp add: next_port_def k(1))
  moreover have "int j + 0 \<le> int ?m" using j by linarith
  ultimately show ?thesis
    using find_port_hits [OF rep m, of 0 j "next_num t"] free(2) by (simp flip: uint_nat)
qed

section \<open>Adding a session\<close>

lemma insert_bucket:
  assumes b: "buckets h f ps css" and i: "i < length css" and dist: "distinct (map fst (concat css))"
    and fresh: "brk h \<notin> cells (concat css)" and s: "f (sess h s) = i"
  shows "\<exists>p' N'. insert_tcp_session h (ps ! i) s = Some (p', h\<lparr>nodes := N', brk := Suc (brk h)\<rparr>) \<and>
    buckets (h\<lparr>nodes := N', brk := Suc (brk h)\<rparr>) f (ps[i := p']) (css[i := css ! i @ [(brk h, s)]]) \<and>
    dom N' = insert (brk h) (dom (nodes h)) \<and>
    (\<forall>a. a \<noteq> brk h \<longrightarrow> a \<notin> cells (css ! i) \<longrightarrow> N' a = nodes h a)"
proof -
  have ch: "chain (nodes h) (ps ! i) (css ! i)"
    using b i by (auto simp: buckets_def list_all2_conv_all_nth)
  have "distinct (map fst (css ! i))"
    using dist i by (rule distinct_nth_concat)
  moreover have "brk h \<notin> cells (css ! i)"
    using fresh nth_in_concat [OF i] by auto
  ultimately obtain p' N' where new: "insert_tcp_session h (ps ! i) s = Some (p', h\<lparr>nodes := N', brk := Suc (brk h)\<rparr>)"
    "chain N' p' (css ! i @ [(brk h, s)])" "dom N' = insert (brk h) (dom (nodes h))"
    "\<forall>a. a \<noteq> brk h \<longrightarrow> a \<notin> cells (css ! i) \<longrightarrow> N' a = nodes h a"
    using insert_tcp_session_chain [OF ch] by metis
  let ?h = "h\<lparr>nodes := N', brk := Suc (brk h)\<rparr>"
  have "buckets ?h f (ps[i := p']) (css[i := css ! i @ [(brk h, s)]])"
  proof (rule buckets_update [OF b i dist])
    show "f (sess ?h (snd c)) = i" if "c \<in> set (css ! i @ [(brk h, s)])" for c
      using that b i s by (auto simp: buckets_def)
    show "nodes ?h a = nodes h a" if "a \<in> cells (concat css)" "a \<notin> cells (css ! i)" for a
    proof -
      have "a \<noteq> brk h" using that(1) fresh by blast
      then show ?thesis using that(2) new(4) by simp
    qed
  qed (use new(2) in auto)
  then show ?thesis using new by blast
qed

text \<open>
  The part of \<^verbatim>\<open>add_tcp_session\<close> after the search: a fresh session for an end point and a port that no
  session of the table has, linked into both arrays.
\<close>

definition new_session :: "u32 \<Rightarrow> u16 \<Rightarrow> u16 \<Rightarrow> int \<Rightarrow> tcp_session" where
  "new_session ip port sport e =
     zero_session\<lparr>client_ip := ip, client_port := port, server_port := sport, expire := e\<rparr>"

definition link_session ::
    "heap \<Rightarrow> session_hash_table \<Rightarrow> tcp_session \<Rightarrow> (ptr \<times> heap \<times> session_hash_table) option" where
  "link_session h t x = (let n = nat (len t); s = brk h;
       i = client_bucket n (client_ip x) (client_port x); j = server_bucket n (server_port x)
     in do {
       (p, h) \<leftarrow> insert_tcp_session
          (h\<lparr>sessions := (sessions h)(s \<mapsto> x), brk := Suc s, times := (\<lambda>k. times h (Suc k))\<rparr>)
          (list_client_key t ! i) s;
       (q, h) \<leftarrow> insert_tcp_session h (list_server_key t ! j) s;
       Some (Some s, h, t\<lparr>list_client_key := (list_client_key t)[i := p],
         list_server_key := (list_server_key t)[j := q]\<rparr>) })"

lemma add_tcp_session_cases:
  assumes rep: "table_rep h t cc sc"
  shows "add_tcp_session count h t ip port timeout =
    (case get_tcp_session_by_client h t ip port of
       None \<Rightarrow> None
     | Some (Some s) \<Rightarrow> Some (Some s, h, t)
     | Some None \<Rightarrow> do {
         (found, t) \<leftarrow> find_port h t count;
         case found of None \<Rightarrow> Some (None, h, t)
         | Some sport \<Rightarrow> link_session h t (new_session ip port sport (time_NULL h + timeout)) })"
proof -
  note d = table_repD [OF rep]
  let ?i = "client_bucket (nat (len t)) ip port"
  have i: "?i < nat (len t)" using d(1) by (intro bucket_less) simp
  have hc: "hash_client t ip port = Some (int ?i)" "arr (list_client_key t) (int ?i) = Some (list_client_key t ! ?i)"
    using hash_client_bucket [OF d(1,2)] arr_int i d(5) by auto
  have link: "(do { hash_s \<leftarrow> hash_server t' sport;
       let (s, h) = calloc_session h;
       let x = zero_session\<lparr>client_ip := ip, client_port := port, server_port := sport,
                 expire := time_NULL h + timeout\<rparr>;
       let h = (tick h)\<lparr>sessions := (sessions h)(s \<mapsto> x)\<rparr>;
       p \<leftarrow> arr (list_client_key t') (int ?i);
       (p, h) \<leftarrow> insert_tcp_session h p s;
       let t = t'\<lparr>list_client_key := (list_client_key t')[nat (int ?i) := p]\<rparr>;
       q \<leftarrow> arr (list_server_key t) hash_s;
       (q, h) \<leftarrow> insert_tcp_session h q s;
       let t = t\<lparr>list_server_key := (list_server_key t)[nat hash_s := q]\<rparr>;
       Some (Some s, h, t) }) = link_session h t' (new_session ip port sport (time_NULL h + timeout))"
    if fp: "find_port h t count = Some (found, t')" for found t' sport
  proof -
    obtain n where t': "t' = t\<lparr>next_num := n\<rparr>" using find_port_result [OF fp] by blast
    have j: "server_bucket (nat (len t)) sport < nat (len t)" using d(1) by (intro bucket_less) simp
    have hs: "hash_server (t\<lparr>next_num := n\<rparr>) sport = Some (int (server_bucket (nat (len t)) sport))"
      "arr (list_server_key t) (int (server_bucket (nat (len t)) sport))
        = Some (list_server_key t ! server_bucket (nat (len t)) sport)"
      using hash_server_bucket [of t' sport] arr_int j d(1,6) by (auto simp: t')
    have h1: "(tick (h\<lparr>sessions := S, brk := b\<rparr>))\<lparr>sessions := S'\<rparr>
        = h\<lparr>sessions := S', brk := b, times := (\<lambda>k. times h (Suc k))\<rparr>" for S S' b
      by (simp add: tick_def)
    show ?thesis
      using hc by (simp add: hs link_session_def calloc_session_def h1 time_NULL_def new_session_def Let_def
          case_prod_unfold t')
  qed
  have "\<exists>g. search_tcp_session_by_client h (list_client_key t ! ?i) ip port = Some g"
    using get_total(1) [OF rep, of ip port] by (simp add: get_tcp_session_by_client_def hc)
  then obtain g where g: "search_tcp_session_by_client h (list_client_key t ! ?i) ip port = Some g" ..
  show ?thesis
  proof (cases g)
    case (Some s)
    then show ?thesis by (simp add: add_tcp_session_def get_tcp_session_by_client_def hc g)
  next
    case None
    show ?thesis
    proof (cases "find_port h t count")
      case (Some y)
      then obtain found t' where fp: "find_port h t count = Some (found, t')"
        by (cases y) auto
      show ?thesis
        by (cases found)
          (simp_all only: add_tcp_session_def get_tcp_session_by_client_def hc g None fp link [OF fp]
            bind.bind_lunit option.case prod.case)
    qed (simp add: add_tcp_session_def get_tcp_session_by_client_def hc g None)
  qed
qed

text \<open>The heap holds the cells and the sessions of the table and nothing else.\<close>

definition owned :: "heap \<Rightarrow> (addr \<times> addr) list list \<Rightarrow> (addr \<times> addr) list list \<Rightarrow> bool" where
  "owned h cc sc \<longleftrightarrow> dom (nodes h) = cells (concat cc) \<union> cells (concat sc) \<and> dom (sessions h) = cell_sessions cc"

end
