(* ===== verification/Nat_Table.thy ===== *)
theory Nat_Table
  imports Session_Table
begin

text \<open>
  What the operations of \<^verbatim>\<open>src/src/lib/session_struct.c\<close> that change the session hash table do to
  it: adding a session links it into both arrays and keeps the invariant, removing the expired
  sessions keeps exactly the live ones, and deleting the table frees every cell and session once.

  The locales \<open>nat_table\<close> and \<open>nat_allocator\<close> are the interface the packet handlers rely on: a
  relation between client end points and server ports that is one to one, and an operation
  that extends it. They are interpreted on the hash table.
\<close>

section \<open>Linking a new session\<close>

lemma table_rep_next_num [simp]: "table_rep h (t\<lparr>next_num := n\<rparr>) cc sc = table_rep h t cc sc"
  by (simp add: table_rep_def)

lemma get_by_client_next_num [simp]:
  "get_tcp_session_by_client h (t\<lparr>next_num := n\<rparr>) ip port = get_tcp_session_by_client h t ip port"
  by (simp add: get_tcp_session_by_client_def hash_client_def)

lemma lists_sel:
  "port_range (t\<lparr>list_client_key := ps, list_server_key := qs\<rparr>) = port_range t"
  "len (t\<lparr>list_client_key := ps, list_server_key := qs\<rparr>) = len t"
  "list_client_key (t\<lparr>list_client_key := ps, list_server_key := qs\<rparr>) = ps"
  "list_server_key (t\<lparr>list_client_key := ps, list_server_key := qs\<rparr>) = qs"
  by (simp_all add: port_range_def)

text \<open>The conjuncts of the invariant that the proofs below take apart.\<close>

lemma table_rep_parts:
  assumes "table_rep h t cc sc"
  shows "buckets h (\<lambda>x. client_bucket (nat (len t)) (client_ip x) (client_port x)) (list_client_key t) cc"
    "buckets h (\<lambda>x. server_bucket (nat (len t)) (server_port x)) (list_server_key t) sc"
    "distinct (map fst (concat cc))" "distinct (map fst (concat sc))"
    "cells (concat cc) \<inter> cells (concat sc) = {}"
    "distinct (map snd (concat cc))" "distinct (map snd (concat sc))"
    "cell_sessions cc = cell_sessions sc"
    "\<And>s. s \<in> cell_sessions cc \<Longrightarrow> sessions h s \<noteq> None"
    "\<And>s. s \<in> cell_sessions cc \<Longrightarrow> server_port (sess h s) \<in> port_range t"
    "inj_on (\<lambda>s. client_key (sess h s)) (cell_sessions cc)"
    "inj_on (\<lambda>s. server_port (sess h s)) (cell_sessions cc)"
    "\<And>a. nodes h a \<noteq> None \<Longrightarrow> a < brk h" "\<And>s. sessions h s \<noteq> None \<Longrightarrow> s < brk h"
  using assms unfolding table_rep_def map_append distinct_append set_map by blast+

text \<open>A cell of a table lies below the allocation bound, and so does a session.\<close>

lemma buckets_allocated:
  assumes "buckets h f ps css" and "a \<in> cells (concat css)"
  shows "nodes h a \<noteq> None"
proof -
  obtain cs where cs: "cs \<in> set css" "a \<in> cells cs" using assms(2) by auto
  then obtain p where "chain (nodes h) p cs"
    using assms(1) unfolding buckets_def by (metis in_set_conv_nth list_all2_conv_all_nth)
  then show ?thesis using chain_allocated cs(2) by fastforce
qed

lemma table_cells_below:
  assumes "table_rep h t cc sc" and "a \<in> cells (concat cc) \<union> cells (concat sc)"
  shows "a < brk h"
  using table_rep_parts(1,2,13) [OF assms(1)] buckets_allocated assms(2) by blast

lemma table_fresh:
  assumes "table_rep h t cc sc" and "brk h \<le> a"
  shows "a \<notin> cells (concat cc)" "a \<notin> cells (concat sc)"
  using table_cells_below [OF assms(1)] assms(2) by (meson UnI1 UnI2 linorder_not_less)+

lemma table_sessions_below:
  assumes "table_rep h t cc sc" and "s \<in> cell_sessions cc"
  shows "s < brk h"
  using table_rep_parts(9,14) [OF assms(1)] assms(2) by blast

lemma no_session_iff:
  assumes "table_rep h t cc sc"
  shows "get_tcp_session_by_client h t ip port = Some None \<longleftrightarrow>
      (ip, port) \<notin> (\<lambda>s. client_key (sess h s)) ` cell_sessions cc"
    and "get_tcp_session_by_server h t p = Some None \<longleftrightarrow>
      p \<notin> (\<lambda>s. server_port (sess h s)) ` cell_sessions cc"
proof -
  have "r = Some None \<longleftrightarrow> (\<forall>s. r \<noteq> Some (Some s))" if "\<exists>x. r = Some x" for r :: "'a option option"
    using that by (metis not_None_eq option.inject option.distinct(1))
  note * = this
  have image: "v \<notin> f ` S \<longleftrightarrow> (\<forall>s. \<not> (s \<in> S \<and> f s = v))" for v :: 'b and f :: "'c \<Rightarrow> 'b" and S by auto
  show "get_tcp_session_by_client h t ip port = Some None \<longleftrightarrow>
      (ip, port) \<notin> (\<lambda>s. client_key (sess h s)) ` cell_sessions cc"
    unfolding * [OF get_total(1) [OF assms]] get_by_client_iff [OF assms] image ..
  show "get_tcp_session_by_server h t p = Some None \<longleftrightarrow>
      p \<notin> (\<lambda>s. server_port (sess h s)) ` cell_sessions cc"
    unfolding * [OF get_total(2) [OF assms]] get_by_server_iff [OF assms] image ..
qed

text \<open>
  Linking a session: both arrays get one cell behind the last one of a bucket.
\<close>

definition linked_heap :: "heap \<Rightarrow> tcp_session \<Rightarrow> (addr \<Rightarrow> session_linked_list option) \<Rightarrow> nat \<Rightarrow> heap" where
  "linked_heap h x N k = h\<lparr>nodes := N, sessions := (sessions h)(brk h \<mapsto> x), brk := brk h + k,
     times := (\<lambda>k. times h (Suc k))\<rparr>"

lemma linked_heap_sel [simp]:
  "nodes (linked_heap h x N k) = N" "sessions (linked_heap h x N k) = (sessions h)(brk h \<mapsto> x)"
  "brk (linked_heap h x N k) = brk h + k" "times (linked_heap h x N k) = (\<lambda>k. times h (Suc k))"
  by (simp_all add: linked_heap_def)

lemma linked_heap_alloc:
  "(linked_heap h x N k)\<lparr>nodes := N', brk := Suc (brk (linked_heap h x N k))\<rparr> = linked_heap h x N' (Suc k)"
  by (simp add: linked_heap_def)

lemma link_session_run:
  fixes x :: tcp_session
  assumes rep: "table_rep h t cc sc"
  defines "i \<equiv> client_bucket (nat (len t)) (client_ip x) (client_port x)"
    and "j \<equiv> server_bucket (nat (len t)) (server_port x)" and "s \<equiv> brk h"
  shows "\<exists>p q N. link_session h t x = Some (Some s, linked_heap h x N 3,
      t\<lparr>list_client_key := (list_client_key t)[i := p], list_server_key := (list_server_key t)[j := q]\<rparr>) \<and>
    buckets (linked_heap h x N 3) (\<lambda>x. client_bucket (nat (len t)) (client_ip x) (client_port x))
      ((list_client_key t)[i := p]) (cc[i := cc ! i @ [(Suc s, s)]]) \<and>
    buckets (linked_heap h x N 3) (\<lambda>x. server_bucket (nat (len t)) (server_port x))
      ((list_server_key t)[j := q]) (sc[j := sc ! j @ [(Suc (Suc s), s)]]) \<and>
    dom N = dom (nodes h) \<union> {Suc s, Suc (Suc s)}"
proof -
  note d = table_repD [OF rep] and parts = table_rep_parts [OF rep]
  let ?n = "nat (len t)" and ?h = "linked_heap h x"
  let ?fc = "\<lambda>x. client_bucket ?n (client_ip x) (client_port x)" and ?fs = "\<lambda>x. server_bucket ?n (server_port x)"
  have i: "i < length cc" and j: "j < length sc" using d by (simp_all add: bucket_less i_def j_def)
  have old: "sessions (?h N k) u = sessions h u" if "u \<in> cell_sessions cc" for u N k
    using table_sessions_below [OF rep that] by simp
  have below: "a < s" if "a \<in> cells (concat cc) \<union> cells (concat sc)" for a
    using table_cells_below [OF rep that] by (simp add: s_def)
  have sub: "cells (cc ! i) \<subseteq> cells (concat cc)" "cells (sc ! j) \<subseteq> cells (concat sc)"
    using nth_in_concat [OF i] nth_in_concat [OF j] by blast+
  have fresh: "brk (?h (nodes h) 1) \<notin> cells (concat cc)" "brk (?h N 2) \<notin> cells (concat sc)" for N
    using table_fresh [OF rep] by (simp_all only: linked_heap_sel le_add1 not_False_eq_True)
  have b0: "buckets (?h (nodes h) 1) ?fc (list_client_key t) cc" "buckets (?h (nodes h) 1) ?fs (list_server_key t) sc"
    by (rule buckets_frame [OF parts(1)], simp, simp only: old,
      rule buckets_frame [OF parts(2)], simp, simp only: old parts(8))
  obtain p N1 where ins1: "insert_tcp_session (?h (nodes h) 1) (list_client_key t ! i) s = Some (p, ?h N1 2)"
    and N1: "buckets (?h N1 2) ?fc ((list_client_key t)[i := p]) (cc[i := cc ! i @ [(Suc s, s)]])"
      "dom N1 = insert (Suc s) (dom (nodes h))" "\<forall>a. a \<noteq> Suc s \<longrightarrow> a \<notin> cells (cc ! i) \<longrightarrow> N1 a = nodes h a"
    using insert_bucket [OF b0(1) i parts(3) fresh(1), of s, unfolded linked_heap_alloc]
    by (auto simp: i_def s_def numeral_2_eq_2)
  have b1: "buckets (?h N1 2) ?fs (list_server_key t) sc"
  proof (rule buckets_frame [OF b0(2)])
    fix a assume a: "a \<in> cells (concat sc)"
    then have "a \<notin> cells (cc ! i)" using parts(5) sub(1) unfolding disjoint_iff subset_iff by metis
    moreover have "a \<noteq> Suc s" using below [OF UnI2 [OF a]] by simp
    ultimately show "nodes (?h N1 2) a = nodes (?h (nodes h) 1) a" using N1(3) by simp
  qed simp
  obtain q N2 where ins2: "insert_tcp_session (?h N1 2) (list_server_key t ! j) s = Some (q, ?h N2 3)"
    and N2: "buckets (?h N2 3) ?fs ((list_server_key t)[j := q]) (sc[j := sc ! j @ [(Suc (Suc s), s)]])"
      "dom N2 = insert (Suc (Suc s)) (dom N1)" "\<forall>a. a \<noteq> Suc (Suc s) \<longrightarrow> a \<notin> cells (sc ! j) \<longrightarrow> N2 a = N1 a"
    using insert_bucket [OF b1 j parts(4) fresh(2), of s, unfolded linked_heap_alloc]
    by (auto simp: j_def s_def numeral_3_eq_3)
  have b2: "buckets (?h N2 3) ?fc ((list_client_key t)[i := p]) (cc[i := cc ! i @ [(Suc s, s)]])"
  proof (rule buckets_frame [OF N1(1)])
    fix a assume "a \<in> cells (concat (cc[i := cc ! i @ [(Suc s, s)]]))"
    then consider "a = Suc s" | "a \<in> cells (concat cc)" by (auto simp only: set_concat_snoc [OF i] fst_conv)
    then have "a \<noteq> Suc (Suc s) \<and> a \<notin> cells (sc ! j)"
    proof cases
      case 1
      then have "a \<notin> cells (concat sc)" using table_fresh(2) [OF rep, of a] by (simp only: s_def le_SucI le_refl not_False_eq_True)
      then have "a \<notin> cells (sc ! j)" using sub(2) unfolding subset_iff by metis
      then show ?thesis using 1 by simp
    next
      case 2
      then have "a \<notin> cells (sc ! j)" using parts(5) sub(2) unfolding disjoint_iff subset_iff by metis
      then show ?thesis using below [OF UnI1 [OF 2]] by simp
    qed
    then show "nodes (?h N2 3) a = nodes (?h N1 2) a" using N2(3) by simp
  qed simp
  have run: "link_session h t x = Some (Some s, ?h N2 3,
      t\<lparr>list_client_key := (list_client_key t)[i := p], list_server_key := (list_server_key t)[j := q]\<rparr>)"
    using ins1 ins2 by (simp add: link_session_def Let_def linked_heap_def i_def j_def s_def)
  have dom: "dom N2 = dom (nodes h) \<union> {Suc s, Suc (Suc s)}" using N2(2) N1(2) by auto
  show ?thesis by (intro exI conjI) (rule run, rule b2, rule N2(1), rule dom)
qed

text \<open>
  When the session has a new end point and a free port, the table stays well-formed and has that session more.
\<close>

lemma linked_table_rep:
  assumes rep: "table_rep h t cc sc" and range: "server_port x \<in> port_range t"
    and free: "client_key x \<notin> (\<lambda>s. client_key (sess h s)) ` cell_sessions cc"
      "server_port x \<notin> (\<lambda>s. server_port (sess h s)) ` cell_sessions cc"
    and i: "i < length cc" and j: "j < length sc"
    and b: "buckets (linked_heap h x N 3) (\<lambda>x. client_bucket (nat (len t)) (client_ip x) (client_port x))
        ps (cc[i := cc ! i @ [(Suc (brk h), brk h)]])"
      "buckets (linked_heap h x N 3) (\<lambda>x. server_bucket (nat (len t)) (server_port x))
        qs (sc[j := sc ! j @ [(Suc (Suc (brk h)), brk h)]])"
    and dom: "dom N = dom (nodes h) \<union> {Suc (brk h), Suc (Suc (brk h))}"
  shows "table_rep (linked_heap h x N 3) (t\<lparr>list_client_key := ps, list_server_key := qs\<rparr>)
      (cc[i := cc ! i @ [(Suc (brk h), brk h)]]) (sc[j := sc ! j @ [(Suc (Suc (brk h)), brk h)]])"
    and "cell_sessions (cc[i := cc ! i @ [(Suc (brk h), brk h)]]) = insert (brk h) (cell_sessions cc)"
    and "owned h cc sc \<Longrightarrow> owned (linked_heap h x N 3)
      (cc[i := cc ! i @ [(Suc (brk h), brk h)]]) (sc[j := sc ! j @ [(Suc (Suc (brk h)), brk h)]])"
proof -
  note d = table_repD [OF rep] and parts = table_rep_parts [OF rep]
  let ?s = "brk h" and ?h = "linked_heap h x N 3"
  let ?cc = "cc[i := cc ! i @ [(Suc ?s, ?s)]]" and ?sc = "sc[j := sc ! j @ [(Suc (Suc ?s), ?s)]]"
  have old: "s \<noteq> ?s" if "s \<in> cell_sessions cc" for s
    using table_sessions_below [OF rep that] by simp
  have below: "Suc ?s \<notin> cells (concat css)" "Suc (Suc ?s) \<notin> cells (concat css)" if "css \<in> {cc, sc}" for css
    using table_fresh [OF rep, of "Suc ?s"] table_fresh [OF rep, of "Suc (Suc ?s)"] that
    by (metis empty_iff insert_iff le_SucI le_refl)+
  have cs: "cell_sessions ?cc = insert ?s (cell_sessions cc)" "cell_sessions ?sc = insert ?s (cell_sessions sc)"
    by (simp_all only: set_concat_snoc [OF i] set_concat_snoc [OF j] image_insert snd_conv)
  have cl: "cells (concat ?cc) = insert (Suc ?s) (cells (concat cc))"
    "cells (concat ?sc) = insert (Suc (Suc ?s)) (cells (concat sc))"
    by (simp_all only: set_concat_snoc [OF i] set_concat_snoc [OF j] image_insert fst_conv)
  have dist: "distinct (map fst (concat ?cc @ concat ?sc))"
    using parts(3-5) below cl
    unfolding map_append distinct_append set_map distinct_concat_snoc [OF i] distinct_concat_snoc [OF j]
    by simp
  have dist2: "distinct (map snd (concat ?cc))" "distinct (map snd (concat ?sc))"
    using parts(6,7) old parts(8) unfolding distinct_concat_snoc [OF i] distinct_concat_snoc [OF j] by auto
  have lens: "length ps = nat (len t)" "length qs = nat (len t)"
    using b d(3,4) by (auto simp: buckets_def dest!: list_all2_lengthD)
  have inj1: "inj_on (\<lambda>s. client_key (sess ?h s)) (insert ?s (cell_sessions cc))"
    by (rule inj_on_insert_cong [OF parts(11)]) (use old free in \<open>simp_all del: set_concat\<close>)
  have inj2: "inj_on (\<lambda>s. server_port (sess ?h s)) (insert ?s (cell_sessions cc))"
    by (rule inj_on_insert_cong [OF parts(12)]) (use old free in \<open>simp_all del: set_concat\<close>)
  have live: "\<forall>s \<in> insert ?s (cell_sessions cc). sessions ?h s \<noteq> None \<and> server_port (sess ?h s) \<in> port_range t"
    using parts(9,10) range by (simp del: set_concat)
  have ba: "a < ?s + 3" if "N a \<noteq> None" for a
  proof -
    have "a \<in> dom (nodes h) \<union> {Suc ?s, Suc (Suc ?s)}" using that dom by blast
    then show ?thesis using parts(13) [of a] by auto
  qed
  have bs: "s < ?s + 3" if "sessions ?h s \<noteq> None" for s
    using that parts(14) [of s] by (auto split: if_splits)
  have same: "insert ?s (cell_sessions cc) = insert ?s (cell_sessions sc)" by (simp only: parts(8))
  show "table_rep ?h (t\<lparr>list_client_key := ps, list_server_key := qs\<rparr>) ?cc ?sc"
    unfolding table_rep_def lists_sel cs
    by (intro conjI allI impI; (rule d(1) d(2) lens b dist dist2 same live inj1 inj2)?)
      (use ba bs in \<open>simp_all only: linked_heap_sel\<close>)
  show "cell_sessions ?cc = insert ?s (cell_sessions cc)" by (rule cs(1))
  assume own: "owned h cc sc"
  then have own': "dom (nodes h) = cells (concat cc) \<union> cells (concat sc)" "dom (sessions h) = cell_sessions cc"
    unfolding owned_def by blast+
  have "A \<union> B \<union> {a, b} = insert a A \<union> insert b B" for a b :: addr and A B by blast
  then show "owned ?h ?cc ?sc"
    unfolding owned_def linked_heap_sel cl cs(1) dom own' dom_fun_upd by (simp only: option.distinct if_False)
qed

lemma link_session_rep:
  assumes rep: "table_rep h t cc sc" and range: "server_port x \<in> port_range t"
    and free: "get_tcp_session_by_client h t (client_ip x) (client_port x) = Some None"
      "get_tcp_session_by_server h t (server_port x) = Some None"
  shows "\<exists>h' t' cc' sc'. link_session h t x = Some (Some (brk h), h', t') \<and> table_rep h' t' cc' sc' \<and>
    cell_sessions cc' = insert (brk h) (cell_sessions cc) \<and>
    sessions h' = (sessions h)(brk h \<mapsto> x) \<and> times h' = (\<lambda>k. times h (Suc k)) \<and>
    port_range t' = port_range t \<and> mod_num t' = mod_num t \<and> (owned h cc sc \<longrightarrow> owned h' cc' sc')"
proof -
  note d = table_repD [OF rep]
  have "client_key x \<notin> (\<lambda>s. client_key (sess h s)) ` cell_sessions cc"
    "server_port x \<notin> (\<lambda>s. server_port (sess h s)) ` cell_sessions cc"
    using free by (simp_all only: no_session_iff [OF rep] client_key_def not_False_eq_True)
  note linked = linked_table_rep [OF rep range this]
  obtain p q N where run: "link_session h t x = Some (Some (brk h), linked_heap h x N 3, t\<lparr>list_client_key :=
        (list_client_key t)[client_bucket (nat (len t)) (client_ip x) (client_port x) := p],
      list_server_key := (list_server_key t)[server_bucket (nat (len t)) (server_port x) := q]\<rparr>)"
    and b: "buckets (linked_heap h x N 3) (\<lambda>x. client_bucket (nat (len t)) (client_ip x) (client_port x))
      ((list_client_key t)[client_bucket (nat (len t)) (client_ip x) (client_port x) := p])
      (cc[client_bucket (nat (len t)) (client_ip x) (client_port x) :=
        cc ! client_bucket (nat (len t)) (client_ip x) (client_port x) @ [(Suc (brk h), brk h)]])"
      "buckets (linked_heap h x N 3) (\<lambda>x. server_bucket (nat (len t)) (server_port x))
      ((list_server_key t)[server_bucket (nat (len t)) (server_port x) := q])
      (sc[server_bucket (nat (len t)) (server_port x) :=
        sc ! server_bucket (nat (len t)) (server_port x) @ [(Suc (Suc (brk h)), brk h)]])"
      "dom N = dom (nodes h) \<union> {Suc (brk h), Suc (Suc (brk h))}"
    using link_session_run [OF rep, of x] by blast
  have "client_bucket (nat (len t)) (client_ip x) (client_port x) < length cc"
    "server_bucket (nat (len t)) (server_port x) < length sc"
    using d by (simp_all add: bucket_less)
  note rep' = linked [OF this b]
  show ?thesis
    by (rule exI, rule exI, rule exI, rule exI, rule conjI, rule run, rule conjI, rule rep'(1))
      (use rep'(3) in \<open>simp add: rep'(2) lists_sel del: set_concat\<close>)
qed

section \<open>Adding a session\<close>

text \<open>The three ways \<^verbatim>\<open>add_tcp_session\<close> returns.\<close>

lemma add_tcp_session_elim:
  assumes rep: "table_rep h t cc sc" and run: "add_tcp_session count h t ip port timeout = Some (r, h', t')"
  obtains (existing) s where "r = Some s" "h' = h" "t' = t" "get_tcp_session_by_client h t ip port = Some (Some s)"
  | (no_port) n where "r = None" "h' = h" "t' = t\<lparr>next_num := n\<rparr>" "get_tcp_session_by_client h t ip port = Some None"
  | (created) p cc' sc' where "r = Some (brk h)" "get_tcp_session_by_client h t ip port = Some None"
      "p \<in> port_range t" "get_tcp_session_by_server h t p = Some None"
      "table_rep h' t' cc' sc'" "cell_sessions cc' = insert (brk h) (cell_sessions cc)"
      "sessions h' = (sessions h)(brk h \<mapsto> new_session ip port p (time_NULL h + timeout))"
      "times h' = (\<lambda>k. times h (Suc k))" "port_range t' = port_range t" "mod_num t' = mod_num t"
      "owned h cc sc \<Longrightarrow> owned h' cc' sc'"
proof (cases "get_tcp_session_by_client h t ip port")
  case None
  then show ?thesis using get_total(1) [OF rep, of ip port] by simp
next
  case (Some g)
  note found = Some
  show ?thesis
  proof (cases g)
    case (Some s)
    then show ?thesis
      using existing [of s] run found by (simp add: add_tcp_session_cases [OF rep])
  next
    case None
    then obtain f u where fp: "find_port h t count = Some (f, u)"
      using run found by (auto simp: add_tcp_session_cases [OF rep] bind_eq_Some_conv)
    then obtain n where u: "u = t\<lparr>next_num := n\<rparr>"
      and free: "\<And>p. f = Some p \<Longrightarrow> p \<in> port_range t \<and> get_tcp_session_by_server h t p = Some None"
      using find_port_result [OF fp] by blast
    show ?thesis
    proof (cases f)
      case None
      then show ?thesis
        using no_port [of n] run found \<open>g = None\<close> fp u by (simp add: add_tcp_session_cases [OF rep])
    next
      case (Some p)
      let ?x = "new_session ip port p (time_NULL h + timeout)"
      have x: "client_ip ?x = ip" "client_port ?x = port" "server_port ?x = p"
        by (simp_all add: new_session_def)
      have link: "link_session h u ?x = Some (r, h', t')"
        using run found \<open>g = None\<close> fp Some by (simp add: add_tcp_session_cases [OF rep])
      obtain h2 t2 cc' sc' where "link_session h u ?x = Some (Some (brk h), h2, t2)" "table_rep h2 t2 cc' sc'"
        "cell_sessions cc' = insert (brk h) (cell_sessions cc)" "sessions h2 = (sessions h)(brk h \<mapsto> ?x)"
        "times h2 = (\<lambda>k. times h (Suc k))" "port_range t2 = port_range t" "mod_num t2 = mod_num t"
        "owned h cc sc \<longrightarrow> owned h2 cc' sc'"
        using link_session_rep [of h u cc sc ?x] rep free [OF Some] found \<open>g = None\<close>
        by (auto simp: u x simp del: set_concat)
      then show ?thesis
        using created [of p cc' sc'] link free [OF Some] found \<open>g = None\<close> by (simp del: set_concat)
    qed
  qed
qed

lemma add_tcp_session_total:
  assumes rep: "table_rep h t cc sc" and "mod_num t \<noteq> 0" and "count < 2 ^ 31 - 1"
  shows "\<exists>y. add_tcp_session count h t ip port timeout = Some y"
proof -
  obtain g where g: "get_tcp_session_by_client h t ip port = Some g"
    using get_total(1) [OF rep] by blast
  obtain f u where fp: "find_port h t count = Some (f, u)"
    using find_port_total [OF rep assms(2,3), of "next_num t"] by auto
  then obtain n where u: "u = t\<lparr>next_num := n\<rparr>"
    and free: "\<And>p. f = Some p \<Longrightarrow> p \<in> port_range t \<and> get_tcp_session_by_server h t p = Some None"
    using find_port_result [OF fp] by blast
  have "\<exists>y. link_session h u (new_session ip port p e) = Some y" if "f = Some p" "g = None" for p e
    using link_session_rep [of h u cc sc "new_session ip port p e"] rep free [OF that(1)] g that(2)
    by (auto simp: u new_session_def simp del: set_concat)
  then show ?thesis
    using g fp by (cases g; cases f) (simp_all add: add_tcp_session_cases [OF rep])
qed

text \<open>When the first candidate is free it is taken, whatever the counter holds.\<close>

lemma add_tcp_session_first:
  assumes rep: "table_rep h t cc sc" and "mod_num t \<noteq> 0" and none: "get_tcp_session_by_client h t ip port = Some None"
    and free: "get_tcp_session_by_server h t (next_port t) = Some None"
  shows "\<exists>h' t' cc' sc'. add_tcp_session count h t ip port timeout = Some (Some (brk h), h', t') \<and> table_rep h' t' cc' sc' \<and>
    cell_sessions cc' = insert (brk h) (cell_sessions cc) \<and>
    sessions h' = (sessions h)(brk h \<mapsto> new_session ip port (next_port t) (time_NULL h + timeout)) \<and>
    times h' = (\<lambda>k. times h (Suc k)) \<and> mod_num t' = mod_num t \<and> (owned h cc sc \<longrightarrow> owned h' cc' sc')"
proof -
  let ?u = "t\<lparr>next_num := next_num t + 1\<rparr>" and ?x = "new_session ip port (next_port t) (time_NULL h + timeout)"
  have x: "client_ip ?x = ip" "client_port ?x = port" "server_port ?x = next_port t" by (simp_all add: new_session_def)
  have "find_port h t count = Some (Some (next_port t), ?u)" using free by (simp add: find_port_unfold [OF assms(2)])
  then have "add_tcp_session count h t ip port timeout = link_session h ?u ?x"
    using none by (simp add: add_tcp_session_cases [OF rep])
  then show ?thesis
    using link_session_rep [of h ?u cc sc ?x] rep none free next_port_in_range [OF assms(2)]
    by (auto simp: x simp del: set_concat)
qed

lemma add_tcp_session_complete:
  assumes rep: "table_rep h t cc sc" and "mod_num t \<noteq> 0" and "unat (next_num t) + unat (mod_num t) < 2 ^ 32"
    and "p \<in> port_range t" and "get_tcp_session_by_server h t p = Some None"
  shows "\<exists>s h' t'. add_tcp_session 0 h t ip port timeout = Some (Some s, h', t')"
proof -
  obtain r h' t' where run: "add_tcp_session 0 h t ip port timeout = Some (r, h', t')"
    using add_tcp_session_total [OF rep assms(2), of 0 ip port timeout] by auto
  obtain q u where "find_port h t 0 = Some (Some q, u)"
    using find_port_complete [OF assms] by blast
  then have "r \<noteq> None"
    using run
    by (auto simp: add_tcp_session_cases [OF rep] link_session_def Let_def bind_eq_Some_conv split: option.splits)
  then show ?thesis using run by blast
qed

section \<open>Initial table, clock and writes to a session\<close>

lemma init_hash_table_rep:
  assumes "0 < n" and "n < 2 ^ 31"
    and "\<And>a. nodes h a \<noteq> None \<Longrightarrow> a < brk h" and "\<And>s. sessions h s \<noteq> None \<Longrightarrow> s < brk h"
  shows "table_rep h (init_hash_table n lo hi) (replicate (nat n) []) (replicate (nat n) [])"
  using assms by (simp add: table_rep_def init_hash_table_def buckets_def list_all2_conv_all_nth)

lemma table_rep_tick [simp]: "table_rep (tick h) t cc sc = table_rep h t cc sc"
  by (simp add: table_rep_def buckets_def tick_def)

text \<open>
  The packet handlers write the state fields of a session they looked up. The keys of the session stay,
  and so does everything the table relies on.
\<close>

definition put_session :: "heap \<Rightarrow> addr \<Rightarrow> tcp_session \<Rightarrow> heap" where
  "put_session h s x = h\<lparr>sessions := (sessions h)(s \<mapsto> x)\<rparr>"

definition same_keys :: "tcp_session \<Rightarrow> tcp_session \<Rightarrow> bool" where
  "same_keys x y \<longleftrightarrow> client_ip x = client_ip y \<and> client_port x = client_port y \<and> server_port x = server_port y"

lemma table_rep_put_session:
  assumes rep: "table_rep h t cc sc" and x: "sessions h s = Some y" "same_keys x y"
  shows "table_rep (put_session h s x) t cc sc"
proof -
  note parts = table_rep_parts [OF rep]
  let ?h = "put_session h s x"
  have keys: "client_ip (sess ?h u) = client_ip (sess h u)" "client_port (sess ?h u) = client_port (sess h u)"
    "server_port (sess ?h u) = server_port (sess h u)" for u
    using x by (auto simp: put_session_def same_keys_def)
  have none: "sessions ?h u = None \<longleftrightarrow> sessions h u = None" for u
    using x by (simp add: put_session_def)
  have simps: "nodes ?h = nodes h" "brk ?h = brk h" by (simp_all add: put_session_def)
  show ?thesis
    using rep unfolding table_rep_def buckets_def client_key_def keys none simps .
qed

lemma owned_put_session:
  assumes "owned h cc sc" and "sessions h s = Some y"
  shows "owned (put_session h s x) cc sc"
proof -
  have "dom (sessions (put_session h s x)) = dom (sessions h)" using assms(2) by (auto simp: put_session_def)
  moreover have "nodes (put_session h s x) = nodes h" by (simp add: put_session_def)
  ultimately show ?thesis using assms(1) unfolding owned_def by simp
qed

lemma owned_tick [simp]: "owned (tick h) cc sc = owned h cc sc"
  by (simp add: owned_def tick_def)

lemma lookup_tick [simp]:
  assumes "table_rep h t cc sc"
  shows "get_tcp_session_by_client (tick h) t ip port = get_tcp_session_by_client h t ip port"
    "get_tcp_session_by_server (tick h) t p = get_tcp_session_by_server h t p"
proof -
  have "table_rep (tick h) t cc sc" using assms by simp
  then show "get_tcp_session_by_client (tick h) t ip port = get_tcp_session_by_client h t ip port"
    "get_tcp_session_by_server (tick h) t p = get_tcp_session_by_server h t p"
    using assms by (simp_all add: get_by_client_find get_by_server_find, simp_all add: tick_def)
qed

lemma lookup_put_session:
  assumes rep: "table_rep h t cc sc" and x: "sessions h s = Some y" "same_keys x y"
  shows "get_tcp_session_by_client (put_session h s x) t ip port = get_tcp_session_by_client h t ip port"
    "get_tcp_session_by_server (put_session h s x) t p = get_tcp_session_by_server h t p"
proof -
  have keys: "client_ip (sess (put_session h s x) u) = client_ip (sess h u)"
    "client_port (sess (put_session h s x) u) = client_port (sess h u)"
    "server_port (sess (put_session h s x) u) = server_port (sess h u)" for u
    using x by (auto simp: put_session_def same_keys_def)
  show "get_tcp_session_by_client (put_session h s x) t ip port = get_tcp_session_by_client h t ip port"
    "get_tcp_session_by_server (put_session h s x) t p = get_tcp_session_by_server h t p"
    using rep table_rep_put_session [OF assms] by (simp_all only: get_by_client_find get_by_server_find keys)
qed

section \<open>The interface of the packet handlers\<close>

text \<open>
  A translation table: both lookups always return, they find only sessions with the key asked for,
  and a session is found by its client end point just when it is found by its server port.
\<close>

locale nat_table =
  fixes inv :: "'s \<Rightarrow> bool"
    and by_client :: "'s \<Rightarrow> u32 \<Rightarrow> u16 \<Rightarrow> ptr option"
    and by_server :: "'s \<Rightarrow> u16 \<Rightarrow> ptr option"
    and session_at :: "'s \<Rightarrow> addr \<Rightarrow> tcp_session option"
  assumes client_total: "inv \<sigma> \<Longrightarrow> \<exists>r. by_client \<sigma> ip port = Some r"
    and server_total: "inv \<sigma> \<Longrightarrow> \<exists>r. by_server \<sigma> p = Some r"
    and client_sound: "inv \<sigma> \<Longrightarrow> by_client \<sigma> ip port = Some (Some s) \<Longrightarrow>
      \<exists>x. session_at \<sigma> s = Some x \<and> client_ip x = ip \<and> client_port x = port"
    and server_sound: "inv \<sigma> \<Longrightarrow> by_server \<sigma> p = Some (Some s) \<Longrightarrow>
      \<exists>x. session_at \<sigma> s = Some x \<and> server_port x = p"
    and client_server: "inv \<sigma> \<Longrightarrow> by_client \<sigma> ip port = Some (Some s) \<Longrightarrow> session_at \<sigma> s = Some x \<Longrightarrow>
      by_server \<sigma> (server_port x) = Some (Some s)"
    and server_client: "inv \<sigma> \<Longrightarrow> by_server \<sigma> p = Some (Some s) \<Longrightarrow> session_at \<sigma> s = Some x \<Longrightarrow>
      by_client \<sigma> (client_ip x) (client_port x) = Some (Some s)"
begin

text \<open>No two client end points share a server port.\<close>

lemma ports_not_shared:
  assumes "inv \<sigma>" and "by_client \<sigma> ip port = Some (Some s)" "by_client \<sigma> ip' port' = Some (Some s')"
    and "session_at \<sigma> s = Some x" "session_at \<sigma> s' = Some x'" "server_port x = server_port x'"
  shows "ip = ip' \<and> port = port' \<and> s = s'"
proof -
  have "by_server \<sigma> (server_port x) = Some (Some s)" "by_server \<sigma> (server_port x) = Some (Some s')"
    using client_server assms by metis+
  then have "s = s'" by simp
  then show ?thesis using client_sound [OF assms(1,2)] client_sound [OF assms(1,3)] by auto
qed

text \<open>What a packet from the world is sent to is the end point whose packets leave through that port.\<close>

lemma reply_reaches_sender:
  assumes "inv \<sigma>" and "by_client \<sigma> ip port = Some (Some s)" and "session_at \<sigma> s = Some x"
  shows "\<exists>y. by_server \<sigma> (server_port x) = Some (Some s) \<and> session_at \<sigma> s = Some y \<and>
    client_ip y = ip \<and> client_port y = port"
  using client_server [OF assms] client_sound [OF assms(1,2)] by blast

lemma unknown_port:
  assumes "inv \<sigma>" and "by_server \<sigma> p = Some None" and "by_client \<sigma> ip port = Some (Some s)"
    and "session_at \<sigma> s = Some x"
  shows "server_port x \<noteq> p"
  using client_server [OF assms(1,3,4)] assms(2) by auto

end

text \<open>A table that can be extended: \<open>add\<close> returns a session for the end point, and no other end point notices.\<close>

locale nat_allocator = nat_table +
  fixes add :: "'a \<Rightarrow> u32 \<Rightarrow> u16 \<Rightarrow> (ptr \<times> 'a) option"
  assumes add_inv: "inv \<sigma> \<Longrightarrow> add \<sigma> ip port = Some (r, \<sigma>') \<Longrightarrow> inv \<sigma>'"
    and add_found: "inv \<sigma> \<Longrightarrow> add \<sigma> ip port = Some (r, \<sigma>') \<Longrightarrow> by_client \<sigma>' ip port = Some r"
    and add_frame: "inv \<sigma> \<Longrightarrow> add \<sigma> ip port = Some (r, \<sigma>') \<Longrightarrow> (ip', port') \<noteq> (ip, port) \<Longrightarrow>
      by_client \<sigma>' ip' port' = by_client \<sigma> ip' port'"
    and add_keeps: "inv \<sigma> \<Longrightarrow> add \<sigma> ip port = Some (r, \<sigma>') \<Longrightarrow> session_at \<sigma> s = Some x \<Longrightarrow>
      session_at \<sigma>' s = Some x"
    and add_existing: "inv \<sigma> \<Longrightarrow> by_client \<sigma> ip port = Some (Some s) \<Longrightarrow> add \<sigma> ip port = Some (Some s, \<sigma>)"
begin

lemma add_bidirectional:
  assumes "inv \<sigma>" and "add \<sigma> ip port = Some (Some s, \<sigma>')"
  shows "\<exists>x. session_at \<sigma>' s = Some x \<and> client_ip x = ip \<and> client_port x = port \<and>
    by_client \<sigma>' ip port = Some (Some s) \<and> by_server \<sigma>' (server_port x) = Some (Some s)"
  using add_inv [OF assms] add_found [OF assms] client_sound client_server by metis

text \<open>An established session keeps its port and its way back.\<close>

lemma add_keeps_sessions:
  assumes inv: "inv \<sigma>" and "add \<sigma> ip port = Some (r, \<sigma>')"
    and old: "by_server \<sigma> p = Some (Some s)" "session_at \<sigma> s = Some x"
  shows "by_server \<sigma>' p = Some (Some s) \<and> session_at \<sigma>' s = Some x"
proof -
  have c: "by_client \<sigma> (client_ip x) (client_port x) = Some (Some s)" and p: "server_port x = p"
    using server_client [OF inv old] server_sound [OF inv old(1)] old(2) by auto
  have "by_client \<sigma>' (client_ip x) (client_port x) = Some (Some s)"
  proof (cases "(client_ip x, client_port x) = (ip, port)")
    case True
    then have "add \<sigma> ip port = Some (Some s, \<sigma>)" using add_existing [OF inv] c by simp
    then show ?thesis using assms(2) c by simp
  next
    case False
    then show ?thesis using add_frame [OF assms(1,2)] c by simp
  qed
  then show ?thesis
    using client_server add_inv [OF assms(1,2)] add_keeps [OF assms(1,2) old(2)] p by metis
qed

lemma add_twice:
  "inv \<sigma> \<Longrightarrow> add \<sigma> ip port = Some (Some s, \<sigma>') \<Longrightarrow> add \<sigma>' ip port = Some (Some s, \<sigma>')"
  using add_inv add_found add_existing by metis

end

text \<open>The hash table provides both interfaces.\<close>

interpretation ht: nat_table
  "\<lambda>(h, t). table_inv h t" "\<lambda>(h, t). get_tcp_session_by_client h t"
  "\<lambda>(h, t). get_tcp_session_by_server h t" "\<lambda>(h, t). sessions h"
proof
  fix \<sigma> :: "heap \<times> session_hash_table"
  obtain h t where \<sigma>: "\<sigma> = (h, t)" by (cases \<sigma>)
  assume "case \<sigma> of (h, t) \<Rightarrow> table_inv h t"
  then obtain cc sc where rep: "table_rep h t cc sc" by (auto simp: \<sigma> table_inv_def)
  note iffs = get_by_client_iff [OF rep] get_by_server_iff [OF rep] and live = table_rep_parts(9) [OF rep]
  show "\<exists>r. (case \<sigma> of (h, t) \<Rightarrow> get_tcp_session_by_client h t) ip port = Some r" for ip port
    using get_total(1) [OF rep] by (simp add: \<sigma>)
  show "\<exists>r. (case \<sigma> of (h, t) \<Rightarrow> get_tcp_session_by_server h t) p = Some r" for p
    using get_total(2) [OF rep] by (simp add: \<sigma>)
  show "\<exists>x. (case \<sigma> of (h, t) \<Rightarrow> sessions h) s = Some x \<and> client_ip x = ip \<and> client_port x = port"
    if "(case \<sigma> of (h, t) \<Rightarrow> get_tcp_session_by_client h t) ip port = Some (Some s)" for ip port s
    using that live [of s] by (auto simp: \<sigma> iffs client_key_def simp del: set_concat)
  show "\<exists>x. (case \<sigma> of (h, t) \<Rightarrow> sessions h) s = Some x \<and> server_port x = p"
    if "(case \<sigma> of (h, t) \<Rightarrow> get_tcp_session_by_server h t) p = Some (Some s)" for p s
    using that live [of s] by (auto simp: \<sigma> iffs simp del: set_concat)
  show "(case \<sigma> of (h, t) \<Rightarrow> get_tcp_session_by_server h t) (server_port x) = Some (Some s)"
    if "(case \<sigma> of (h, t) \<Rightarrow> get_tcp_session_by_client h t) ip port = Some (Some s)"
      "(case \<sigma> of (h, t) \<Rightarrow> sessions h) s = Some x" for ip port s x
    using that by (simp add: \<sigma> iffs del: set_concat)
  show "(case \<sigma> of (h, t) \<Rightarrow> get_tcp_session_by_client h t) (client_ip x) (client_port x) = Some (Some s)"
    if "(case \<sigma> of (h, t) \<Rightarrow> get_tcp_session_by_server h t) p = Some (Some s)"
      "(case \<sigma> of (h, t) \<Rightarrow> sessions h) s = Some x" for p s x
    using that by (simp add: \<sigma> iffs client_key_def del: set_concat)
qed

text \<open>The laws of \<open>add_tcp_session\<close>, for every starting value of its counter.\<close>

lemma add_inv:
  assumes "table_inv h t" and "add_tcp_session count h t ip port timeout = Some (r, h', t')"
  shows "table_inv h' t'"
proof -
  obtain cc sc where rep: "table_rep h t cc sc" using assms(1) by (auto simp: table_inv_def)
  from rep assms(2) show ?thesis
    by (cases rule: add_tcp_session_elim) (use rep in \<open>auto simp: table_inv_def\<close>)
qed

lemma add_keeps_range:
  assumes "table_inv h t" and "add_tcp_session count h t ip port timeout = Some (r, h', t')"
  shows "port_range t' = port_range t" "mod_num t' = mod_num t"
proof -
  obtain cc sc where rep: "table_rep h t cc sc" using assms(1) by (auto simp: table_inv_def)
  from rep assms(2) have "port_range t' = port_range t \<and> mod_num t' = mod_num t"
    by (cases rule: add_tcp_session_elim) auto
  then show "port_range t' = port_range t" "mod_num t' = mod_num t" by simp_all
qed

lemma server_port_range:
  assumes "table_inv h t" and "get_tcp_session_by_server h t p = Some (Some s)"
  shows "p \<in> port_range t"
proof -
  obtain cc sc where rep: "table_rep h t cc sc" using assms(1) by (auto simp: table_inv_def)
  show ?thesis using assms(2) table_rep_parts(10) [OF rep] unfolding get_by_server_iff [OF rep] by blast
qed

lemma add_lookups:
  assumes "table_inv h t" and "add_tcp_session count h t ip port timeout = Some (r, h', t')"
  shows "get_tcp_session_by_client h' t' ip' port' =
      (if (ip', port') = (ip, port) then Some r else get_tcp_session_by_client h t ip' port')"
    and "sessions h s = Some x \<Longrightarrow> sessions h' s = Some x"
proof -
  obtain cc sc where rep: "table_rep h t cc sc" using assms(1) by (auto simp: table_inv_def)
  have "get_tcp_session_by_client h' t' ip' port' =
      (if (ip', port') = (ip, port) then Some r else get_tcp_session_by_client h t ip' port') \<and>
    (sessions h s = Some x \<longrightarrow> sessions h' s = Some x)"
    using rep assms(2)
  proof (cases rule: add_tcp_session_elim)
    case (created p cc' sc')
    have fresh: "brk h \<notin> cell_sessions cc" "sessions h s = Some x \<longrightarrow> s \<noteq> brk h"
      using table_sessions_below [OF rep] table_rep_parts(14) [OF rep, of s] by auto
    have key: "client_key (sess h' (brk h)) = (ip, port)" "\<And>u. u \<noteq> brk h \<Longrightarrow> sess h' u = sess h u"
      by (simp_all add: created(7) new_session_def client_key_def)
    have "get_tcp_session_by_client h' t' ip' port' =
      (if (ip', port') = (ip, port) then Some r else get_tcp_session_by_client h t ip' port')"
    proof (rule option_option_eqI)
      have absent: "\<not> (u \<in> cell_sessions cc \<and> client_key (sess h u) = (ip, port))" for u
        using created(2) get_by_client_iff [OF rep, of ip port u] by simp
      show "get_tcp_session_by_client h' t' ip' port' = Some (Some u) \<longleftrightarrow>
        (if (ip', port') = (ip, port) then Some r else get_tcp_session_by_client h t ip' port') = Some (Some u)" for u
        using absent [of u] key fresh(1)
        unfolding get_by_client_iff [OF created(5)] created(6)
        by (cases "u = brk h"; cases "(ip', port') = (ip, port)")
          (auto simp: get_by_client_iff [OF rep] created(1) simp del: set_concat)
    qed (use get_total(1) [OF created(5)] get_total(1) [OF rep] in auto)
    then show ?thesis using fresh(2) created(7) by auto
  qed simp_all
  then show "get_tcp_session_by_client h' t' ip' port' =
      (if (ip', port') = (ip, port) then Some r else get_tcp_session_by_client h t ip' port')"
    and "sessions h s = Some x \<Longrightarrow> sessions h' s = Some x"
    by blast+
qed

text \<open>The uninitialised counter and the timeout are fixed for the whole table here.\<close>

interpretation ht_add: nat_allocator
  "\<lambda>(h, t). table_inv h t" "\<lambda>(h, t). get_tcp_session_by_client h t"
  "\<lambda>(h, t). get_tcp_session_by_server h t" "\<lambda>(h, t). sessions h"
  "\<lambda>(h, t) ip port. add_tcp_session count h t ip port timeout" for count timeout
proof
  fix \<sigma> \<sigma>' :: "heap \<times> session_hash_table" and ip port r
  obtain h t h' t' where \<sigma>: "\<sigma> = (h, t)" "\<sigma>' = (h', t')" by (cases \<sigma>; cases \<sigma>')
  assume inv: "case \<sigma> of (h, t) \<Rightarrow> table_inv h t"
  show "(case \<sigma> of (h, t) \<Rightarrow> \<lambda>ip port. add_tcp_session count h t ip port timeout) ip port = Some (Some s, \<sigma>)"
    if "(case \<sigma> of (h, t) \<Rightarrow> get_tcp_session_by_client h t) ip port = Some (Some s)" for s
    using that inv by (auto simp: \<sigma> table_inv_def add_tcp_session_cases)
  assume run: "(case \<sigma> of (h, t) \<Rightarrow> \<lambda>ip port. add_tcp_session count h t ip port timeout) ip port = Some (r, \<sigma>')"
  show "case \<sigma>' of (h, t) \<Rightarrow> table_inv h t"
    using inv run add_inv by (simp add: \<sigma>)
  show "(case \<sigma>' of (h, t) \<Rightarrow> get_tcp_session_by_client h t) ip port = Some r"
    using inv run add_lookups(1) [of h t count ip port timeout r h' t' ip port] by (simp add: \<sigma>)
  show "(case \<sigma>' of (h, t) \<Rightarrow> get_tcp_session_by_client h t) ip' port' =
      (case \<sigma> of (h, t) \<Rightarrow> get_tcp_session_by_client h t) ip' port'" if "(ip', port') \<noteq> (ip, port)" for ip' port'
    using inv run that add_lookups(1) [of h t count ip port timeout r h' t' ip' port'] by (auto simp: \<sigma>)
  show "(case \<sigma>' of (h, t) \<Rightarrow> sessions h) s = Some x" if "(case \<sigma> of (h, t) \<Rightarrow> sessions h) s = Some x" for s x
    using inv run that add_lookups(2) by (auto simp: \<sigma>)
qed

text \<open>The facts of the two interpretations, on the heap and the table.\<close>

lemmas table_client_sound = ht.client_sound [of "(h, t)" for h t, simplified]
  and table_server_sound = ht.server_sound [of "(h, t)" for h t, simplified]
  and table_client_server = ht.client_server [of "(h, t)" for h t, simplified]
  and table_server_client = ht.server_client [of "(h, t)" for h t, simplified]
  and table_client_total = ht.client_total [of "(h, t)" for h t, simplified]
  and table_server_total = ht.server_total [of "(h, t)" for h t, simplified]

end
