(* ===== verification/Table_Sweep.thy ===== *)
theory Table_Sweep
  imports Nat_Table
begin

text \<open>
  The operations of \<^verbatim>\<open>src/src/lib/session_struct.c\<close> that visit the whole table:
  \<^verbatim>\<open>clean_expired_session\<close>, \<^verbatim>\<open>delete_hash_table\<close> and the printing functions. Cleaning, while no
  session ends between two readings of the clock, keeps exactly the live sessions and the invariant; deleting frees every cell, every
  session and both arrays exactly once.
\<close>

section \<open>Deleting the table\<close>

lemma arr_drop:
  assumes "drop i xs = x # ys"
  shows "arr xs (int i) = Some x" "drop (Suc i) xs = ys"
proof -
  have "i < length xs" using assms by (metis drop_all leI list.distinct(1))
  then show "arr xs (int i) = Some x" "drop (Suc i) xs = ys"
    using assms Cons_nth_drop_Suc [of i xs] by (simp_all add: arr_def)
qed

definition free_cells :: "heap \<Rightarrow> addr set \<Rightarrow> addr set \<Rightarrow> heap" where
  "free_cells h A S = h\<lparr>nodes := (\<lambda>a. if a \<in> A then None else nodes h a),
     sessions := (\<lambda>s. if s \<in> S then None else sessions h s)\<rparr>"

lemma free_cells_sel [simp]:
  "nodes (free_cells h A S) = (\<lambda>a. if a \<in> A then None else nodes h a)"
  "sessions (free_cells h A S) = (\<lambda>s. if s \<in> S then None else sessions h s)"
  by (simp_all add: free_cells_def)

lemma free_cells_free_cells: "free_cells (free_cells h A S) B R = free_cells h (A \<union> B) (S \<union> R)"
  by (auto simp: free_cells_def fun_eq_iff)

lemma delete_all_session_cells:
  assumes "chain (nodes h) p cs" and "distinct (map fst cs)"
    and "rm \<Longrightarrow> live_cells h cs \<and> distinct (map snd cs)"
  shows "delete_all_session h p rm = Some (free_cells h (cells cs) (if rm then snd ` set cs else {}))"
  using delete_all_session_chain [OF assms] by (cases rm) (simp_all add: free_cells_def)

lemma chains_frame:
  assumes "list_all2 (chain N) ps css" and "\<And>a. a \<in> cells (concat css) \<Longrightarrow> N' a = N a"
  shows "list_all2 (chain N') ps css"
proof -
  have "chain N' p cs = chain N p cs" if "cs \<in> set css" for p cs
    using that assms(2) by (intro chain_cong) force
  then show ?thesis using assms(1) unfolding list_all2_conv_all_nth by (metis nth_mem)
qed

lemma chains_free_cells:
  assumes "list_all2 (chain (nodes h)) ps css" and "A \<inter> cells (concat css) = {}"
  shows "list_all2 (chain (nodes (free_cells h A S))) ps css"
  using assms(1) by (rule chains_frame) (use assms(2) in \<open>auto simp del: set_concat\<close>)

lemma distinct_app4:
  "distinct ((a @ b) @ (c @ d)) \<Longrightarrow> distinct a \<and> distinct c \<and> set a \<inter> set c = {} \<and>
     (set a \<union> set c) \<inter> set b = {} \<and> (set a \<union> set c) \<inter> set d = {} \<and> distinct (b @ d)"
  by auto

lemma delete_table_from_chains:
  assumes "drop i (list_client_key t) = ps" "drop i (list_server_key t) = qs" "len t = int (i + length ps)"
    "list_all2 (chain (nodes h)) ps cc" "list_all2 (chain (nodes h)) qs sc"
    "distinct (map fst (concat cc @ concat sc))" "distinct (map snd (concat sc))" "live_cells h (concat sc)"
    "length ps = length qs"
  shows "delete_table_from h t (int i) =
    Some (free_cells h (cells (concat cc) \<union> cells (concat sc)) (cell_sessions sc))"
  using assms
proof (induction ps arbitrary: i qs cc sc h)
  case Nil
  then show ?case by (simp add: delete_table_from.simps free_cells_def)
next
  case (Cons p ps)
  obtain q qs' where qs: "qs = q # qs'" using Cons.prems(9) by (cases qs) auto
  obtain c cc' where cc: "cc = c # cc'" "chain (nodes h) p c" "list_all2 (chain (nodes h)) ps cc'"
    using Cons.prems(4) by (auto simp: list_all2_Cons1)
  obtain s sc' where sc: "sc = s # sc'" "chain (nodes h) q s" "list_all2 (chain (nodes h)) qs' sc'"
    using Cons.prems(5) by (auto simp: list_all2_Cons1 qs)
  have p: "arr (list_client_key t) (int i) = Some p" and q: "arr (list_server_key t) (int i) = Some q"
    using arr_drop(1) Cons.prems(1,2) qs by metis+
  let ?h1 = "free_cells h (cells c) {}" and ?h2 = "free_cells h (cells c \<union> cells s) (snd ` set s)"
  have dist: "distinct (map fst c)" "distinct (map fst s)" "cells c \<inter> cells s = {}" "distinct (map snd s)"
    "(cells c \<union> cells s) \<inter> cells (concat cc') = {}" "(cells c \<union> cells s) \<inter> cells (concat sc') = {}"
    "snd ` set s \<inter> cell_sessions sc' = {}" "distinct (map fst (concat cc' @ concat sc'))"
    using distinct_app4 [of "map fst c" "map fst (concat cc')" "map fst s" "map fst (concat sc')"] Cons.prems(6,7)
    by (simp_all add: cc(1) sc(1) del: set_concat distinct_append) (simp_all del: set_concat)
  have live: "live_cells h s" "live_cells h (concat sc')"
    using Cons.prems(8) by (auto simp: sc(1) live_cells_def)
  have d1: "delete_all_session h p False = Some ?h1"
    using delete_all_session_cells [OF cc(2) dist(1), of False] by simp
  have "chain (nodes ?h1) q s"
    using chains_free_cells [of h "[q]" "[s]" "cells c" "{}"] sc(2) dist(3) by simp
  moreover have "live_cells ?h1 s" using live(1) by (simp add: live_cells_def)
  ultimately have d2: "delete_all_session ?h1 q True = Some ?h2"
    using delete_all_session_cells [of ?h1 q s True] dist(2,4) by (simp add: free_cells_free_cells)
  have "delete_table_from ?h2 t (int (Suc i)) =
      Some (free_cells ?h2 (cells (concat cc') \<union> cells (concat sc')) (cell_sessions sc'))"
  proof (rule Cons.IH)
    show "drop (Suc i) (list_client_key t) = ps" "drop (Suc i) (list_server_key t) = qs'"
      using arr_drop(2) Cons.prems(1,2) qs by metis+
    show "distinct (map fst (concat cc' @ concat sc'))" by (rule dist(8))
    show "list_all2 (chain (nodes ?h2)) ps cc'" "list_all2 (chain (nodes ?h2)) qs' sc'"
      using chains_free_cells cc(3) sc(3) dist(5,6) by blast+
    show "live_cells ?h2 (concat sc')"
      unfolding live_cells_def
    proof
      fix e assume e: "e \<in> set (concat sc')"
      then have "snd e \<notin> snd ` set s" using dist(7) by (metis disjoint_iff imageI)
      then show "sessions ?h2 (snd e) \<noteq> None" using e live(2) unfolding live_cells_def by (simp del: set_concat)
    qed
  qed (use Cons.prems in \<open>auto simp: cc(1) sc(1) qs\<close>)
  then show ?case
    using Cons.prems(3) p q d1 d2
    by (subst delete_table_from.simps) (simp add: cc(1) sc(1) free_cells_free_cells Un_ac image_Un add.commute [of 1 "int i"])
qed

lemma delete_hash_table_rep:
  assumes rep: "table_rep h t cc sc"
  shows "delete_hash_table h t =
    Some (free_cells h (cells (concat cc) \<union> cells (concat sc)) (cell_sessions cc),
      t\<lparr>list_client_key := [], list_server_key := []\<rparr>)"
proof -
  note parts = table_rep_parts [OF rep] and d = table_repD [OF rep]
  have "list_all2 (chain (nodes h)) (list_client_key t) cc" "list_all2 (chain (nodes h)) (list_server_key t) sc"
    using parts(1,2) by (simp_all add: buckets_def)
  moreover have "distinct (map fst (concat cc @ concat sc))"
    using parts(3-5) by (simp del: set_concat)
  moreover have "live_cells h (concat sc)"
    using parts(8,9) unfolding live_cells_def by (metis imageI)
  moreover have "free_array (list_client_key t) = Some []" "free_array (list_server_key t) = Some []"
    using d(1,5,6) by (auto simp: free_array_def)
  ultimately show ?thesis
    using delete_table_from_chains [of 0 t "list_client_key t" "list_server_key t" h cc sc] parts(7,8) d
    by (simp add: delete_hash_table_def del: set_concat)
qed

section \<open>Removing expired sessions\<close>

text \<open>
  \<^verbatim>\<open>clean_expired_session\<close> under any clock. \<open>T n\<close> is its \<open>n\<close>-th reading from the start of the sweep; a bucket is the pair of its chains in
  the two arrays, which are cleaned one after the other.
\<close>

type_synonym bucket = "(addr \<times> addr) list \<times> (addr \<times> addr) list"

primrec sweep :: "(addr \<Rightarrow> tcp_session) \<Rightarrow> (nat \<Rightarrow> int) \<Rightarrow> bucket list \<Rightarrow> bucket list" where
  "sweep S T [] = []"
| "sweep S T (b # bs) = (survivors S T (fst b), survivors S (\<lambda>n. T (n + length (fst b))) (snd b)) #
     sweep S (\<lambda>n. T (n + length (fst b) + length (snd b))) bs"

abbreviation client_cells :: "bucket list \<Rightarrow> (addr \<times> addr) list" where
  "client_cells bs \<equiv> concat (map fst bs)"

abbreviation server_cells :: "bucket list \<Rightarrow> (addr \<times> addr) list" where
  "server_cells bs \<equiv> concat (map snd bs)"

lemma sweep_subset:
  "list_all2 (\<lambda>cs ds. set ds \<subseteq> set cs) (map fst bs) (map fst (sweep S T bs))"
  "list_all2 (\<lambda>cs ds. set ds \<subseteq> set cs) (map snd bs) (map snd (sweep S T bs))"
  by (induction bs arbitrary: T) (simp_all add: set_survivors)

lemma clean_expired_from_chains:
  assumes "list_client_key t = ps0 @ ps" "list_server_key t = qs0 @ qs" "len t = int (length ps0 + length bs)"
    "length ps0 = length qs0"
    "list_all2 (chain (nodes h)) ps (map fst bs)" "list_all2 (chain (nodes h)) qs (map snd bs)"
    "distinct (map fst (client_cells bs @ server_cells bs))" "live_cells h (client_cells bs @ server_cells bs)"
  shows "\<exists>N' ps' qs'. clean_expired_from h t (int (length ps0)) =
      Some (h\<lparr>nodes := N', times := (\<lambda>n. times h (n + length (client_cells bs @ server_cells bs)))\<rparr>,
        t\<lparr>list_client_key := ps0 @ ps', list_server_key := qs0 @ qs'\<rparr>) \<and>
    list_all2 (chain N') ps' (map fst (sweep (sess h) (times h) bs)) \<and>
    list_all2 (chain N') qs' (map snd (sweep (sess h) (times h) bs)) \<and>
    (\<forall>a. a \<notin> cells (client_cells bs @ server_cells bs) \<longrightarrow> N' a = nodes h a)"
  using assms
proof (induction bs arbitrary: ps0 qs0 ps qs h t)
  case Nil
  then show ?case
    by (intro exI [of _ "nodes h"] exI [of _ "[]"]) (simp add: clean_expired_from.simps)
next
  case (Cons b bs)
  obtain c s where b: "b = (c, s)" by fastforce
  obtain p ps1 where ps: "ps = p # ps1" "chain (nodes h) p c" "list_all2 (chain (nodes h)) ps1 (map fst bs)"
    using Cons.prems(5) by (auto simp: b list_all2_Cons2)
  obtain q qs1 where qs: "qs = q # qs1" "chain (nodes h) q s" "list_all2 (chain (nodes h)) qs1 (map snd bs)"
    using Cons.prems(6) by (auto simp: b list_all2_Cons2)
  have dist: "distinct (map fst c)" "distinct (map fst s)" "cells c \<inter> cells s = {}"
    "(cells c \<union> cells s) \<inter> cells (client_cells bs) = {}" "(cells c \<union> cells s) \<inter> cells (server_cells bs) = {}"
    "distinct (map fst (client_cells bs @ server_cells bs))"
    using distinct_app4 [of "map fst c" "map fst (client_cells bs)" "map fst s" "map fst (server_cells bs)"] Cons.prems(7)
    by (simp_all add: b del: set_concat distinct_append)
  have live: "live_cells h c" "live_cells h s" "live_cells h (client_cells bs @ server_cells bs)"
    using Cons.prems(8) by (auto simp: b live_cells_def)
  let ?c = "survivors (sess h) (times h) c" and ?s = "survivors (sess h) (\<lambda>n. times h (n + length c)) s"
  let ?h = "\<lambda>N k. h\<lparr>nodes := N, times := (\<lambda>n. times h (n + k))\<rparr>"
  obtain p' N1 where N1: "delete_expired_session h p = Some (p', ?h N1 (length c))" "chain N1 p' ?c"
    "\<forall>a. a \<notin> cells c \<longrightarrow> N1 a = nodes h a"
    using delete_expired_session_chain [OF ps(2) dist(1) live(1)] by blast
  have "chain N1 q s"
    using qs(2) chain_cong [of s N1 "nodes h" q] N1(3) dist(3) by (metis disjoint_iff)
  then obtain q' N2 where N2: "delete_expired_session (?h N1 (length c)) q = Some (q', ?h N2 (length c + length s))"
    "chain N2 q' ?s" "\<forall>a. a \<notin> cells s \<longrightarrow> N2 a = N1 a"
    using delete_expired_session_chain [of "?h N1 (length c)" q s] dist(2) live(2)
    by (auto simp: live_cells_def add_ac)
  have chains2: "list_all2 (chain N2) ps1 (map fst bs)" "list_all2 (chain N2) qs1 (map snd bs)" "chain N2 p' ?c"
  proof -
    have same: "N2 a = nodes h a" if "a \<notin> cells c \<union> cells s" for a using that N1(3) N2(3) by simp
    show "list_all2 (chain N2) ps1 (map fst bs)" "list_all2 (chain N2) qs1 (map snd bs)"
      using chains_frame [OF ps(3)] chains_frame [OF qs(3)] same dist(4,5) by (metis disjoint_iff)+
    have "N2 a = N1 a" if "a \<in> cells ?c" for a
      using that N2(3) dist(3) set_survivors [of "sess h" "times h" c] by auto
    then show "chain N2 p' ?c" using N1(2) chain_cong [of ?c N2 N1 p'] by simp
  qed
  let ?h2 = "?h N2 (length c + length s)"
    and ?t = "t\<lparr>list_client_key := ps0 @ p' # ps1, list_server_key := qs0 @ q' # qs1\<rparr>"
  have step: "clean_expired_from h t (int (length ps0)) = clean_expired_from ?h2 ?t (int (length (ps0 @ [p'])))"
    using Cons.prems(1-4) N1(1) N2(1)
    by (subst clean_expired_from.simps) (simp add: arr_def ps(1) qs(1) list_update_append nth_append add.commute [of 1])
  obtain N' ps' qs' where N': "clean_expired_from ?h2 ?t (int (length (ps0 @ [p']))) =
      Some (?h2\<lparr>nodes := N', times := (\<lambda>n. times ?h2 (n + length (client_cells bs @ server_cells bs)))\<rparr>,
        ?t\<lparr>list_client_key := (ps0 @ [p']) @ ps', list_server_key := (qs0 @ [q']) @ qs'\<rparr>)"
    "list_all2 (chain N') ps' (map fst (sweep (sess h) (times ?h2) bs))"
    "list_all2 (chain N') qs' (map snd (sweep (sess h) (times ?h2) bs))"
    "\<forall>a. a \<notin> cells (client_cells bs @ server_cells bs) \<longrightarrow> N' a = N2 a"
    using Cons.IH [of ?t "ps0 @ [p']" ps1 "qs0 @ [q']" qs1 ?h2] chains2(1,2) Cons.prems(1-4) dist(6) live(3)
    by (auto simp: ps(1) qs(1) live_cells_def simp del: set_concat)
  have apart: "N' a = N2 a" if "a \<in> cells c \<union> cells s" for a
  proof -
    have "a \<notin> cells (client_cells bs @ server_cells bs)"
      using that dist(4,5) unfolding set_append image_Un by (metis Un_iff disjoint_iff)
    then show ?thesis using N'(4) by blast
  qed
  have sub: "cells ?c \<subseteq> cells c" "cells ?s \<subseteq> cells s" using set_survivors by (blast intro: image_mono)+
  have "chain N' p' ?c" by (rule iffD2 [OF chain_cong chains2(3)]) (use apart sub(1) in blast)
  moreover have "chain N' q' ?s" by (rule iffD2 [OF chain_cong N2(2)]) (use apart sub(2) in blast)
  moreover have "N' a = nodes h a" if "a \<notin> cells (client_cells (b # bs) @ server_cells (b # bs))" for a
    using that N'(4) N2(3) N1(3) by (simp add: b image_Un del: set_concat)
  ultimately show ?case
    using step N'(1-3)
    by (intro exI [of _ N'] exI [of _ "p' # ps'"] exI [of _ "q' # qs'"]) (simp add: b add_ac del: set_concat)
qed

text \<open>When no session ends between two readings of the clock, the survivors are the same in both arrays.\<close>

lemma keep_unexpired_steady:
  "(\<And>c j. c \<in> set cs \<Longrightarrow> j < length cs \<Longrightarrow> (T j \<le> expire (S (snd c))) = L (snd c)) \<Longrightarrow>
    keep_unexpired S T cs = filter (\<lambda>c. L (snd c)) cs"
proof (induction cs arbitrary: T)
  case (Cons c cs)
  have "keep_unexpired S (\<lambda>n. T (Suc n)) cs = filter (\<lambda>c. L (snd c)) cs"
    using Cons.prems by (intro Cons.IH) simp
  moreover have "(T 0 \<le> expire (S (snd c))) = L (snd c)" using Cons.prems by simp
  ultimately show ?case by (auto simp: not_less)
qed simp

lemma survivors_steady:
  assumes "\<And>c j. c \<in> set cs \<Longrightarrow> j < length cs \<Longrightarrow> (T j \<le> expire (S (snd c))) = L (snd c)"
  shows "survivors S T cs = filter (\<lambda>c. L (snd c)) cs"
proof (cases cs)
  case (Cons c ds)
  have "keep_unexpired S T ds = filter (\<lambda>c. L (snd c)) ds"
    using assms by (intro keep_unexpired_steady) (simp add: Cons)
  moreover have "(T (length ds) \<le> expire (S (snd c))) = L (snd c)" using assms by (simp add: Cons)
  ultimately show ?thesis by (auto simp: Cons not_less)
qed simp

lemma sweep_steady:
  assumes "\<And>c j. c \<in> set (client_cells bs @ server_cells bs) \<Longrightarrow> j < length (client_cells bs @ server_cells bs) \<Longrightarrow>
    (T j \<le> expire (S (snd c))) = L (snd c)"
  shows "sweep S T bs = map (\<lambda>b. (filter (\<lambda>c. L (snd c)) (fst b), filter (\<lambda>c. L (snd c)) (snd b))) bs"
  using assms
proof (induction bs arbitrary: T)
  case (Cons b bs)
  have "survivors S T (fst b) = filter (\<lambda>c. L (snd c)) (fst b)"
    "survivors S (\<lambda>n. T (n + length (fst b))) (snd b) = filter (\<lambda>c. L (snd c)) (snd b)"
    by (rule survivors_steady; rule Cons.prems; simp)+
  moreover have "sweep S (\<lambda>n. T (n + length (fst b) + length (snd b))) bs =
      map (\<lambda>b. (filter (\<lambda>c. L (snd c)) (fst b), filter (\<lambda>c. L (snd c)) (snd b))) bs"
    by (rule Cons.IH; rule Cons.prems; auto)
  ultimately show ?case by simp
qed simp

text \<open>A table stays well-formed when the same sessions are dropped from both arrays.\<close>

lemma table_rep_filter:
  assumes rep: "table_rep h t cc sc"
    and ps: "list_all2 (chain N) ps (map (filter (\<lambda>c. P (snd c))) cc)"
      "list_all2 (chain N) qs (map (filter (\<lambda>c. P (snd c))) sc)"
    and dom: "\<And>a. N a \<noteq> None \<Longrightarrow> nodes h a \<noteq> None"
  defines "cc' \<equiv> map (filter (\<lambda>c. P (snd c))) cc" and "sc' \<equiv> map (filter (\<lambda>c. P (snd c))) sc"
  shows "table_rep (h\<lparr>nodes := N\<rparr>) (t\<lparr>list_client_key := ps, list_server_key := qs\<rparr>) cc' sc'"
    and "cell_sessions cc' = {s \<in> cell_sessions cc. P s}"
proof -
  note parts = table_rep_parts [OF rep] and d = table_repD [OF rep]
  have cf: "concat cc' = filter (\<lambda>c. P (snd c)) (concat cc)" "concat sc' = filter (\<lambda>c. P (snd c)) (concat sc)"
    by (simp_all add: cc'_def sc'_def filter_concat)
  have sub: "cell_sessions cc' = {s \<in> cell_sessions cc. P s}" "cell_sessions sc' = {s \<in> cell_sessions sc. P s}"
    unfolding cf by (auto simp del: set_concat)
  show "cell_sessions cc' = {s \<in> cell_sessions cc. P s}" by (rule sub(1))
  have bk: "buckets (h\<lparr>nodes := N\<rparr>) f xs (map (filter (\<lambda>c. P (snd c))) css)"
    if "buckets h f ys css" "list_all2 (chain N) xs (map (filter (\<lambda>c. P (snd c))) css)" for f xs ys css
    using that by (simp add: buckets_def)
  have len: "length ps = nat (len t)" "length qs = nat (len t)"
    using ps d(3,4) by (auto dest: list_all2_lengthD)
  have inj: "inj_on f (cell_sessions cc')" if "inj_on f (cell_sessions cc)" for f :: "addr \<Rightarrow> 'b"
    unfolding sub by (rule inj_on_subset [OF that]) blast
  have dist: "distinct (map fst (concat cc' @ concat sc'))" "distinct (map snd (concat cc'))" "distinct (map snd (concat sc'))"
  proof -
    have "cells (concat cc') \<inter> cells (concat sc') = {}"
      using parts(5) unfolding cf by (auto simp del: set_concat)
    then show "distinct (map fst (concat cc' @ concat sc'))"
      "distinct (map snd (concat cc'))" "distinct (map snd (concat sc'))"
      using parts(3,4,6,7) unfolding cf by (simp_all add: distinct_map_filter del: set_concat)
  qed
  have live: "\<forall>s \<in> cell_sessions cc'. sessions (h\<lparr>nodes := N\<rparr>) s \<noteq> None \<and>
      server_port (sess (h\<lparr>nodes := N\<rparr>) s) \<in> port_range t"
    using parts(9,10) unfolding sub by simp
  have inj': "inj_on (\<lambda>s. client_key (sess (h\<lparr>nodes := N\<rparr>) s)) (cell_sessions cc')"
    "inj_on (\<lambda>s. server_port (sess (h\<lparr>nodes := N\<rparr>) s)) (cell_sessions cc')"
    using inj [OF parts(11)] inj [OF parts(12)] by (simp_all del: set_concat)
  have same: "cell_sessions cc' = cell_sessions sc'" unfolding sub parts(8) ..
  have bs: "s < brk (h\<lparr>nodes := N\<rparr>)" if "sessions (h\<lparr>nodes := N\<rparr>) s \<noteq> None" for s
    using that parts(14) by simp
  have ba: "a < brk (h\<lparr>nodes := N\<rparr>)" if "nodes (h\<lparr>nodes := N\<rparr>) a \<noteq> None" for a
    using that parts(13) dom by simp
  show "table_rep (h\<lparr>nodes := N\<rparr>) (t\<lparr>list_client_key := ps, list_server_key := qs\<rparr>) cc' sc'"
    unfolding table_rep_def lists_sel
    by (intro conjI allI impI; (rule d(1) d(2) len dist same live inj')?)
      (use ba bs bk [OF parts(1) ps(1)] bk [OF parts(2) ps(2)] in \<open>simp_all only: cc'_def sc'_def\<close>)
qed

text \<open>The sweep of a well-formed table, under any clock, and under one that passes the end of no session.\<close>

lemma clean_expired_session_any:
  assumes rep: "table_rep h t cc sc"
  defines "v \<equiv> sweep (sess h) (times h) (zip cc sc)"
  shows "\<exists>N k ps qs. clean_expired_session h t =
      Some (h\<lparr>nodes := N, times := (\<lambda>n. times h (n + k))\<rparr>, t\<lparr>list_client_key := ps, list_server_key := qs\<rparr>) \<and>
    list_all2 (chain N) ps (map fst v) \<and> list_all2 (chain N) qs (map snd v) \<and>
    (\<forall>a. N a \<noteq> None \<longrightarrow> nodes h a \<noteq> None)"
proof -
  note parts = table_rep_parts [OF rep] and d = table_repD [OF rep]
  have ch: "list_all2 (chain (nodes h)) (list_client_key t) cc" "list_all2 (chain (nodes h)) (list_server_key t) sc"
    using parts(1,2) by (simp_all add: buckets_def)
  have dist: "distinct (map fst (concat cc @ concat sc))"
    using parts(3-5) by (simp del: set_concat)
  have live: "live_cells h (concat cc @ concat sc)"
    using parts(8,9) unfolding live_cells_def set_append by (metis UnE imageI)
  have zip: "map fst (zip cc sc) = cc" "map snd (zip cc sc) = sc" "length (zip cc sc) = nat (len t)" using d(3,4) by simp_all
  have l: "len t = int (length ([] :: ptr list) + length (zip cc sc))" using d(1) zip(3) by simp
  obtain N ps qs where N: "clean_expired_from h t 0 =
      Some (h\<lparr>nodes := N, times := (\<lambda>n. times h (n + length (concat cc @ concat sc)))\<rparr>,
        t\<lparr>list_client_key := ps, list_server_key := qs\<rparr>)"
    "list_all2 (chain N) ps (map fst v)" "list_all2 (chain N) qs (map snd v)"
    "\<forall>a. a \<notin> cells (concat cc @ concat sc) \<longrightarrow> N a = nodes h a"
    using clean_expired_from_chains [of t "[]" "list_client_key t" "[]" "list_server_key t" "zip cc sc" h, unfolded zip(1,2)]
      ch dist live l unfolding v_def by (auto simp del: set_concat)
  have "nodes h a \<noteq> None" if "N a \<noteq> None" for a
  proof (cases "a \<in> cells (concat cc @ concat sc)")
    case True
    then show ?thesis
      using buckets_allocated [OF parts(1)] buckets_allocated [OF parts(2)] unfolding set_append image_Un by blast
  qed (use N(4) that in metis)
  then show ?thesis using N(1-3) unfolding clean_expired_session_def by blast
qed

lemma table_rep_times [simp]: "table_rep (h\<lparr>times := f\<rparr>) t cc sc = table_rep h t cc sc"
  by (simp add: table_rep_def buckets_def)

lemma clean_expired_session_rep:
  assumes rep: "table_rep h t cc sc"
    and steady: "\<And>s j. s \<in> cell_sessions cc \<Longrightarrow> j < 2 * card (cell_sessions cc) \<Longrightarrow>
      (times h j \<le> expire (sess h s)) = (time_NULL h \<le> expire (sess h s))"
  defines "P \<equiv> \<lambda>c. time_NULL h \<le> expire (sess h (snd c))"
  shows "\<exists>h' t'. clean_expired_session h t = Some (h', t') \<and> table_rep h' t' (map (filter P) cc) (map (filter P) sc) \<and>
    cell_sessions (map (filter P) cc) = {s \<in> cell_sessions cc. time_NULL h \<le> expire (sess h s)} \<and>
    sessions h' = sessions h"
proof -
  let ?L = "\<lambda>s. time_NULL h \<le> expire (sess h s)"
  note parts = table_rep_parts [OF rep] and d = table_repD [OF rep]
  have zip: "map fst (zip cc sc) = cc" "map snd (zip cc sc) = sc" using d(3,4) by simp_all
  have n: "length (concat cc @ concat sc) = 2 * card (cell_sessions cc)"
  proof -
    have "card (cell_sessions cc) = length (concat cc)" "card (cell_sessions sc) = length (concat sc)"
      using distinct_card [OF parts(6)] distinct_card [OF parts(7)] by (simp_all only: set_map length_map)
    then show ?thesis using parts(8) by (simp del: length_concat)
  qed
  have "sweep (sess h) (times h) (zip cc sc) =
      map (\<lambda>b. (filter (\<lambda>c. ?L (snd c)) (fst b), filter (\<lambda>c. ?L (snd c)) (snd b))) (zip cc sc)"
  proof (rule sweep_steady, unfold zip n)
    fix c j assume c: "c \<in> set (concat cc @ concat sc)" and j: "j < 2 * card (cell_sessions cc)"
    have "snd c \<in> cell_sessions cc" using c parts(8) unfolding set_append by blast
    then show "(times h j \<le> expire (sess h (snd c))) = ?L (snd c)" using j by (rule steady)
  qed
  then have v: "map fst (sweep (sess h) (times h) (zip cc sc)) = map (filter P) (map fst (zip cc sc))"
    "map snd (sweep (sess h) (times h) (zip cc sc)) = map (filter P) (map snd (zip cc sc))"
    by (simp_all add: P_def)
  obtain N k ps qs where N: "clean_expired_session h t =
      Some (h\<lparr>nodes := N, times := (\<lambda>n. times h (n + k))\<rparr>, t\<lparr>list_client_key := ps, list_server_key := qs\<rparr>)"
    "list_all2 (chain N) ps (map (filter P) cc)" "list_all2 (chain N) qs (map (filter P) sc)"
    "\<forall>a. N a \<noteq> None \<longrightarrow> nodes h a \<noteq> None"
    using clean_expired_session_any [OF rep] unfolding v zip by blast
  have dom: "nodes h a \<noteq> None" if "N a \<noteq> None" for a using N(4) that by blast
  note filtered = table_rep_filter [OF rep, where P = "?L", OF N(2,3) [unfolded P_def] dom, folded P_def]
  let ?h = "h\<lparr>nodes := N\<rparr>\<lparr>times := \<lambda>n. times h (n + k)\<rparr>" and ?t = "t\<lparr>list_client_key := ps, list_server_key := qs\<rparr>"
  have "table_rep ?h ?t (map (filter P) cc) (map (filter P) sc)" unfolding table_rep_times by (rule filtered(1))
  moreover have "sessions ?h = sessions h" by simp
  ultimately show ?thesis using N(1) filtered(2) by blast
qed

text \<open>
  A table with one session: when the session ends between the two readings of the clock, the second of its cells to be
  looked at is removed and the first one stays.
\<close>

lemma concat_map_Cons: "concat (map f (b # bs)) = f b @ concat (map f bs)"
  by simp

lemma sweep_no_cells:
  "client_cells bs = [] \<Longrightarrow> client_cells (sweep S T bs) = []" "server_cells bs = [] \<Longrightarrow> server_cells (sweep S T bs) = []"
  by (induction bs arbitrary: T) simp_all

lemma sweep_one_client:
  assumes "client_cells bs = [c]" and "server_cells bs = []"
  shows "client_cells (sweep S T bs) = (if T 0 \<le> expire (S (snd c)) then [c] else [])"
  using assms
proof (induction bs arbitrary: T)
  case (Cons b bs)
  have b: "snd b = []" "server_cells bs = []" using Cons.prems(2) unfolding concat_map_Cons append_is_Nil_conv by simp_all
  consider "fst b = []" "client_cells bs = [c]" | "fst b = [c]" "client_cells bs = []"
    using Cons.prems(1) unfolding concat_map_Cons append_eq_Cons_conv append_is_Nil_conv by auto
  then show ?case
  proof cases
    case 1
    then show ?thesis using Cons.IH [OF 1(2) b(2)] b(1) by (simp only: sweep.simps concat_map_Cons) simp
  next
    case 2
    show ?thesis unfolding sweep.simps concat_map_Cons fst_conv sweep_no_cells(1) [OF 2(2)] 2(1) by simp
  qed
qed simp

lemma sweep_one_server:
  assumes "client_cells bs = []" and "server_cells bs = [c]"
  shows "server_cells (sweep S T bs) = (if T 0 \<le> expire (S (snd c)) then [c] else [])"
  using assms
proof (induction bs arbitrary: T)
  case (Cons b bs)
  have b: "fst b = []" "client_cells bs = []" using Cons.prems(1) unfolding concat_map_Cons append_is_Nil_conv by simp_all
  consider "snd b = []" "server_cells bs = [c]" | "snd b = [c]" "server_cells bs = []"
    using Cons.prems(2) unfolding concat_map_Cons append_eq_Cons_conv append_is_Nil_conv by auto
  then show ?case
  proof cases
    case 1
    then show ?thesis using Cons.IH [OF b(2) 1(2)] b(1) by (simp only: sweep.simps concat_map_Cons) simp
  next
    case 2
    show ?thesis unfolding sweep.simps concat_map_Cons snd_conv sweep_no_cells(2) [OF 2(2)] 2(1) b(1) by simp
  qed
qed simp

lemma sweep_race:
  assumes "client_cells bs = [c]" and "server_cells bs = [d]" and "snd d = snd c"
    and T: "T 0 \<le> expire (S (snd c))" "expire (S (snd c)) < T 1"
  shows "client_cells (sweep S T bs) = [c] \<and> server_cells (sweep S T bs) = [] \<or>
    client_cells (sweep S T bs) = [] \<and> server_cells (sweep S T bs) = [d]"
  using assms(1,2)
proof (induction bs)
  case (Cons b bs)
  have "fst b = [] \<and> client_cells bs = [c] \<or> fst b = [c] \<and> client_cells bs = []"
    "snd b = [] \<and> server_cells bs = [d] \<or> snd b = [d] \<and> server_cells bs = []"
    using Cons.prems unfolding concat_map_Cons append_eq_Cons_conv append_is_Nil_conv by auto
  then consider "fst b = [c]" "snd b = [d]" "client_cells bs = []" "server_cells bs = []"
    | "fst b = [c]" "snd b = []" "client_cells bs = []" "server_cells bs = [d]"
    | "fst b = []" "snd b = [d]" "client_cells bs = [c]" "server_cells bs = []"
    | "fst b = []" "snd b = []" "client_cells bs = [c]" "server_cells bs = [d]" by blast
  then show ?case
  proof cases
    case 1
    show ?thesis
      unfolding sweep.simps concat_map_Cons fst_conv snd_conv sweep_no_cells(1) [OF 1(3)] sweep_no_cells(2) [OF 1(4)] 1(1,2)
      using T assms(3) by simp
  next
    case 2
    show ?thesis
      unfolding sweep.simps concat_map_Cons fst_conv snd_conv sweep_no_cells(1) [OF 2(3)] sweep_one_server [OF 2(3,4)] 2(1,2)
      using T assms(3) by simp
  next
    case 3
    show ?thesis
      unfolding sweep.simps concat_map_Cons fst_conv snd_conv sweep_no_cells(2) [OF 3(4)] sweep_one_client [OF 3(3,4)] 3(1,2)
      using T assms(3) by simp
  next
    case 4
    show ?thesis using Cons.IH [OF 4(3,4)] unfolding sweep.simps concat_map_Cons fst_conv snd_conv 4(1,2) by simp
  qed
qed simp

text \<open>The cells of an array after the sweep are still in their buckets.\<close>

lemma buckets_sweep:
  assumes "buckets h f ps css" and "list_all2 (chain (nodes h')) qs dss"
    and "list_all2 (\<lambda>cs ds. set ds \<subseteq> set cs) css dss" and "sessions h' = sessions h"
  shows "buckets h' f qs dss"
  using assms by (fastforce simp: buckets_def list_all2_conv_all_nth)

text \<open>Lookups in one array, whatever the other one holds.\<close>

lemma lookup_one_array:
  assumes "0 < len t" "len t < 2 ^ 31" and live: "live_cells h (concat css)"
  shows "buckets h (\<lambda>x. client_bucket (nat (len t)) (client_ip x) (client_port x)) (list_client_key t) css \<Longrightarrow>
      length css = nat (len t) \<Longrightarrow>
      get_tcp_session_by_client h t ip port = Some (map_option snd
        (find (\<lambda>c. client_ip (sess h (snd c)) = ip \<and> client_port (sess h (snd c)) = port)
          (css ! client_bucket (nat (len t)) ip port)))"
    and "buckets h (\<lambda>x. server_bucket (nat (len t)) (server_port x)) (list_server_key t) css \<Longrightarrow>
      length css = nat (len t) \<Longrightarrow>
      get_tcp_session_by_server h t sport = Some (map_option snd
        (find (\<lambda>c. server_port (sess h (snd c)) = sport) (css ! server_bucket (nat (len t)) sport)))"
proof -
  have n: "0 < nat (len t)" using assms(1) by simp
  have cs: "live_cells h (css ! i)" if "i < length css" for i
    using live nth_in_concat [OF that] unfolding live_cells_def by blast
  have ch: "length ps = length css" "i < length css \<Longrightarrow> chain (nodes h) (ps ! i) (css ! i)" if "buckets h f ps css" for f ps i
    using that by (auto simp: buckets_def dest: list_all2_lengthD list_all2_nthD2)
  {
    assume b: "buckets h (\<lambda>x. client_bucket (nat (len t)) (client_ip x) (client_port x)) (list_client_key t) css"
      and l: "length css = nat (len t)"
    have i: "client_bucket (nat (len t)) ip port < length css" using bucket_less(1) [OF n] l by simp
    show "get_tcp_session_by_client h t ip port = Some (map_option snd
        (find (\<lambda>c. client_ip (sess h (snd c)) = ip \<and> client_port (sess h (snd c)) = port)
          (css ! client_bucket (nat (len t)) ip port)))"
      using search_by_client_chain [OF ch(2) [OF b i] cs [OF i]] i ch(1) [OF b]
      by (simp add: get_tcp_session_by_client_def hash_client_bucket [OF assms(1,2)] arr_int)
  next
    assume b: "buckets h (\<lambda>x. server_bucket (nat (len t)) (server_port x)) (list_server_key t) css"
      and l: "length css = nat (len t)"
    have i: "server_bucket (nat (len t)) sport < length css" using bucket_less(2) [OF n] l by simp
    show "get_tcp_session_by_server h t sport = Some (map_option snd
        (find (\<lambda>c. server_port (sess h (snd c)) = sport) (css ! server_bucket (nat (len t)) sport)))"
      using search_by_server_chain [OF ch(2) [OF b i] cs [OF i]] i ch(1) [OF b]
      by (simp add: get_tcp_session_by_server_def hash_server_bucket [OF assms(1)] arr_int)
  }
qed

lemma find_only: "set xs \<subseteq> {c} \<Longrightarrow> c \<in> set xs \<Longrightarrow> P c \<Longrightarrow> find P xs = Some c"
  by (cases xs) auto

lemma concat_singleton: "distinct (map snd (concat css)) \<Longrightarrow> cell_sessions css = {s} \<Longrightarrow> \<exists>a. concat css = [(a, s)]"
proof -
  assume d: "distinct (map snd (concat css))" and s: "cell_sessions css = {s}"
  have set: "set (map snd (concat css)) = {s}" using s by (simp only: set_map)
  then have "length (map snd (concat css)) = 1" using distinct_card [OF d] by simp
  then obtain c where "concat css = [c]" by (auto simp: length_Suc_conv simp del: length_concat)
  then show ?thesis using set by (cases c) simp
qed

lemma clean_expired_session_split:
  assumes rep: "table_rep h t cc sc" and one: "cell_sessions cc = {s}"
    and clock: "times h 0 \<le> expire (sess h s)" "expire (sess h s) < times h 1"
  shows "\<exists>h' t'. clean_expired_session h t = Some (h', t') \<and> sessions h' = sessions h \<and>
    (get_tcp_session_by_client h' t' (client_ip (sess h s)) (client_port (sess h s)) = Some (Some s) \<and>
       get_tcp_session_by_server h' t' (server_port (sess h s)) = Some None \<or>
     get_tcp_session_by_client h' t' (client_ip (sess h s)) (client_port (sess h s)) = Some None \<and>
       get_tcp_session_by_server h' t' (server_port (sess h s)) = Some (Some s))"
proof -
  note parts = table_rep_parts [OF rep] and d = table_repD [OF rep]
  let ?x = "sess h s" and ?v = "sweep (sess h) (times h) (zip cc sc)"
  have zip: "map fst (zip cc sc) = cc" "map snd (zip cc sc) = sc" using d(3,4) by simp_all
  obtain a where a: "concat cc = [(a, s)]" using concat_singleton [OF parts(6) one] by blast
  obtain b where b: "concat sc = [(b, s)]" using concat_singleton [OF parts(7)] one parts(8) by blast
  have race: "client_cells ?v = [(a, s)] \<and> server_cells ?v = [] \<or> client_cells ?v = [] \<and> server_cells ?v = [(b, s)]"
    using sweep_race [of "zip cc sc" "(a, s)" "(b, s)" "times h" "sess h", unfolded zip, OF a b] clock by simp
  obtain N k ps qs where N: "clean_expired_session h t =
      Some (h\<lparr>nodes := N, times := (\<lambda>n. times h (n + k))\<rparr>, t\<lparr>list_client_key := ps, list_server_key := qs\<rparr>)"
    "list_all2 (chain N) ps (map fst ?v)" "list_all2 (chain N) qs (map snd ?v)"
    using clean_expired_session_any [OF rep] by blast
  let ?h = "h\<lparr>nodes := N, times := (\<lambda>n. times h (n + k))\<rparr>" and ?t = "t\<lparr>list_client_key := ps, list_server_key := qs\<rparr>"
  have t: "len ?t = len t" "0 < len ?t" "len ?t < 2 ^ 31" "list_client_key ?t = ps" "list_server_key ?t = qs"
    "sessions ?h = sessions h" "nodes ?h = N" using d by simp_all
  have sub: "list_all2 (\<lambda>cs ds. set ds \<subseteq> set cs) cc (map fst ?v)" "list_all2 (\<lambda>cs ds. set ds \<subseteq> set cs) sc (map snd ?v)"
    using sweep_subset [of "zip cc sc", unfolded zip] by blast+
  have len: "length (map fst ?v) = nat (len t)" "length (map snd ?v) = nat (len t)"
    using sub d(3,4) by (auto dest: list_all2_lengthD)
  have bc: "buckets ?h (\<lambda>x. client_bucket (nat (len t)) (client_ip x) (client_port x)) ps (map fst ?v)"
    using buckets_sweep [OF parts(1) _ sub(1) t(6)] N(2) unfolding t(7) by blast
  have bs: "buckets ?h (\<lambda>x. server_bucket (nat (len t)) (server_port x)) qs (map snd ?v)"
    using buckets_sweep [OF parts(2) _ sub(2) t(6)] N(3) unfolding t(7) by blast
  have "sessions h s \<noteq> None" using parts(9) one by blast
  then have live: "live_cells ?h (client_cells ?v)" "live_cells ?h (server_cells ?v)"
    unfolding live_cells_def t(6) by (metis race empty_iff empty_set list.set_intros(1) set_ConsD snd_conv)+
  let ?i = "client_bucket (nat (len t)) (client_ip ?x) (client_port ?x)" and ?j = "server_bucket (nat (len t)) (server_port ?x)"
  have n: "0 < nat (len t)" using d(1) by simp
  have look: "get_tcp_session_by_client ?h ?t (client_ip ?x) (client_port ?x) = Some (map_option snd
      (find (\<lambda>c. client_ip (sess h (snd c)) = client_ip ?x \<and> client_port (sess h (snd c)) = client_port ?x) (map fst ?v ! ?i)))"
    "get_tcp_session_by_server ?h ?t (server_port ?x) = Some (map_option snd
      (find (\<lambda>c. server_port (sess h (snd c)) = server_port ?x) (map snd ?v ! ?j)))"
    using lookup_one_array(1) [OF t(2,3) live(1)] lookup_one_array(2) [OF t(2,3) live(2)] bc bs len
    unfolding t(1,4-6) by blast+
  have in_bucket: "set (map fst ?v ! ?i) \<subseteq> set (client_cells ?v)" "set (map snd ?v ! ?j) \<subseteq> set (server_cells ?v)"
    using nth_in_concat [of ?i "map fst ?v"] nth_in_concat [of ?j "map snd ?v"] len bucket_less [OF n] by auto
  have found: "\<exists>c \<in> set (map fst ?v ! ?i). snd c = s" if "s \<in> cell_sessions (map fst ?v)"
    using buckets_in [OF bc that] unfolding t(6) .
  have found': "\<exists>c \<in> set (map snd ?v ! ?j). snd c = s" if "s \<in> cell_sessions (map snd ?v)"
    using buckets_in [OF bs that] unfolding t(6) .
  from race have "get_tcp_session_by_client ?h ?t (client_ip ?x) (client_port ?x) = Some (Some s) \<and>
       get_tcp_session_by_server ?h ?t (server_port ?x) = Some None \<or>
     get_tcp_session_by_client ?h ?t (client_ip ?x) (client_port ?x) = Some None \<and>
       get_tcp_session_by_server ?h ?t (server_port ?x) = Some (Some s)"
  proof (elim disjE conjE)
    assume v: "client_cells ?v = [(a, s)]" "server_cells ?v = []"
    have "(a, s) \<in> set (map fst ?v ! ?i)" using found in_bucket(1) unfolding v by force
    then have "find (\<lambda>c. client_ip (sess h (snd c)) = client_ip ?x \<and> client_port (sess h (snd c)) = client_port ?x)
        (map fst ?v ! ?i) = Some (a, s)"
      using in_bucket(1) unfolding v by (intro find_only) simp_all
    moreover have "map snd ?v ! ?j = []" using in_bucket(2) unfolding v by simp
    ultimately show ?thesis unfolding look by simp
  next
    assume v: "client_cells ?v = []" "server_cells ?v = [(b, s)]"
    have "(b, s) \<in> set (map snd ?v ! ?j)" using found' in_bucket(2) unfolding v by force
    then have "find (\<lambda>c. server_port (sess h (snd c)) = server_port ?x) (map snd ?v ! ?j) = Some (b, s)"
      using in_bucket(2) unfolding v by (intro find_only) simp_all
    moreover have "map fst ?v ! ?i = []" using in_bucket(1) unfolding v by simp
    ultimately show ?thesis unfolding look by simp
  qed
  then show ?thesis using N(1) t(6) by blast
qed

section \<open>Printing\<close>

text \<open>
  What the debugging functions print: the \<^verbatim>\<open>printf\<close> calls in order, each with its format (less the
  leading tabs and the newline) and its arguments. The \<^verbatim>\<open>%d\<close> conversion of the
  unsigned address prints its bits as a signed number.
\<close>

partial_function (option) print_session_linked_list :: "heap \<Rightarrow> ptr \<Rightarrow> (printf_call list \<times> heap) option" where
  "print_session_linked_list h head =
     (case head of None \<Rightarrow> Some ([], h)
      | Some a \<Rightarrow> do {
          n \<leftarrow> nodes h a;
          x \<leftarrow> node_session h n;
          (out, h') \<leftarrow> print_session_linked_list (tick h) (nxt n);
          Some ([(''client ip: %d'', [sint (client_ip x)]), (''client port: %d'', [uint (client_port x)]),
             (''server port: %d'', [uint (server_port x)]), (''SYN-state: %d'', [uint (syn_state x)]),
             (''client-fin-state: %d'', [uint (client_fin_state x)]),
             (''server-fin-state: %d'', [uint (server_fin_state x)]),
             ((if time_NULL h > expire x then ''expired'' else ''not expired''), []), ([], [])] @ out, h') })"

declare print_session_linked_list.simps [code]

function print_table_from :: "heap \<Rightarrow> session_hash_table \<Rightarrow> int \<Rightarrow> (printf_call list \<times> heap) option" where
  "print_table_from h t i =
     (if i < len t then do {
        p \<leftarrow> arr (list_client_key t) i;
        (out, h) \<leftarrow> print_session_linked_list h p;
        (out', h) \<leftarrow> print_table_from h t (i + 1);
        Some (out @ out', h) }
      else Some ([], h))"
  by pat_completeness auto
termination
  by (relation "measure (\<lambda>(h, t, i). nat (len t - i))") auto

declare print_table_from.simps [simp del]

definition print_session_hash_table :: "heap \<Rightarrow> session_hash_table \<Rightarrow> (printf_call list \<times> heap) option" where
  "print_session_hash_table h t = do {
     (out, h) \<leftarrow> print_table_from h t 0;
     Some ((''session info:'', []) # out @ [([], [])], h) }"

text \<open>Printing reads the clock once per cell, ends, and changes nothing else.\<close>

lemma print_session_linked_list_chain:
  "chain (nodes h) p cs \<Longrightarrow> live_cells h cs \<Longrightarrow>
    \<exists>out. print_session_linked_list h p = Some (out, h\<lparr>times := (\<lambda>n. times h (n + length cs))\<rparr>) \<and>
      length out = 8 * length cs"
proof (induction cs arbitrary: p h)
  case (Cons c cs)
  then obtain q x where c: "p = Some (fst c)" "nodes h (fst c) = Some \<lparr>session = Some (snd c), nxt = q\<rparr>"
    "chain (nodes h) q cs" "sessions h (snd c) = Some x"
    by (auto simp: chain_Cons_iff live_cells_def simp del: chain.simps(2))
  have "chain (nodes (tick h)) q cs" "live_cells (tick h) cs"
    using c(3) Cons.prems(2) by (simp_all add: tick_def live_cells_def)
  from Cons.IH [OF this] show ?case
    by (auto simp: print_session_linked_list.simps [of h] c node_session_def tick_def)
qed (simp add: print_session_linked_list.simps)

lemma print_table_from_chains:
  assumes "drop i (list_client_key t) = ps" "len t = int (i + length ps)"
    "list_all2 (chain (nodes h)) ps cc" "live_cells h (concat cc)"
  shows "\<exists>out. print_table_from h t (int i) = Some (out, h\<lparr>times := (\<lambda>n. times h (n + length (concat cc)))\<rparr>) \<and>
    length out = 8 * length (concat cc)"
  using assms
proof (induction ps arbitrary: i cc h)
  case Nil
  then show ?case by (simp add: print_table_from.simps)
next
  case (Cons p ps)
  obtain c cc' where cc: "cc = c # cc'" "chain (nodes h) p c" "list_all2 (chain (nodes h)) ps cc'"
    using Cons.prems(3) by (auto simp: list_all2_Cons1)
  let ?h = "h\<lparr>times := (\<lambda>n. times h (n + length c))\<rparr>"
  have p: "arr (list_client_key t) (int i) = Some p" "drop (Suc i) (list_client_key t) = ps"
    using arr_drop Cons.prems(1) by metis+
  obtain out where out: "print_session_linked_list h p = Some (out, ?h)" "length out = 8 * length c"
    using print_session_linked_list_chain [OF cc(2)] Cons.prems(4) by (auto simp: cc(1) live_cells_def)
  obtain out' where "print_table_from ?h t (int (Suc i)) =
      Some (out', ?h\<lparr>times := (\<lambda>n. times ?h (n + length (concat cc')))\<rparr>)" "length out' = 8 * length (concat cc')"
    using Cons.IH [OF p(2), of ?h cc'] Cons.prems(2,4) cc(3) by (auto simp: cc(1) live_cells_def)
  then have "print_table_from h t (int i) =
      Some (out @ out', ?h\<lparr>times := (\<lambda>n. times ?h (n + length (concat cc')))\<rparr>)"
    using Cons.prems(2) p(1) out(1) by (subst print_table_from.simps) (simp add: add.commute [of 1 "int i"])
  then show ?case
    using out(2) \<open>length out' = 8 * length (concat cc')\<close> by (simp add: cc(1) algebra_simps)
qed

lemma tick_power: "(tick ^^ k) h = h\<lparr>times := (\<lambda>n. times h (n + k))\<rparr>"
  by (induction k) (simp_all add: tick_def)

lemma print_session_hash_table_rep:
  assumes rep: "table_rep h t cc sc"
  shows "\<exists>out. print_session_hash_table h t = Some (out, (tick ^^ card (cell_sessions cc)) h) \<and>
    length out = 8 * card (cell_sessions cc) + 2"
proof -
  note d = table_rep_parts [OF rep]
  have ch: "list_all2 (chain (nodes h)) (list_client_key t) cc" "live_cells h (concat cc)"
    using d(1,9) unfolding buckets_def live_cells_def by blast+
  have l: "len t = int (0 + length (list_client_key t))"
    using rep by (simp add: table_rep_def)
  have "card (cell_sessions cc) = length (concat cc)"
    using d(6) distinct_card [of "map snd (concat cc)"] by (simp only: set_map length_map)
  then show ?thesis
    using print_table_from_chains [OF drop_0 l ch]
    by (auto simp: print_session_hash_table_def tick_power simp del: set_concat length_concat)
qed

lemma print_session_hash_table_total:
  assumes "table_inv h t"
  shows "\<exists>out k. print_session_hash_table h t = Some (out, (tick ^^ k) h)"
  using assms print_session_hash_table_rep unfolding table_inv_def by blast

end
