(* ===== verification/Packet_Handler.thy ===== *)
theory Packet_Handler
  imports Protocol_Headers Table_Sweep
begin

text \<open>
  The two packet handlers of \<^verbatim>\<open>src/src/lib/packet_handler.c\<close>: \<^verbatim>\<open>handle_client_packet\<close> translates
  a packet of a VPN client on its way out, \<^verbatim>\<open>handle_world_packet\<close> a packet of the world on its way
  back. Each validates the packet, finds the session (the client side creates it on a SYN), follows
  the TCP flags in the state fields of the session and rewrites one end point of
  the packet; a packet without a live session is turned into a reset.

  The flag handling is a small state machine; its reachable states are characterised
  by an inductive relation. The lemmas on the handlers rest on the interface \<open>nat_table\<close> of
  the session table and on the contract \<open>header_rewrite\<close> of the header routines.
\<close>

declare add_2_eq_Suc [simp del] add_2_eq_Suc' [simp del]

section \<open>The flags of a segment\<close>

text \<open>
  The fields of the TCP header that the flag handling reads, the numbers in host order
  (\<^verbatim>\<open>htonl(tcp_header->seq)\<close> and \<^verbatim>\<open>htonl(tcp_header->ack_seq)\<close>).
\<close>

record segment =
  syn :: bool
  ack :: bool
  fin :: bool
  seq :: u32
  ack_seq :: u32

definition read_segment :: "buf \<Rightarrow> nat \<Rightarrow> segment option" where
  "read_segment b p = do {
     s \<leftarrow> tcp_syn b p; a \<leftarrow> tcp_ack b p; f \<leftarrow> tcp_fin b p;
     n \<leftarrow> tcp_seq b p; m \<leftarrow> tcp_ack_seq b p;
     Some \<lparr>syn = s, ack = a, fin = f, seq = htonl n, ack_seq = htonl m\<rparr> }"

definition client_flags :: "segment \<Rightarrow> tcp_session \<Rightarrow> tcp_session" where
  "client_flags g x =
     (if syn g \<and> syn_state x = 0 then x\<lparr>client_last_state_seq := seq g\<rparr>
      else
        let x = (if ack g \<and> ack_seq g > server_last_state_seq x then
                   if syn_state x = 2 then x\<lparr>syn_state := 3\<rparr>
                   else if client_fin_state x = 1 then x\<lparr>client_fin_state := 2\<rparr>
                   else x
                 else x)
        in if fin g then
             if server_fin_state x = 0 then x\<lparr>server_fin_state := 1, client_last_state_seq := seq g\<rparr> else x
           else x)"

definition world_flags :: "segment \<Rightarrow> tcp_session \<Rightarrow> tcp_session" where
  "world_flags g x =
     (if syn g \<and> syn_state x = 0 \<and> ack g \<and> ack_seq g > client_last_state_seq x
      then x\<lparr>syn_state := 2, server_last_state_seq := seq g\<rparr>
      else
        let x = (if ack g \<and> server_fin_state x = 1 \<and> ack_seq g > client_last_state_seq x
                 then x\<lparr>server_fin_state := 2\<rparr> else x)
        in if fin g \<and> client_fin_state x = 0
           then x\<lparr>client_fin_state := 1, server_last_state_seq := seq g\<rparr> else x)"

section \<open>The handlers\<close>

datatype verdict = VALID_SESSION | INVALID_SESSION

text \<open>The branch that turns the packet into a reset and stores its length in \<^verbatim>\<open>*rst_size\<close>.\<close>

definition reset_packet :: "buf \<Rightarrow> heap \<Rightarrow> session_hash_table \<Rightarrow>
    (verdict \<times> int \<times> buf \<times> heap \<times> session_hash_table) option" where
  "reset_packet b h t = do { (n, b) \<leftarrow> fillin_reset b; Some (INVALID_SESSION, n, b, h, t) }"

text \<open>
  Arguments beside those of the C function: the uninitialised counter of \<^verbatim>\<open>add_tcp_session\<close>, the heap,
  and the value \<open>rst\<close> of \<^verbatim>\<open>*rst_size\<close>, which a forwarded packet leaves alone.
\<close>

definition handle_client_packet :: "int \<Rightarrow> heap \<Rightarrow> session_hash_table \<Rightarrow> buf \<Rightarrow> int \<Rightarrow> u32 \<Rightarrow> int \<Rightarrow>
    (verdict \<times> int \<times> buf \<times> heap \<times> session_hash_table) option" where
  "handle_client_packet count h t b buffer_len vpn_server_ip rst = do {
     v \<leftarrow> validate_ip_tcp b buffer_len;
     case v of
       INVALID_IP_TCP \<Rightarrow> reset_packet b h t
     | VALID_IP_TCP ip_header tcp_header \<Rightarrow> do {
         g \<leftarrow> read_segment b tcp_header;
         saddr \<leftarrow> ip_saddr b ip_header;
         source \<leftarrow> tcp_source b tcp_header;
         (session, h, t) \<leftarrow>
           (if syn g then add_tcp_session count h t (ntohl saddr) (ntohs source) 10
            else do { s \<leftarrow> get_tcp_session_by_client h t (ntohl saddr) (ntohs source); Some (s, h, t) });
         case session of
           None \<Rightarrow> reset_packet b h t
         | Some s \<Rightarrow> do {
             (expired, h) \<leftarrow> session_expired h s;
             if expired then reset_packet b h t
             else do {
               x \<leftarrow> sessions h s;
               let h = put_session h s (client_flags g x);
               b \<leftarrow> replace_src_ip_port b vpn_server_ip (server_port x);
               Some (VALID_SESSION, rst, b, h, t) } } } }"

text \<open>The result has the new value of \<^verbatim>\<open>*client_ip\<close> too, which a rejected packet leaves alone.\<close>

definition handle_world_packet :: "heap \<Rightarrow> session_hash_table \<Rightarrow> buf \<Rightarrow> int \<Rightarrow> int \<Rightarrow> u32 \<Rightarrow>
    (u32 \<times> verdict \<times> int \<times> buf \<times> heap \<times> session_hash_table) option" where
  "handle_world_packet h t b buffer_len rst cip = do {
     v \<leftarrow> validate_ip_tcp b buffer_len;
     case v of
       INVALID_IP_TCP \<Rightarrow> map_option (Pair cip) (reset_packet b h t)
     | VALID_IP_TCP ip_header tcp_header \<Rightarrow> do {
         g \<leftarrow> read_segment b tcp_header;
         dest \<leftarrow> tcp_dest b tcp_header;
         session \<leftarrow> get_tcp_session_by_server h t (ntohs dest);
         case session of
           None \<Rightarrow> map_option (Pair cip) (reset_packet b h t)
         | Some s \<Rightarrow> do {
             (expired, h) \<leftarrow> session_expired h s;
             if expired then map_option (Pair cip) (reset_packet b h t)
             else do {
               x \<leftarrow> sessions h s;
               let h = put_session h s (world_flags g x);
               b \<leftarrow> replace_dst_ip_port b (client_ip x) (client_port x);
               Some (client_ip x, VALID_SESSION, rst, b, h, t) } } } }"

text \<open>
  What the world handler prints on its way. It is kept apart from the result; the caller prints it, and makes the two of the
  same state.
\<close>

definition world_messages :: "heap \<Rightarrow> session_hash_table \<Rightarrow> buf \<Rightarrow> int \<Rightarrow> printf_call list option" where
  "world_messages h t b buffer_len = do {
     v \<leftarrow> validate_ip_tcp b buffer_len;
     case v of
       INVALID_IP_TCP \<Rightarrow> Some []
     | VALID_IP_TCP ip_header tcp_header \<Rightarrow> do {
         dest \<leftarrow> tcp_dest b tcp_header;
         let searching = (''Debug searching world, tcp->dest %d'', [uint (ntohs dest)]);
         session \<leftarrow> get_tcp_session_by_server h t (ntohs dest);
         case session of
           None \<Rightarrow> Some [searching, (''session is nil %d'', [1])]
         | Some s \<Rightarrow> do {
             (expired, h) \<leftarrow> session_expired h s;
             Some (if expired then [searching, (''session is nil %d'', [0])] else [searching]) } } }"

lemma world_messages_defined:
  assumes "handle_world_packet h t b n rst cip = Some r"
  shows "\<exists>ms. world_messages h t b n = Some ms"
proof -
  have "world_messages h t b n = None \<Longrightarrow> handle_world_packet h t b n rst cip = None"
    unfolding handle_world_packet_def world_messages_def Let_def
    by (auto simp: bind_eq_None_conv split: bind_splits ip_tcp.splits option.splits prod.splits)
  then show ?thesis using assms by (cases "world_messages h t b n") simp_all
qed

section \<open>The state machine of a session\<close>

text \<open>One handled packet, from either side, and the states a session gets into from its creation.\<close>

inductive session_step :: "tcp_session \<Rightarrow> tcp_session \<Rightarrow> bool" where
  from_client: "session_step x (client_flags g x)"
| from_world: "session_step x (world_flags g x)"

inductive_cases session_stepE: "session_step x y"

inductive session_reachable :: "tcp_session \<Rightarrow> bool" where
  created: "session_reachable (new_session ip port sport e)"
| handled: "session_reachable x \<Longrightarrow> session_step x y \<Longrightarrow> session_reachable y"

definition session_state_ok :: "tcp_session \<Rightarrow> bool" where
  "session_state_ok x \<longleftrightarrow> syn_state x \<in> {0, 2, 3} \<and> client_fin_state x \<in> {0, 1, 2} \<and> server_fin_state x \<in> {0, 1, 2}"

lemmas flags_defs = client_flags_def world_flags_def Let_def

lemma flags_keep:
  "same_keys (client_flags g x) x" "same_keys (world_flags g x) x"
  "expire (client_flags g x) = expire x" "expire (world_flags g x) = expire x"
  by (simp_all add: flags_defs same_keys_def)

lemma step_keeps:
  assumes "session_step x y"
  shows "same_keys y x" "expire y = expire x"
  using assms flags_keep by (auto elim: session_stepE)

lemma step_state_ok: "session_step x y \<Longrightarrow> session_state_ok x \<Longrightarrow> session_state_ok y"
  by (erule session_stepE) (auto simp: flags_defs session_state_ok_def)

lemma new_session_state_ok: "session_state_ok (new_session ip port p e)"
  by (simp add: session_state_ok_def new_session_def zero_session_def)

lemma reachable_state_ok: "session_reachable x \<Longrightarrow> session_state_ok x"
  by (induction rule: session_reachable.induct) (simp_all add: new_session_state_ok step_state_ok)

text \<open>The three state fields only grow.\<close>

definition state_le :: "tcp_session \<Rightarrow> tcp_session \<Rightarrow> bool" where
  "state_le x y \<longleftrightarrow> syn_state x \<le> syn_state y \<and> client_fin_state x \<le> client_fin_state y \<and>
     server_fin_state x \<le> server_fin_state y"

lemma step_state_le: "session_step x y \<Longrightarrow> state_le x y"
  by (erule session_stepE) (auto simp: flags_defs state_le_def)

section \<open>What the handlers read\<close>

text \<open>A packet the handlers accept, in a buffer of which \<open>n\<close> bytes are said to be used.\<close>

definition tcp_packet :: "buf \<Rightarrow> int \<Rightarrow> nat \<Rightarrow> nat \<Rightarrow> nat \<Rightarrow> bool" where
  "tcp_packet b n ihl doff tot \<longleftrightarrow> ip_tcp_packet b ihl doff tot \<and> b ! 9 = IPPROTO_TCP \<and>
     int tot \<le> n \<and> n \<le> int (length b) \<and> n < 2 ^ 31"

lemma validate_tcp_packet:
  assumes "tcp_packet b n ihl doff tot"
  shows "validate_ip_tcp b n = Some (VALID_IP_TCP 0 (4 * ihl))"
proof -
  have pkt: "ip_tcp_packet b ihl doff tot" and n: "int tot \<le> n" "n \<le> int (length b)" "n < 2 ^ 31" and p: "b ! 9 = 6"
    using assms by (auto simp: tcp_packet_def)
  note len = packet_lengths [OF pkt]
  have bytes: "unat (b ! 0) mod 16 = ihl" "unat (b ! (4 * ihl + 12)) div 16 = doff" "unat (le16 (b ! 3) (b ! 2)) = tot"
    using pkt by (simp_all add: packet_bytes)
  have "0 \<le> n" "40 \<le> n" "int (4 * ihl + 20) \<le> n" using n len by linarith+
  then show ?thesis
    using validate_ip_tcp_spec [of n b] n len p by (simp add: Let_def bytes)
qed

text \<open>
  What the validation lets through: the length fields may still be smaller than a header, so the two headers may overlap.
\<close>

definition accepted :: "buf \<Rightarrow> int \<Rightarrow> nat \<Rightarrow> bool" where
  "accepted b n ihl \<longleftrightarrow> validate_ip_tcp b n = Some (VALID_IP_TCP 0 (4 * ihl)) \<and> 4 * ihl + 20 \<le> length b \<and> 40 \<le> length b"

lemma tcp_packet_accepted: "tcp_packet b n ihl doff tot \<Longrightarrow> accepted b n ihl"
  using validate_tcp_packet [of b n ihl doff tot] packet_lengths [of b ihl doff tot]
  by (auto simp: accepted_def tcp_packet_def)

lemma accepted_or_not:
  assumes "0 \<le> n" and "n < 2 ^ 31" and "n \<le> int (length b)"
  obtains (invalid) "validate_ip_tcp b n = Some INVALID_IP_TCP"
  | (valid) ihl where "accepted b n ihl" "unat (b ! 0) mod 16 = ihl" "int (unat (le16 (b ! 3) (b ! 2))) \<le> n"
  using validate_ip_tcp_spec [OF assms] assms(3) that by (auto simp: Let_def accepted_def split: if_splits)

lemma packet_reads:
  assumes "accepted b n ihl"
  obtains g sa so de where "read_segment b (4 * ihl) = Some g" "ld32 b 12 = Some sa"
    "ld16 b (4 * ihl) = Some so" "ld16 b (4 * ihl + 2) = Some de"
proof -
  have "4 * ihl + 20 \<le> length b" "40 \<le> length b" using assms by (auto simp: accepted_def)
  then show thesis
    using that by (simp add: read_segment_def tcp_flag_def ld8_def ld16_Some ld32_Some)
qed

text \<open>The end points a packet names, in host order.\<close>

definition src_ip :: "buf \<Rightarrow> u32" where
  "src_ip b = ntohl (the (ld32 b 12))"

definition src_port :: "buf \<Rightarrow> nat \<Rightarrow> u16" where
  "src_port b ihl = ntohs (the (ld16 b (4 * ihl)))"

definition dst_port :: "buf \<Rightarrow> nat \<Rightarrow> u16" where
  "dst_port b ihl = ntohs (the (ld16 b (4 * ihl + 2)))"

section \<open>Outcomes of the client handler\<close>

text \<open>The session of a packet: a SYN may create it, every other packet only looks it up.\<close>

definition client_lookup :: "int \<Rightarrow> heap \<Rightarrow> session_hash_table \<Rightarrow> bool \<Rightarrow> u32 \<Rightarrow> u16 \<Rightarrow>
    (ptr \<times> heap \<times> session_hash_table) option" where
  "client_lookup count h t is_syn ip port =
     (if is_syn then add_tcp_session count h t ip port 10
      else do { s \<leftarrow> get_tcp_session_by_client h t ip port; Some (s, h, t) })"

lemma handle_client_unfold:
  assumes "accepted b n ihl"
  shows "handle_client_packet count h t b n vpn rst = do {
      (r, h, t) \<leftarrow> client_lookup count h t (syn (the (read_segment b (4 * ihl)))) (src_ip b) (src_port b ihl);
      case r of None \<Rightarrow> reset_packet b h t
      | Some s \<Rightarrow> do {
          (expired, h) \<leftarrow> session_expired h s;
          if expired then reset_packet b h t
          else do {
            x \<leftarrow> sessions h s;
            b' \<leftarrow> replace_src_ip_port b vpn (server_port x);
            Some (VALID_SESSION, rst, b', put_session h s (client_flags (the (read_segment b (4 * ihl))) x), t) } } }"
proof -
  obtain g sa so de where r: "read_segment b (4 * ihl) = Some g" "ld32 b 12 = Some sa" "ld16 b (4 * ihl) = Some so"
    using packet_reads [OF assms] by metis
  have valid: "validate_ip_tcp b n = Some (VALID_IP_TCP 0 (4 * ihl))" using assms by (simp add: accepted_def)
  show ?thesis
    unfolding handle_client_packet_def valid client_lookup_def src_ip_def src_port_def
      r option.sel Let_def by (simp add: r)
qed

lemma client_lookup_inv:
  assumes "table_inv h t" and "client_lookup count h t y ip port = Some (r, h', t')"
  shows "table_inv h' t'" "get_tcp_session_by_client h' t' ip port = Some r"
    "port_range t' = port_range t" "mod_num t' = mod_num t"
  using assms add_inv [of h t count ip port 10 r h' t'] add_lookups(1) [of h t count ip port 10 r h' t' ip port]
    add_keeps_range [of h t count ip port 10 r h' t']
  by (auto simp: client_lookup_def bind_eq_Some_conv split: if_splits)

text \<open>Reading the clock and writing the state fields of a session leave the table as it was.\<close>

lemma touch_session:
  assumes "table_inv h t" and "sessions h s = Some y" and "same_keys x y"
  shows "table_inv (put_session (tick h) s x) t"
    "get_tcp_session_by_client (put_session (tick h) s x) t ip port = get_tcp_session_by_client h t ip port"
    "get_tcp_session_by_server (put_session (tick h) s x) t p = get_tcp_session_by_server h t p"
    "sessions (put_session (tick h) s x) = (sessions h)(s \<mapsto> x)"
proof -
  obtain cc sc where rep: "table_rep h t cc sc" using assms(1) by (auto simp: table_inv_def)
  have tick: "table_rep (tick h) t cc sc" using rep by simp
  moreover have "sessions (tick h) s = Some y" using assms(2) by (simp add: tick_def)
  note tick = calculation this
  show "table_inv (put_session (tick h) s x) t"
    using table_rep_put_session [OF tick assms(3)] by (auto simp: table_inv_def)
  show "get_tcp_session_by_client (put_session (tick h) s x) t ip port = get_tcp_session_by_client h t ip port"
    "get_tcp_session_by_server (put_session (tick h) s x) t p = get_tcp_session_by_server h t p"
    using lookup_put_session [OF tick assms(3)] rep by (simp_all add: lookup_tick)
  show "sessions (put_session (tick h) s x) = (sessions h)(s \<mapsto> x)"
    by (simp add: put_session_def tick_def)
qed

lemma table_inv_tick [simp]: "table_inv (tick h) t = table_inv h t"
  by (simp add: table_inv_def)

lemma session_expired_simp:
  "sessions h s = Some x \<Longrightarrow> session_expired h s = Some (time_NULL h > expire x, tick h)"
  by (simp add: session_expired_def)

lemma reset_packet_result:
  "reset_packet b h t = Some (v, r, b', h', t') \<Longrightarrow> v = INVALID_SESSION \<and> h' = h \<and> t' = t"
  by (auto simp: reset_packet_def bind_eq_Some_conv)

text \<open>A forwarded packet: its session is in the table, from both sides, and live.\<close>

lemma handle_client_valid:
  assumes inv: "table_inv h t" and pkt: "accepted b n ihl"
    and run: "handle_client_packet count h t b n vpn rst = Some (VALID_SESSION, rst', b', h', t')"
  obtains h1 s x where "rst' = rst" "table_inv h' t'"
    "client_lookup count h t (syn (the (read_segment b (4 * ihl)))) (src_ip b) (src_port b ihl) = Some (Some s, h1, t')"
    "sessions h1 s = Some x" "time_NULL h1 \<le> expire x"
    "h' = put_session (tick h1) s (client_flags (the (read_segment b (4 * ihl))) x)"
    "get_tcp_session_by_client h' t' (src_ip b) (src_port b ihl) = Some (Some s)"
    "get_tcp_session_by_server h' t' (server_port x) = Some (Some s)"
    "client_ip x = src_ip b" "client_port x = src_port b ihl"
    "replace_src_ip_port b vpn (server_port x) = Some b'"
proof -
  obtain r h1 t1 where look: "client_lookup count h t (syn (the (read_segment b (4 * ihl)))) (src_ip b) (src_port b ihl)
      = Some (r, h1, t1)"
    using run unfolding handle_client_unfold [OF pkt] by (auto simp: bind_eq_Some_conv)
  note inv1 = client_lookup_inv [OF inv look]
  obtain s where r: "r = Some s"
    using run look unfolding handle_client_unfold [OF pkt] by (cases r) (auto dest: reset_packet_result)
  obtain x where x: "sessions h1 s = Some x" "client_ip x = src_ip b" "client_port x = src_port b ihl"
    using table_client_sound [OF inv1(1)] inv1(2) r by blast
  have live: "\<not> time_NULL h1 > expire x"
    using run look unfolding handle_client_unfold [OF pkt]
    by (auto simp: r session_expired_simp [OF x(1)] dest: reset_packet_result split: if_splits)
  let ?x = "client_flags (the (read_segment b (4 * ihl))) x" and ?h = "put_session (tick h1) s (client_flags (the (read_segment b (4 * ihl))) x)"
  have res: "rst' = rst" "h' = ?h" "t' = t1" "replace_src_ip_port b vpn (server_port x) = Some b'"
    using run look live unfolding handle_client_unfold [OF pkt]
    by (auto simp: r session_expired_simp [OF x(1)] bind_eq_Some_conv tick_def x(1))
  have keys: "same_keys ?x x" by (rule flags_keep)
  note touch = touch_session [OF inv1(1) x(1) keys]
  show thesis
  proof (rule that)
    show "get_tcp_session_by_server h' t' (server_port x) = Some (Some s)"
      using table_client_server [OF inv1(1)] inv1(2) r x(1) by (simp add: res(2,3) touch(3))
    show "get_tcp_session_by_client h' t' (src_ip b) (src_port b ihl) = Some (Some s)"
      using inv1(2) r by (simp add: res(2,3) touch(2))
  qed (use res look r x live touch(1) in auto)
qed

lemma reset_packet_total:
  assumes "40 \<le> length b"
  shows "\<exists>b'. reset_packet b h t = Some (INVALID_SESSION, 40, b', h, t) \<and> fillin_reset b = Some (40, b')"
  using fillin_reset_correct [OF assms] by (auto simp: reset_packet_def)

lemma client_lookup_total:
  assumes "table_inv h t" and "mod_num t \<noteq> 0" and "count < 2 ^ 31 - 1"
  shows "\<exists>r h' t'. client_lookup count h t y ip port = Some (r, h', t')"
proof -
  obtain cc sc where rep: "table_rep h t cc sc" using assms(1) by (auto simp: table_inv_def)
  show ?thesis
    using add_tcp_session_total [OF rep assms(2,3), of ip port 10] get_total(1) [OF rep, of ip port]
    by (auto simp: client_lookup_def)
qed

lemma handle_client_accepted:
  assumes inv: "table_inv h t" and pkt: "accepted b n ihl"
    and "mod_num t \<noteq> 0" and "count < 2 ^ 31 - 1"
    and rewrite: "\<And>port. \<exists>b'. replace_src_ip_port b vpn port = Some b' \<and> length b' = length b"
  shows "\<exists>v r b' h' t'. handle_client_packet count h t b n vpn rst = Some (v, r, b', h', t') \<and> table_inv h' t' \<and>
    port_range t' = port_range t \<and> mod_num t' = mod_num t \<and>
    length b' = length b"
proof -
  have len: "40 \<le> length b" using pkt by (simp add: accepted_def)
  obtain r h1 t1 where look: "client_lookup count h t (syn (the (read_segment b (4 * ihl)))) (src_ip b) (src_port b ihl)
      = Some (r, h1, t1)"
    using client_lookup_total [OF inv assms(3,4)] by blast
  note inv1 = client_lookup_inv [OF inv look]
  have reset: "\<exists>v r b' h' t'. reset_packet b h2 t1 = Some (v, r, b', h', t') \<and> table_inv h' t' \<and>
      port_range t' = port_range t \<and> mod_num t' = mod_num t \<and> length b' = length b"
    if "table_inv h2 t1" for h2
    using reset_packet_total [OF len, of h2 t1] fillin_reset_correct [OF len] that inv1(3,4) by auto
  show ?thesis
  proof (cases r)
    case None
    then show ?thesis
      using reset [OF inv1(1)] by (simp add: handle_client_unfold [OF pkt] look)
  next
    case (Some s)
    then obtain x where x: "sessions h1 s = Some x" using table_client_sound [OF inv1(1)] inv1(2) by blast
    then have x': "sessions (tick h1) s = Some x" by (simp add: tick_def)
    obtain b' where b': "replace_src_ip_port b vpn (server_port x) = Some b'" "length b' = length b"
      using rewrite by blast
    show ?thesis
    proof (cases "time_NULL h1 > expire x")
      case True
      then show ?thesis
        using reset [of "tick h1"] inv1(1)
        by (simp add: handle_client_unfold [OF pkt] look Some session_expired_simp [OF x])
    next
      case False
      then show ?thesis
        using touch_session(1) [OF inv1(1) x flags_keep(1)] b' inv1(3,4)
        by (simp add: handle_client_unfold [OF pkt] look Some session_expired_simp [OF x] x')
    qed
  qed
qed

lemma tcp_packet_rewrite:
  assumes "tcp_packet b n ihl doff tot"
  shows "\<exists>b'. replace_src_ip_port b ip port = Some b' \<and> length b' = length b"
    "\<exists>b'. replace_dst_ip_port b ip port = Some b' \<and> length b' = length b"
proof -
  have "ip_tcp_packet b ihl doff tot" using assms by (simp add: tcp_packet_def)
  from src.rep_correct [OF this] dst.rep_correct [OF this]
  show "\<exists>b'. replace_src_ip_port b ip port = Some b' \<and> length b' = length b"
    "\<exists>b'. replace_dst_ip_port b ip port = Some b' \<and> length b' = length b" by blast+
qed

text \<open>A packet that is no TCP packet of the stated length is answered with a reset, whatever it holds.\<close>

lemma handle_client_no_packet:
  assumes "validate_ip_tcp b n = Some INVALID_IP_TCP"
  shows "handle_client_packet count h t b n vpn rst = reset_packet b h t"
  using assms by (simp add: handle_client_packet_def)

lemma handle_client_expired:
  assumes inv: "table_inv h t" and pkt: "accepted b n ihl"
    and s: "get_tcp_session_by_client h t (src_ip b) (src_port b ihl) = Some (Some s)" "sessions h s = Some x"
    and old: "expire x < time_NULL h"
  shows "handle_client_packet count h t b n vpn rst = reset_packet b (tick h) t"
proof -
  have "client_lookup count h t y (src_ip b) (src_port b ihl) = Some (Some s, h, t)" for y
    using s(1) inv by (auto simp: client_lookup_def table_inv_def add_tcp_session_cases)
  then show ?thesis
    using old by (simp add: handle_client_unfold [OF pkt] session_expired_simp [OF s(2)])
qed

lemma handle_client_known:
  assumes inv: "table_inv h t" and pkt: "tcp_packet b n ihl doff tot"
    and s: "get_tcp_session_by_client h t (src_ip b) (src_port b ihl) = Some (Some s)" "sessions h s = Some x"
    and live: "time_NULL h \<le> expire x"
  shows "\<exists>b'. replace_src_ip_port b vpn (server_port x) = Some b' \<and>
    handle_client_packet count h t b n vpn rst = Some (VALID_SESSION, rst, b',
      put_session (tick h) s (client_flags (the (read_segment b (4 * ihl))) x), t)"
proof -
  have "client_lookup count h t y (src_ip b) (src_port b ihl) = Some (Some s, h, t)" for y
    using s(1) inv by (auto simp: client_lookup_def table_inv_def add_tcp_session_cases)
  moreover have "sessions (tick h) s = Some x" using s(2) by (simp add: tick_def)
  ultimately show ?thesis
    using live tcp_packet_rewrite(1) [OF pkt, of vpn "server_port x"]
    by (auto simp: handle_client_unfold [OF tcp_packet_accepted [OF pkt]] session_expired_simp [OF s(2)])
qed

lemma handle_client_unknown:
  assumes "table_inv h t" and pkt: "accepted b n ihl"
    and "get_tcp_session_by_client h t (src_ip b) (src_port b ihl) = Some None"
    and "\<not> syn (the (read_segment b (4 * ihl)))"
  shows "handle_client_packet count h t b n vpn rst = reset_packet b h t"
  using assms(3,4) by (simp add: handle_client_unfold [OF pkt] client_lookup_def)

section \<open>Outcomes of the world handler\<close>

lemma handle_world_unfold:
  assumes "accepted b n ihl"
  shows "handle_world_packet h t b n rst cip = do {
      r \<leftarrow> get_tcp_session_by_server h t (dst_port b ihl);
      case r of None \<Rightarrow> map_option (Pair cip) (reset_packet b h t)
      | Some s \<Rightarrow> do {
          (expired, h) \<leftarrow> session_expired h s;
          if expired then map_option (Pair cip) (reset_packet b h t)
          else do {
            x \<leftarrow> sessions h s;
            b' \<leftarrow> replace_dst_ip_port b (client_ip x) (client_port x);
            Some (client_ip x, VALID_SESSION, rst, b', put_session h s (world_flags (the (read_segment b (4 * ihl))) x), t) } } }"
proof -
  obtain g sa so de where r: "read_segment b (4 * ihl) = Some g" "ld16 b (4 * ihl + 2) = Some de"
    using packet_reads [OF assms] by metis
  have valid: "validate_ip_tcp b n = Some (VALID_IP_TCP 0 (4 * ihl))" using assms by (simp add: accepted_def)
  show ?thesis
    unfolding handle_world_packet_def valid dst_port_def r option.sel Let_def by (simp add: r)
qed

text \<open>What happens to a packet for a port of the table, by the state of its session.\<close>

lemma handle_world_session:
  assumes pkt: "accepted b n ihl"
    and s: "get_tcp_session_by_server h t (dst_port b ihl) = Some (Some s)" "sessions h s = Some x"
  shows "time_NULL h \<le> expire x \<Longrightarrow> replace_dst_ip_port b (client_ip x) (client_port x) = Some b' \<Longrightarrow>
      handle_world_packet h t b n rst cip = Some (client_ip x, VALID_SESSION, rst, b',
        put_session (tick h) s (world_flags (the (read_segment b (4 * ihl))) x), t)"
    and "expire x < time_NULL h \<Longrightarrow>
      handle_world_packet h t b n rst cip = map_option (Pair cip) (reset_packet b (tick h) t)"
proof -
  have x': "sessions (tick h) s = Some x" using s(2) by (simp add: tick_def)
  show "time_NULL h \<le> expire x \<Longrightarrow> replace_dst_ip_port b (client_ip x) (client_port x) = Some b' \<Longrightarrow>
      handle_world_packet h t b n rst cip = Some (client_ip x, VALID_SESSION, rst, b',
        put_session (tick h) s (world_flags (the (read_segment b (4 * ihl))) x), t)"
    by (simp add: handle_world_unfold [OF pkt] s(1) session_expired_simp [OF s(2)] x')
  show "expire x < time_NULL h \<Longrightarrow>
      handle_world_packet h t b n rst cip = map_option (Pair cip) (reset_packet b (tick h) t)"
    by (simp add: handle_world_unfold [OF pkt] s(1) session_expired_simp [OF s(2)])
qed

lemma handle_world_known:
  assumes pkt: "tcp_packet b n ihl doff tot"
    and "get_tcp_session_by_server h t (dst_port b ihl) = Some (Some s)" "sessions h s = Some x" "time_NULL h \<le> expire x"
  shows "\<exists>b'. replace_dst_ip_port b (client_ip x) (client_port x) = Some b' \<and>
      handle_world_packet h t b n rst cip = Some (client_ip x, VALID_SESSION, rst, b',
        put_session (tick h) s (world_flags (the (read_segment b (4 * ihl))) x), t)"
  using handle_world_session(1) [OF tcp_packet_accepted [OF pkt] assms(2-4)] tcp_packet_rewrite(2) [OF pkt] by metis

lemma handle_world_unknown:
  assumes pkt: "accepted b n ihl" and "get_tcp_session_by_server h t (dst_port b ihl) = Some None"
  shows "handle_world_packet h t b n rst cip = map_option (Pair cip) (reset_packet b h t)"
  using assms(2) by (simp add: handle_world_unfold [OF pkt])

lemma handle_world_no_packet:
  assumes "validate_ip_tcp b n = Some INVALID_IP_TCP"
  shows "handle_world_packet h t b n rst cip = map_option (Pair cip) (reset_packet b h t)"
  using assms by (simp add: handle_world_packet_def)

lemma handle_world_accepted:
  assumes inv: "table_inv h t" and pkt: "accepted b n ihl"
    and rewrite: "\<And>s ip port. get_tcp_session_by_server h t (dst_port b ihl) = Some (Some s) \<Longrightarrow>
      \<exists>b'. replace_dst_ip_port b ip port = Some b' \<and> length b' = length b"
  shows "\<exists>c v r b' h'. handle_world_packet h t b n rst cip = Some (c, v, r, b', h', t) \<and> table_inv h' t \<and>
    length b' = length b"
proof -
  have len: "40 \<le> length b" using pkt by (simp add: accepted_def)
  have reset: "\<exists>c v r b' h'. map_option (Pair cip) (reset_packet b h2 t) = Some (c, v, r, b', h', t) \<and> table_inv h' t \<and>
      length b' = length b" if "table_inv h2 t" for h2
    using reset_packet_total [OF len, of h2 t] fillin_reset_correct [OF len] that by auto
  obtain g where g: "get_tcp_session_by_server h t (dst_port b ihl) = Some g"
    using table_server_total [OF inv] by blast
  show ?thesis
  proof (cases g)
    case None
    then show ?thesis using handle_world_unknown [OF pkt] g reset [OF inv] by simp
  next
    case (Some s)
    then obtain x where x: "sessions h s = Some x" using table_server_sound [OF inv] g by blast
    note known = handle_world_session [OF pkt g [unfolded Some] x]
    show ?thesis
    proof (cases "expire x < time_NULL h")
      case True
      then show ?thesis using known(2) reset [of "tick h"] inv by simp
    next
      case False
      obtain b' where b': "replace_dst_ip_port b (client_ip x) (client_port x) = Some b'" "length b' = length b"
        using rewrite g Some by blast
      then show ?thesis
        using known(1) False touch_session(1) [OF inv x flags_keep(2)] by simp
    qed
  qed
qed

text \<open>The first packet of an end point, when the next port is free.\<close>

lemma handle_client_new:
  assumes rep: "table_rep h t cc sc" and own: "owned h cc sc" and pkt: "tcp_packet b n ihl doff tot"
    and syn: "syn (the (read_segment b (4 * ihl)))" and "mod_num t \<noteq> 0"
    and none: "get_tcp_session_by_client h t (src_ip b) (src_port b ihl) = Some None"
      "get_tcp_session_by_server h t (next_port t) = Some None"
    and time: "times h 1 \<le> times h 0 + 10"
  shows "\<exists>b' h' t' cc' sc'. handle_client_packet count h t b n vpn rst = Some (VALID_SESSION, rst, b', h', t') \<and>
    length b' = length b \<and> table_rep h' t' cc' sc' \<and> owned h' cc' sc' \<and> cell_sessions cc' = insert (brk h) (cell_sessions cc) \<and>
    sessions h' (brk h) = Some (client_flags (the (read_segment b (4 * ihl)))
      (new_session (src_ip b) (src_port b ihl) (next_port t) (times h 0 + 10))) \<and>
    times h' = (\<lambda>k. times h (k + 2)) \<and> mod_num t' = mod_num t"
proof -
  let ?x = "new_session (src_ip b) (src_port b ihl) (next_port t) (time_NULL h + 10)"
  let ?y = "client_flags (the (read_segment b (4 * ihl))) ?x"
  obtain h1 t1 cc1 sc1 where add: "add_tcp_session count h t (src_ip b) (src_port b ihl) 10 = Some (Some (brk h), h1, t1)"
    and r: "table_rep h1 t1 cc1 sc1" "owned h1 cc1 sc1" "cell_sessions cc1 = insert (brk h) (cell_sessions cc)"
      "sessions h1 = (sessions h)(brk h \<mapsto> ?x)" "times h1 = (\<lambda>k. times h (Suc k))" "mod_num t1 = mod_num t"
    using add_tcp_session_first [OF rep assms(5) none, of count 10] own by blast
  have x: "sessions h1 (brk h) = Some ?x" "sessions (tick h1) (brk h) = Some ?x" using r(4) by (simp_all add: tick_def)
  have "time_NULL h1 \<le> expire ?x" using time r(5) by (simp add: time_NULL_def new_session_def)
  moreover obtain b' where "replace_src_ip_port b vpn (server_port ?x) = Some b'" "length b' = length b"
    using tcp_packet_rewrite(1) [OF pkt] by blast
  ultimately have run: "handle_client_packet count h t b n vpn rst
      = Some (VALID_SESSION, rst, b', put_session (tick h1) (brk h) ?y, t1)" "length b' = length b"
    using add syn
    by (auto simp: handle_client_unfold [OF tcp_packet_accepted [OF pkt]] client_lookup_def session_expired_simp [OF x(1)] x(2))
  have "table_rep (put_session (tick h1) (brk h) ?y) t1 cc1 sc1"
    using table_rep_put_session [OF _ x(2) flags_keep(1)] r(1) by simp
  moreover have "owned (put_session (tick h1) (brk h) ?y) cc1 sc1"
    using owned_put_session [OF _ x(2)] r(2) by simp
  moreover have "times (put_session (tick h1) (brk h) ?y) = (\<lambda>k. times h (k + 2))"
    "sessions (put_session (tick h1) (brk h) ?y) (brk h) = Some ?y"
    using r(5) by (simp_all add: put_session_def tick_def numeral_2_eq_2)
  ultimately show ?thesis
    using run r(3,6) unfolding time_NULL_def by blast
qed

section \<open>Any bytes at all\<close>

text \<open>
  A buffer that holds the longest headers is handled whatever it holds. For packets of the world this needs ports above the
  length passed: a packet whose IP header is said to be empty has its length field as its port.
\<close>

text \<open>What is printed about a packet for a live session.\<close>

lemma world_messages_known:
  assumes pkt: "tcp_packet b n ihl doff tot"
    and s: "get_tcp_session_by_server h t (dst_port b ihl) = Some (Some s)" "sessions h s = Some x" "time_NULL h \<le> expire x"
  shows "world_messages h t b n = Some [(''Debug searching world, tcp->dest %d'', [uint (dst_port b ihl)])]"
proof -
  obtain de where r: "ld16 b (4 * ihl + 2) = Some de" using packet_reads [OF tcp_packet_accepted [OF pkt]] by metis
  show ?thesis
    using s by (simp add: world_messages_def validate_tcp_packet [OF pkt] r dst_port_def Let_def session_expired_simp [OF s(2)])
qed

lemma handle_client_any:
  assumes inv: "table_inv h t" and "mod_num t \<noteq> 0" "count < 2 ^ 31 - 1"
    and n: "0 \<le> n" "n < 2 ^ 31" "n \<le> int (length b)" and len: "120 \<le> length b"
  shows "\<exists>v r b' h' t'. handle_client_packet count h t b n vpn rst = Some (v, r, b', h', t') \<and> table_inv h' t' \<and>
    port_range t' = port_range t \<and> mod_num t' = mod_num t \<and>
    length b' = length b"
  using n
proof (cases rule: accepted_or_not)
  case invalid
  have "40 \<le> length b" using len by simp
  then show ?thesis
    using reset_packet_total [of b h t] fillin_reset_correct [of b] inv handle_client_no_packet [OF invalid] by auto
next
  case (valid ihl)
  have "unat (le16 (b ! 3) (b ! 2)) \<le> length b" using valid(3) n(3) by linarith
  then show ?thesis
    using handle_client_accepted [OF inv valid(1) assms(2,3)] src.rep_defined [OF len] by blast
qed

lemma handle_world_any:
  assumes inv: "table_inv h t" and ports: "\<And>p. p \<in> port_range t \<Longrightarrow> n < int (unat p)"
    and n: "0 \<le> n" "n < 2 ^ 31" "n \<le> int (length b)" and len: "120 \<le> length b"
  shows "\<exists>c v r b' h'. handle_world_packet h t b n rst cip = Some (c, v, r, b', h', t) \<and> table_inv h' t \<and>
    length b' = length b"
  using n
proof (cases rule: accepted_or_not)
  case invalid
  have "40 \<le> length b" using len by simp
  then show ?thesis
    using reset_packet_total [of b h t] fillin_reset_correct [of b] inv handle_world_no_packet [OF invalid] by auto
next
  case (valid ihl)
  have tot: "unat (le16 (b ! 3) (b ! 2)) \<le> length b" using valid(3) n(3) by linarith
  have "unat (b ! 0) mod 16 \<noteq> 0" if s: "get_tcp_session_by_server h t (dst_port b ihl) = Some (Some s)" for s
  proof
    assume "unat (b ! 0) mod 16 = 0"
    then have "dst_port b ihl = le16 (b ! 3) (b ! 2)"
      using valid(2) len by (simp add: dst_port_def ld16_Some numeral_3_eq_3)
    moreover have "dst_port b ihl \<in> port_range t" using server_port_range [OF inv s] .
    ultimately show False using ports valid(3) by fastforce
  qed
  then show ?thesis
    using handle_world_accepted [OF inv valid(1)] dst.rep_defined [OF len tot] by blast
qed

section \<open>Packets in a longer buffer\<close>

lemma tcp_packet_take:
  assumes "tcp_packet (take n b) (int n) ihl doff tot" and "n \<le> length b" and "int n \<le> N" and "N \<le> int (length b)" and "N < 2 ^ 31"
  shows "tcp_packet b N ihl doff tot" "tot \<le> n" "src_ip (take n b) = src_ip b" "src_port (take n b) ihl = src_port b ihl"
    "dst_port (take n b) ihl = dst_port b ihl"
proof -
  have p: "ip_tcp_packet (take n b) ihl doff tot" "tot \<le> n" "take n b ! 9 = IPPROTO_TCP"
    using assms(1) by (auto simp: tcp_packet_def)
  note len = packet_lengths [OF p(1)]
  show "tcp_packet b N ihl doff tot"
    using p len assms packet_take [OF assms(2) p(2)] by (simp add: tcp_packet_def)
  show "tot \<le> n" by (rule p(2))
  show "src_ip (take n b) = src_ip b" "src_port (take n b) ihl = src_port b ihl" "dst_port (take n b) ihl = dst_port b ihl"
    using len p(2) assms(2) by (simp_all add: src_ip_def src_port_def dst_port_def ld16_take ld32_take)
qed

end
