(* ===== verification/Examples.thy ===== *)
theory Examples
  imports Packet_Handler
begin

text \<open>
  Concrete data on which the properties are instantiated: an empty heap whose clock shows 100, a table
  with four buckets and the ports 5000 to 5003, a SYN of a client and the answer of a server to it.
\<close>

definition ex_heap :: heap where
  "ex_heap = \<lparr>nodes = \<lambda>_. None, sessions = \<lambda>_. None, brk = 0, times = \<lambda>_. 100\<rparr>"

definition ex_table :: session_hash_table where
  "ex_table = init_hash_table 4 5000 5003"

text \<open>A SYN from 10.0.0.5:40000 to 93.184.216.34:80 with sequence number 1000.\<close>

definition ex_syn :: buf where
  "ex_syn = [0x45, 0, 0, 40, 0, 1, 0, 0, 64, 6, 0, 0, 10, 0, 0, 5, 93, 184, 216, 34,
     0x9c, 0x40, 0, 80, 0, 0, 0x03, 0xe8, 0, 0, 0, 0, 0x50, 2, 0xff, 0xff, 0, 0, 0, 0]"

text \<open>The SYN-ACK from 93.184.216.34:80 to 1.2.3.4:5000, acknowledging 1001.\<close>

definition ex_synack :: buf where
  "ex_synack = [0x45, 0, 0, 40, 0, 1, 0, 0, 64, 6, 0, 0, 93, 184, 216, 34, 1, 2, 3, 4,
     0, 80, 0x13, 0x88, 0, 0, 0x07, 0xd0, 0, 0, 0x03, 0xe9, 0x50, 18, 0xff, 0xff, 0, 0, 0, 0]"

lemma ex_syn_packet: "tcp_packet ex_syn 40 5 5 40" "ip_tcp_packet ex_syn 5 5 40"
  by code_simp+

lemma ex_synack_packet: "tcp_packet ex_synack 40 5 5 40"
  by code_simp

lemma ex_table_inv: "table_inv ex_heap ex_table"
  unfolding table_inv_def ex_table_def
  by (intro exI, rule init_hash_table_rep) (simp_all add: ex_heap_def)

text \<open>The state after the first client got a session.\<close>

definition ex_h1 :: heap where
  "ex_h1 = (case add_tcp_session 0 ex_heap ex_table 0x0a000005 40000 10 of Some (_, h, _) \<Rightarrow> h | None \<Rightarrow> ex_heap)"

definition ex_t1 :: session_hash_table where
  "ex_t1 = (case add_tcp_session 0 ex_heap ex_table 0x0a000005 40000 10 of Some (_, _, t) \<Rightarrow> t | None \<Rightarrow> ex_table)"

lemma ex_add: "add_tcp_session 0 ex_heap ex_table 0x0a000005 40000 10 = Some (Some 0, ex_h1, ex_t1)"
proof -
  have "(case add_tcp_session 0 ex_heap ex_table 0x0a000005 40000 10 of
      Some (r, _, _) \<Rightarrow> r = Some 0 | None \<Rightarrow> False)"
    by code_simp
  then show ?thesis by (auto simp: ex_h1_def ex_t1_def split: option.splits)
qed

lemma ex_1_inv: "table_inv ex_h1 ex_t1"
  using add_inv [OF ex_table_inv ex_add] .

lemma ex_1_session:
  "sessions ex_h1 0 = Some (new_session 0x0a000005 40000 5000 110)" "time_NULL ex_h1 = 100"
  "get_tcp_session_by_client ex_h1 ex_t1 0x0a000005 40000 = Some (Some 0)"
  "get_tcp_session_by_server ex_h1 ex_t1 5000 = Some (Some 0)"
  by code_simp+

end
