(* ===== verification/Header_Properties.thy ===== *)
theory Header_Properties
  imports Examples
begin

text \<open>
  The properties of the header routines of \<^verbatim>\<open>src/src/lib/protocol_headers.c\<close>: checksums, validation,
  rewriting and resets, each with an instance on a concrete packet.
\<close>

section \<open>Checksums\<close>

text \<open>
  C16. The checksum loop: over any \<open>n\<close> bytes inside the buffer whose sum fits the 32 bit accumulator,
  \<^verbatim>\<open>summing\<close> returns the one's complement sum of RFC 1071 of the big-endian words, an odd last byte padded
  with zero, added to the start value; the folding loop always ends.
\<close>

theorem summing_is_rfc1071:
  assumes "i + n \<le> length b" and "unat s + sum16 (take n (drop i b)) < 2 ^ 32"
  shows "summing b i (int n) s = Some (of_nat (oc16 (unat s + sum16 (take n (drop i b)))))"
  using summing_spec [of i n b s] assms by simp

theorem summing_is_rfc1071_witness:
  "summing [0x12, 0x34, 0x56] 0 (int 3) 0 = Some (of_nat (oc16 (sum16 [0x12, 0x34, 0x56])))"
  using summing_is_rfc1071 [of 0 3 "[0x12, 0x34, 0x56]" 0] by simp

text \<open>
  C17. Error case of the checksum loop: it reads past the end of the buffer, which is undefined,
  exactly when it is asked for more bytes than there are.
\<close>

theorem summing_out_of_bounds:
  "(\<exists>c. summing b i (int n) s = Some c) \<longleftrightarrow> n = 0 \<or> i + n \<le> length b"
  by (rule summing_defined)

text \<open>
  \<^verbatim>\<open>tcp_csum\<close> on a packet is the complement of the one's complement sum over the pseudo header
  (addresses, protocol, segment length), the TCP header with its options and the data.
\<close>

theorem tcp_csum_covers_segment:
  assumes "ip_tcp_packet b ihl doff tot"
  shows "tcp_csum b 0 (4 * ihl) (Some (4 * ihl + 4 * doff))
    = Some (NOT (of_nat (oc16 (tcp_segment_sum b 0 (4 * ihl) (tot - 4 * ihl)))))"
  using assms by (rule packet_tcp_csum)

theorem tcp_csum_covers_segment_witness:
  "tcp_csum ex_syn 0 (4 * 5) (Some (4 * 5 + 4 * 5)) = Some (NOT (of_nat (oc16 (tcp_segment_sum ex_syn 0 (4 * 5) (40 - 4 * 5)))))"
  using tcp_csum_covers_segment [OF ex_syn_packet(2)] .

section \<open>Validation\<close>

text \<open>
  C18. \<^verbatim>\<open>validate_ip_tcp\<close> never reads outside the buffer and accepts exactly the buffers of at least 40
  bytes with protocol TCP whose IP header length leaves room for a TCP header and whose total
  length lies between the sum of the two header lengths and the buffer length. It does not check that the
  header lengths are at least five words, nor the version.
\<close>

theorem validate_ip_tcp_exact:
  assumes "0 \<le> n" and "n < 2 ^ 31" and "n \<le> int (length b)"
  shows "validate_ip_tcp b n = Some (
    let ihl = unat (b ! 0) mod 16; tot = unat (le16 (b ! 3) (b ! 2));
        doff = unat (b ! (4 * ihl + 12)) div 16
    in if 40 \<le> n \<and> b ! 9 = IPPROTO_TCP \<and> int (4 * ihl + 20) \<le> n \<and> int tot \<le> n \<and> 4 * ihl + 4 * doff \<le> tot
       then VALID_IP_TCP 0 (4 * ihl) else INVALID_IP_TCP)"
  using assms by (rule validate_ip_tcp_spec)

theorem validate_ip_tcp_exact_witness:
  "validate_ip_tcp ex_syn 40 = Some (VALID_IP_TCP 0 20) \<and> validate_ip_tcp ex_syn 39 = Some INVALID_IP_TCP"
proof -
  have "length ex_syn = 40" by code_simp
  moreover have "unat (ex_syn ! 0) mod 16 = 5" "unat (le16 (ex_syn ! 3) (ex_syn ! 2)) = 40" "ex_syn ! 9 = 6"
    "unat (ex_syn ! 32) div 16 = 5"
    by code_simp+
  ultimately show ?thesis
    using validate_ip_tcp_exact [of 40 ex_syn] validate_ip_tcp_exact [of 39 ex_syn] by (simp add: Let_def)
qed

section \<open>Rewriting\<close>

text \<open>
  C12. Rewriting the source of a packet: on every well-formed packet \<^verbatim>\<open>replace_src_ip_port\<close> stays inside the
  buffer, stores the new address and port in network order, leaves valid IP and TCP checksums, keeps the
  shape of the packet and changes no byte besides the address, the port and the two checksums.
\<close>

theorem replace_src_ip_port_correct:
  assumes "ip_tcp_packet b ihl doff tot"
  shows "\<exists>b'. replace_src_ip_port b ip port = Some b' \<and> length b' = length b \<and> ip_tcp_packet b' ihl doff tot \<and>
    ld32 b' 12 = Some (htonl ip) \<and> ld16 b' (4 * ihl) = Some (htons port) \<and>
    ip_checksum_ok b' ihl \<and> tcp_checksum_ok b' ihl tot \<and>
    (\<forall>i. i \<in> {10, 11} \<or> i \<in> {12 ..< 16} \<or> i \<in> {4 * ihl, 4 * ihl + 1} \<or> i \<in> {4 * ihl + 16, 4 * ihl + 17}
       \<or> b' ! i = b ! i)"
  using src.rep_correct [OF assms, of ip port] by simp

theorem replace_src_ip_port_correct_witness:
  "\<exists>b'. replace_src_ip_port ex_syn 0x01020304 5000 = Some b' \<and> ld32 b' 12 = Some (htonl 0x01020304) \<and>
    ld16 b' 20 = Some (htons 5000) \<and> ip_checksum_ok b' 5 \<and> tcp_checksum_ok b' 5 40"
  using replace_src_ip_port_correct [OF ex_syn_packet(2), of "0x01020304" 5000] by auto

text \<open>C13. Rewriting the destination of a packet has the same contract.\<close>

theorem replace_dst_ip_port_correct:
  assumes "ip_tcp_packet b ihl doff tot"
  shows "\<exists>b'. replace_dst_ip_port b ip port = Some b' \<and> length b' = length b \<and> ip_tcp_packet b' ihl doff tot \<and>
    ld32 b' 16 = Some (htonl ip) \<and> ld16 b' (4 * ihl + 2) = Some (htons port) \<and>
    ip_checksum_ok b' ihl \<and> tcp_checksum_ok b' ihl tot \<and>
    (\<forall>i. i \<in> {10, 11} \<or> i \<in> {16 ..< 20} \<or> i \<in> {4 * ihl + 2, 4 * ihl + 3} \<or> i \<in> {4 * ihl + 16, 4 * ihl + 17}
       \<or> b' ! i = b ! i)"
  using dst.rep_correct [OF assms, of ip port] by (simp add: add.assoc add.commute [of 3])

theorem replace_dst_ip_port_correct_witness:
  "\<exists>b'. replace_dst_ip_port ex_syn 0x0a000005 40000 = Some b' \<and> ld32 b' 16 = Some (htonl 0x0a000005) \<and>
    ip_checksum_ok b' 5 \<and> tcp_checksum_ok b' 5 40"
  using replace_dst_ip_port_correct [OF ex_syn_packet(2), of "0x0a000005" 40000] by auto

section \<open>Resets\<close>

lemma ntohs_eq_iff: "ntohs v = ntohs w \<longleftrightarrow> v = w"
  by (metis htons_def ntohs_def ntohs_htons)

text \<open>
  C14. \<^verbatim>\<open>fillin_reset\<close> turns a TCP packet into a RST/ACK of 40 bytes without options or data: addresses swapped, valid checksums,
  the returned length 40, and nothing behind it changed. For a packet without IP options it goes back to the sender: ports
  swapped, the acknowledged number as sequence number, the sequence number plus one acknowledged. A packet
  with IP options loses its TCP header: the code shortens the IP header first, so what it swaps are the first four bytes of the options, and the
  reset goes to the port of the sender only if these happen to hold it.
\<close>

theorem fillin_reset_answers:
  assumes "tcp_packet b n ihl doff tot"
  shows "\<exists>b'. fillin_reset b = Some (40, b') \<and> length b' = length b \<and> tcp_packet b' 40 5 5 40 \<and>
    ip_checksum_ok b' 5 \<and> tcp_checksum_ok b' 5 40 \<and> b' ! 33 = 20 \<and> (\<forall>i \<ge> 40. b' ! i = b ! i) \<and>
    ld32 b' 12 = ld32 b 16 \<and> ld32 b' 16 = ld32 b 12 \<and>
    (if ihl = 5
     then dst_port b' 5 = src_port b ihl \<and> src_port b' 5 = dst_port b ihl \<and>
       ld32 b' 24 = ld32 b (4 * ihl + 8) \<and> ld32 b' 28 = map_option (\<lambda>s. htonl (ntohl s + 1)) (ld32 b (4 * ihl + 4))
     else ld16 b' 22 = ld16 b 20 \<and> ld16 b' 20 = ld16 b 22 \<and>
       (dst_port b' 5 = src_port b ihl \<longleftrightarrow> ld16 b 20 = ld16 b (4 * ihl)))"
proof -
  have pkt: "ip_tcp_packet b ihl doff tot" and tcp: "b ! 9 = IPPROTO_TCP" using assms by (simp_all add: tcp_packet_def)
  have len: "40 \<le> length b" "4 * ihl + 20 \<le> length b"
    using tcp_packet_accepted [OF assms] by (simp_all add: accepted_def)
  obtain b' where r: "fillin_reset b = Some (40, b')" "length b' = length b" "ip_tcp_packet b' 5 5 40"
    "ip_checksum_ok b' 5" "tcp_checksum_ok b' 5 40" "ld32 b' 12 = ld32 b 16" "ld32 b' 16 = ld32 b 12"
    "ld16 b' 20 = ld16 b 22" "ld16 b' 22 = ld16 b 20" "ld32 b' 24 = ld32 b 28"
    "ld32 b' 28 = map_option (\<lambda>s. htonl (ntohl s + 1)) (ld32 b 24)" "b' ! 9 = b ! 9" "b' ! 33 = 20"
    "\<forall>i \<ge> 40. b' ! i = b ! i"
    using fillin_reset_correct [OF len(1)] by blast
  have "tcp_packet b' 40 5 5 40" using r(2,3,12) len(1) tcp by (simp add: tcp_packet_def)
  moreover obtain v w where "ld16 b 20 = Some v" "ld16 b (4 * ihl) = Some w" 
    using len by (simp add: ld16_Some)
  then have "dst_port b' 5 = src_port b ihl \<longleftrightarrow> ld16 b 20 = ld16 b (4 * ihl)"
    by (simp add: dst_port_def src_port_def r(9) ntohs_eq_iff)
  ultimately show ?thesis
    using r by (intro exI [of _ b']) (auto simp: src_port_def dst_port_def)
qed

text \<open>The SYN of the examples with four bytes of options, and its reset, which goes to the port that the options spell.\<close>

definition ex_options :: buf where
  "ex_options = [0x46, 0, 0, 44, 0, 1, 0, 0, 64, 6, 0, 0, 10, 0, 0, 5, 93, 184, 216, 34, 1, 1, 1, 0] @ drop 20 ex_syn"

theorem fillin_reset_answers_witness:
  "(\<exists>b'. fillin_reset ex_syn = Some (40, b') \<and> dst_port b' 5 = 40000 \<and> src_port b' 5 = 80 \<and> tcp_checksum_ok b' 5 40) \<and>
    (\<exists>b'. fillin_reset ex_options = Some (40, b') \<and> tcp_checksum_ok b' 5 40 \<and> dst_port b' 5 \<noteq> 40000)"
proof -
  have p: "tcp_packet ex_options 44 6 5 44" by code_simp
  have s: "src_port ex_syn 5 = 40000" "dst_port ex_syn 5 = 80" "src_port ex_options 6 = 40000"
    "ld16 ex_options 20 \<noteq> ld16 ex_options (4 * 6)"
    by code_simp+
  have n: "(6 :: nat) \<noteq> 5" by simp
  obtain b' where "fillin_reset ex_syn = Some (40, b')" "tcp_checksum_ok b' 5 40" "dst_port b' 5 = 40000" "src_port b' 5 = 80"
    using fillin_reset_answers [OF ex_syn_packet(1)] unfolding s by (auto split: if_splits)
  moreover obtain b'' where "fillin_reset ex_options = Some (40, b'')" "tcp_checksum_ok b'' 5 40" "dst_port b'' 5 \<noteq> 40000"
    using fillin_reset_answers [OF p] s(4) n unfolding s(3) by auto
  ultimately show ?thesis by blast
qed

text \<open>
  C15. On a shorter buffer \<^verbatim>\<open>fillin_reset\<close> writes or reads outside it. The handlers call it for a
  packet they rejected because it is shorter than 40 bytes, so the buffer behind a short packet has
  to be larger than the packet.
\<close>

theorem fillin_reset_needs_40_bytes: "(\<exists>n b'. fillin_reset b = Some (n, b')) \<longleftrightarrow> 40 \<le> length b"
proof
  assume "\<exists>n b'. fillin_reset b = Some (n, b')"
  then show "40 \<le> length b" using fillin_reset_short [of b] by (metis not_le option.distinct(1))
qed (use fillin_reset_correct in blast)

end
