(* ===== verification/Os.thy ===== *)
theory Os
  imports Prelude
begin

text \<open>
  The operating system as the program sees it. The kernel is not part of the repository: what a
  system call returns is a parameter, the stream \<open>replies\<close> of the state, of which every call consumes one
  element. The state records the calls in order, what was printed, \<^verbatim>\<open>errno\<close>, and the descriptors that
  are open. What the code relies on is stated of the replies where it is used: a received message fits the
  buffer (\<open>reply_fits\<close>), and a new descriptor is not one that is open (\<open>fresh_fds\<close>).
\<close>

section \<open>Addresses\<close>

text \<open>Ports, addresses and protocols in network order, as the structures hold them.\<close>

record sockaddr_in =
  sin_family :: int
  sin_port :: u16
  sin_addr :: u32

record sockaddr_ll =
  sll_family :: int
  sll_protocol :: u16
  sll_ifindex :: int
  sll_hatype :: u16
  sll_pkttype :: u8
  sll_halen :: u8
  sll_addr :: buf

text \<open>The constants of the Linux headers.\<close>

abbreviation AF_INET :: int where "AF_INET \<equiv> 2"
abbreviation AF_INET6 :: int where "AF_INET6 \<equiv> 10"
abbreviation AF_PACKET :: int where "AF_PACKET \<equiv> 17"
abbreviation SOCK_DGRAM :: int where "SOCK_DGRAM \<equiv> 2"
abbreviation SOCK_RAW :: int where "SOCK_RAW \<equiv> 3"
abbreviation MSG_DONTWAIT :: int where "MSG_DONTWAIT \<equiv> 0x40"
abbreviation MSG_CONFIRM :: int where "MSG_CONFIRM \<equiv> 0x800"
abbreviation ETH_P_IP :: u16 where "ETH_P_IP \<equiv> 0x0800"
abbreviation PACKET_HOST :: u8 where "PACKET_HOST \<equiv> 0"
abbreviation EAGAIN :: int where "EAGAIN \<equiv> 11"
abbreviation EWOULDBLOCK :: int where "EWOULDBLOCK \<equiv> 11"
abbreviation sizeof_sll_addr :: nat where "sizeof_sll_addr \<equiv> 8"

text \<open>
  \<^verbatim>\<open>sll_addr\<close> is an array of 8 bytes. The kernel stores the length of an address in \<^verbatim>\<open>sll_halen\<close>, which
  may exceed the array; the address of such a device is cut.
\<close>

definition sll_ok :: "sockaddr_ll \<Rightarrow> bool" where
  "sll_ok l \<longleftrightarrow> length (sll_addr l) = sizeof_sll_addr \<and> unat (sll_halen l) \<le> sizeof_sll_addr"

lemma sll_ok_types [simp]: "sll_ok (l\<lparr>sll_hatype := a, sll_pkttype := k\<rparr>) = sll_ok l"
  by (simp add: sll_ok_def)

section \<open>Netlink messages\<close>

text \<open>The header fields and the body of the two requests, and the attributes behind them as bytes.\<close>

record rtmsg =
  rtm_family :: int
  rtm_dst_len :: int
  rtm_table :: int
  rtm_protocol :: int
  rtm_scope :: int
  rtm_type :: int

record ifaddrmsg =
  ifa_family :: int
  ifa_prefixlen :: int
  ifa_scope :: int
  ifa_index :: int

datatype nlbody = Rtmsg rtmsg | Ifaddrmsg ifaddrmsg

record nlreq =
  nlmsg_len :: int
  nlmsg_flags :: int
  nlmsg_type :: int
  nlmsg_body :: nlbody
  nlmsg_payload :: buf

section \<open>Calls and replies\<close>

datatype syscall =
    Socket int int int
  | Bind_in int sockaddr_in
  | Bind_ll int sockaddr_ll
  | Close int
  | Sendto_in int buf int "sockaddr_in option"
  | Sendto_ll int buf int sockaddr_ll
  | Recvfrom int int int
  | Open string int
  | Read int int
  | Write int buf
  | Ioctl_SIOCGIFFLAGS int string
  | Ioctl_SIOCSIFFLAGS int string u16
  | Ioctl_TUNSETIFF int string u16
  | If_nametoindex string
  | Rtnl_open
  | Rtnl_talk int nlreq
  | Rtnl_close int
  | Sleep int

text \<open>The returned value, the error number of a failed call, and what the call stores: the bytes of a message, its sender, the
  flags of an interface, and the descriptor of the netlink socket that \<^verbatim>\<open>rtnl_open\<close> puts into its handle.\<close>

record reply =
  ret :: int
  err :: int
  bytes :: buf
  from_in :: sockaddr_in
  from_ll :: sockaddr_ll
  if_flags :: u16
  handle_fd :: int

record os =
  replies :: "nat \<Rightarrow> reply"
  calls :: "syscall list"
  out :: "printf_call list"
  errno :: int
  fds :: "int set"
  fresh_fds :: bool

text \<open>The descriptor a call opens, and the one it closes.\<close>

fun opened :: "syscall \<Rightarrow> reply \<Rightarrow> int set" where
  "opened (Socket _ _ _) r = (if 0 \<le> ret r then {ret r} else {})"
| "opened (Open _ _) r = (if 0 \<le> ret r then {ret r} else {})"
| "opened Rtnl_open r = (if 0 \<le> ret r then {handle_fd r} else {})"
| "opened _ _ = {}"

fun closes :: "syscall \<Rightarrow> int set" where
  "closes (Close fd) = {fd}"
| "closes (Rtnl_close fd) = {fd}"
| "closes _ = {}"

definition sys :: "syscall \<Rightarrow> os \<Rightarrow> reply \<times> os" where
  "sys c w = (let r = replies w 0; new = opened c r
     in (r, w\<lparr>replies := (\<lambda>n. replies w (Suc n)), calls := calls w @ [c],
            errno := (if ret r < 0 then err r else errno w),
            fds := (fds w - closes c) \<union> new,
            fresh_fds := (fresh_fds w \<and> new \<inter> fds w = {})\<rparr>))"

definition printf :: "printf_call \<Rightarrow> os \<Rightarrow> os" where
  "printf c w = w\<lparr>out := out w @ [c]\<rparr>"

text \<open>\<^verbatim>\<open>perror\<close> prints a message with the current \<^verbatim>\<open>errno\<close>.\<close>

definition perror :: "string \<Rightarrow> os \<Rightarrow> os" where
  "perror s w = printf (s, [errno w]) w"

text \<open>A message of the kernel fits the size the program passed, and the returned number is that of its bytes.\<close>

definition reply_fits :: "int \<Rightarrow> reply \<Rightarrow> bool" where
  "reply_fits n r \<longleftrightarrow> ret r \<le> n \<and> (0 \<le> ret r \<longrightarrow> int (length (bytes r)) = ret r)"

text \<open>The receive buffer after a call: the received bytes at its start.\<close>

definition received :: "reply \<Rightarrow> buf \<Rightarrow> buf" where
  "received r b = (if ret r < 0 then b else take (length b) (bytes r) @ drop (length (bytes r)) b)"

section \<open>Facts\<close>

lemma length_received [simp]: "length (received r b) = length b"
  by (auto simp: received_def)

text \<open>A call reads the next reply; \<open>after c w\<close> is the state it leaves.\<close>

definition after :: "syscall \<Rightarrow> os \<Rightarrow> os" where
  "after c w = snd (sys c w)"

lemma sys_after: "sys c w = (replies w 0, after c w)"
  by (simp add: after_def sys_def Let_def)

lemma after_effects [simp]:
  "replies (after c w) = (\<lambda>n. replies w (Suc n))" "calls (after c w) = calls w @ [c]"
  "out (after c w) = out w"
  "errno (after c w) = (if ret (replies w 0) < 0 then err (replies w 0) else errno w)"
  by (simp_all add: after_def sys_def Let_def)

lemma after_fds:
  "fds (after c w) = (fds w - closes c) \<union> opened c (replies w 0)"
  "fresh_fds (after c w) \<longleftrightarrow> fresh_fds w \<and> opened c (replies w 0) \<inter> fds w = {}"
  by (auto simp: after_def sys_def Let_def)

lemma printf_effects [simp]:
  "replies (printf c w) = replies w" "calls (printf c w) = calls w" "errno (printf c w) = errno w"
  "fds (printf c w) = fds w" "fresh_fds (printf c w) = fresh_fds w" "out (printf c w) = out w @ [c]"
  "replies (perror s w) = replies w" "calls (perror s w) = calls w" "errno (perror s w) = errno w"
  "fds (perror s w) = fds w" "fresh_fds (perror s w) = fresh_fds w"
  by (simp_all add: printf_def perror_def)

text \<open>
  \<open>ran cs w w'\<close>: from \<open>w\<close> to \<open>w'\<close> the program made the calls \<open>cs\<close>, and printed what it liked.
\<close>

definition ran :: "syscall list \<Rightarrow> os \<Rightarrow> os \<Rightarrow> bool" where
  "ran cs w w' \<longleftrightarrow> calls w' = calls w @ cs \<and> replies w' = (\<lambda>n. replies w (n + length cs))"

lemma ran_trans: "ran cs w w' \<Longrightarrow> ran ds w' w'' \<Longrightarrow> ran (cs @ ds) w w''"
  by (simp add: ran_def add.assoc add.commute [of "length cs"])

lemma ran_after [simp]: "ran [c] w (after c w)"
  by (simp add: ran_def)

lemma ran_silent: "calls w' = calls w \<Longrightarrow> replies w' = replies w \<Longrightarrow> ran [] w w'"
  by (simp add: ran_def)

lemma fold_printf: "fold printf cs w = w\<lparr>out := out w @ cs\<rparr>"
proof (induction cs arbitrary: w)
  case (Cons c cs)
  have "(printf c w)\<lparr>out := out (printf c w) @ cs\<rparr> = w\<lparr>out := out w @ c # cs\<rparr>"
    by (simp add: printf_def)
  then show ?case by (simp only: fold_Cons comp_apply Cons.IH)
qed simp

lemma ran_printf [simp]:
  "ran cs w (printf c w') = ran cs w w'" "ran cs w (perror s w') = ran cs w w'" "ran cs w (fold printf l w') = ran cs w w'"
  "ran cs (printf c w) w' = ran cs w w'" "ran cs (fold printf l w) w' = ran cs w w'" "ran [] w w"
  by (simp_all add: ran_def fold_printf)

lemma ran_two [simp]: "ran [c, d] w (after d (printf p (after c w)))"
  by (simp add: ran_def)

end
