(* ===== verification/Sockets.thy ===== *)
theory Sockets
  imports Os Bytes
begin

text \<open>
  The socket layer of \<^verbatim>\<open>src/src/lib/udp.c\<close> and \<^verbatim>\<open>src/src/lib/vpn_raw_sock.c\<close>: the UDP sockets between
  client and server, and the raw IP socket of the server. The receive functions distinguish a message, no
  message and an error; \<^verbatim>\<open>get_ip_packet\<close> skips packets that are not addressed to this host.
  \<open>None\<close> is an access outside a buffer, or a loop that never ends.
\<close>

section \<open>UDP\<close>

definition get_udp_socket_client :: "os \<Rightarrow> int \<times> os" where
  "get_udp_socket_client w = (let (r, w) = sys (Socket AF_INET SOCK_DGRAM 0) w in (ret r, w))"

definition get_udp_socket_server :: "int \<Rightarrow> os \<Rightarrow> int \<times> os" where
  "get_udp_socket_server port w = (
     let laddr = \<lparr>sin_family = AF_INET, sin_port = htons (of_int port), sin_addr = 0\<rparr>;
         (r, w) = sys (Socket AF_INET SOCK_DGRAM 0) w;
         fd = ret r
     in if fd = -1 then (-1, w)
        else let (r, w) = sys (Bind_in fd laddr) w
             in if ret r \<noteq> 0 then (-1, w) else (fd, w))"

text \<open>The kernel reads the first \<open>n\<close> bytes of the buffer.\<close>

definition send_msg_udp :: "int \<Rightarrow> buf \<Rightarrow> int \<Rightarrow> sockaddr_in option \<Rightarrow> os \<Rightarrow> (int \<times> os) option" where
  "send_msg_udp fd buffer n dst w =
     (if 0 \<le> n \<and> n \<le> int (length buffer)
      then let (r, w) = sys (Sendto_in fd (take (nat n) buffer) MSG_CONFIRM dst) w in Some (ret r, w)
      else None)"

text \<open>
  The kernel may write \<open>n\<close> bytes into the buffer; \<open>raddr\<close> is \<open>None\<close> for NULL. The result has the new buffer and
  the new value of \<open>*raddr\<close>.
\<close>

definition read_msg_udp :: "int \<Rightarrow> buf \<Rightarrow> int \<Rightarrow> sockaddr_in option \<Rightarrow> os \<Rightarrow>
    (int \<times> buf \<times> sockaddr_in option \<times> os) option" where
  "read_msg_udp fd buffer n raddr w =
     (if 0 \<le> n \<and> n \<le> int (length buffer)
      then let (r, w) = sys (Recvfrom fd n MSG_DONTWAIT) w
           in if ret r < 0
              then if errno w \<noteq> EAGAIN \<or> errno w \<noteq> EWOULDBLOCK then Some (-1, buffer, raddr, w)
                   else Some (0, buffer, raddr, w)
              else Some (ret r, received r buffer, map_option (\<lambda>_. from_in r) raddr, w)
      else None)"

text \<open>\<open>aton\<close> is \<^verbatim>\<open>inet_aton\<close> of the C library: the address in network order, or none for an invalid string.\<close>

definition fill_port_ip :: "(string \<Rightarrow> u32 option) \<Rightarrow> sockaddr_in \<Rightarrow> int \<Rightarrow> string \<Rightarrow> int \<times> sockaddr_in" where
  "fill_port_ip aton addr port ip = (
     let addr = addr\<lparr>sin_family := AF_INET, sin_port := htons (of_int port)\<rparr>
     in case aton ip of None \<Rightarrow> (0, addr) | Some a \<Rightarrow> (1, addr\<lparr>sin_addr := a\<rparr>))"

section \<open>The raw socket\<close>

definition get_vpn_raw_socket :: "os \<Rightarrow> int \<times> os" where
  "get_vpn_raw_socket w = (
     let (r, w) = sys (Socket AF_PACKET SOCK_DGRAM (uint (htons ETH_P_IP))) w;
         fd = ret r
     in if fd < 0 then (-1, w)
        else let ll = \<lparr>sll_family = AF_PACKET, sll_protocol = 0, sll_ifindex = 0, sll_hatype = 0,
                   sll_pkttype = 0, sll_halen = 0, sll_addr = replicate sizeof_sll_addr 0\<rparr>;
                 (r, w) = sys (Bind_ll fd ll) w
             in if ret r \<noteq> 0 then let (_, w) = sys (Close fd) w in (-1, w) else (fd, w))"

text \<open>The loop over the hardware address ends at \<^verbatim>\<open>sll_halen\<close>; beyond the array of 8 bytes it is undefined.\<close>

definition print_sockaddr_ll :: "sockaddr_ll \<Rightarrow> os \<Rightarrow> os option" where
  "print_sockaddr_ll ll w =
     (if sll_ok ll
      then Some (fold printf
        ([(''sll_family: %d'', [sll_family ll]), (''sll_protocol: %d'', [uint (sll_protocol ll)]),
          (''sll_ifindex: %d'', [sll_ifindex ll]), (''sll_hatype: %d'', [uint (sll_hatype ll)]),
          (''sll_pkttype: %d'', [uint (sll_pkttype ll)]), (''sll_halen: %d'', [uint (sll_halen ll)])] @
         map (\<lambda>x. (''%02x'', [uint x])) (take (unat (sll_halen ll)) (sll_addr ll)) @ [([], [])]) w)
      else None)"

text \<open>
  The receive loop. Its result is \<open>Inl\<close> of the value to return when \<^verbatim>\<open>recvfrom\<close> fails, and else the reply with
  the packet, with the buffer and the new value of \<open>*ll\<close> (\<open>None\<close> when the caller passed NULL).
\<close>

partial_function (option) get_ip_packet_loop :: "int \<Rightarrow> buf \<Rightarrow> int \<Rightarrow> sockaddr_ll option \<Rightarrow> os \<Rightarrow>
    ((int + reply) \<times> buf \<times> sockaddr_ll option \<times> os) option" where
  "get_ip_packet_loop fd buffer n ll w = (
     let (r, w) = sys (Recvfrom fd n MSG_DONTWAIT) w
     in if ret r < 0
        then if errno w \<noteq> EAGAIN \<or> errno w \<noteq> EWOULDBLOCK then Some (Inl (-1), buffer, ll, w)
             else Some (Inl 0, buffer, ll, w)
        else let buffer = received r buffer; ll = map_option (\<lambda>_. from_ll r) ll
             in if sll_pkttype (from_ll r) \<noteq> PACKET_HOST \<or> sll_halen (from_ll r) \<le> 0
                then get_ip_packet_loop fd buffer n ll w
                else Some (Inr r, buffer, ll, w))"

declare get_ip_packet_loop.simps [code]

definition get_ip_packet :: "int \<Rightarrow> buf \<Rightarrow> int \<Rightarrow> sockaddr_ll option \<Rightarrow> os \<Rightarrow>
    (int \<times> buf \<times> sockaddr_ll option \<times> os) option" where
  "get_ip_packet fd buffer n ll w =
     (if 0 \<le> n \<and> n \<le> int (length buffer)
      then do {
        (v, buffer, ll, w) \<leftarrow> get_ip_packet_loop fd buffer n ll w;
        case v of
          Inl e \<Rightarrow> Some (e, buffer, ll, w)
        | Inr r \<Rightarrow> do {
            let w = printf (''Got ip pkt: '', []) w;
            w \<leftarrow> print_sockaddr_ll (from_ll r) w;
            Some (ret r, buffer, map_option (\<lambda>x. x\<lparr>sll_pkttype := 0, sll_hatype := 0\<rparr>) ll, w) } }
      else None)"

definition send_ip_packet :: "int \<Rightarrow> buf \<Rightarrow> int \<Rightarrow> sockaddr_ll \<Rightarrow> os \<Rightarrow> (int \<times> sockaddr_ll \<times> os) option" where
  "send_ip_packet fd buffer n ll w =
     (if 0 \<le> n \<and> n \<le> int (length buffer)
      then do {
        let w = printf (''Debug send using: '', []) w;
        w \<leftarrow> print_sockaddr_ll ll w;
        let ll = ll\<lparr>sll_hatype := 0, sll_pkttype := 0\<rparr>;
        let (r, w) = sys (Sendto_ll fd (take (nat n) buffer) 0 ll) w;
        Some (ret r, ll, w) }
      else None)"

section \<open>Outcomes\<close>

text \<open>On Linux the two error numbers are one, so the test for ``another error'' is right.\<close>

lemma eagain: "(e \<noteq> EAGAIN \<or> e \<noteq> EWOULDBLOCK) \<longleftrightarrow> e \<noteq> EAGAIN"
  by simp

lemma print_sockaddr_ll_outcome:
  "print_sockaddr_ll ll w = Some w' \<Longrightarrow> \<exists>o'. w' = w\<lparr>out := o'\<rparr>"
  "(\<exists>w'. print_sockaddr_ll ll w = Some w') \<longleftrightarrow> sll_ok ll"
  unfolding print_sockaddr_ll_def fold_printf by (auto split: if_splits)

lemma print_sockaddr_ll_ran:
  "sll_ok l \<Longrightarrow> \<exists>w'. print_sockaddr_ll l w = Some w' \<and> ran [] w w'"
  by (simp add: print_sockaddr_ll_def)

text \<open>The value the receive functions make of a reply.\<close>

definition received_length :: "reply \<Rightarrow> int" where
  "received_length r = (if ret r < 0 then if err r = EAGAIN then 0 else -1 else ret r)"

lemma read_msg_udp_outcome:
  assumes "0 \<le> n" and "n \<le> int (length b)"
  shows "read_msg_udp fd b n ra w = Some (received_length (replies w 0), received (replies w 0) b,
    if ret (replies w 0) < 0 then ra else map_option (\<lambda>_. from_in (replies w 0)) ra, after (Recvfrom fd n MSG_DONTWAIT) w)"
  using assms by (simp add: read_msg_udp_def sys_after Let_def received_length_def received_def)

lemma received_prefix:
  assumes "reply_fits n r" and "0 \<le> ret r" and "n \<le> int (length b)"
  shows "take (nat (ret r)) (received r b) = bytes r" "drop (nat (ret r)) (received r b) = drop (nat (ret r)) b"
proof -
  have len: "length (bytes r) = nat (ret r)" "nat (ret r) \<le> length b"
    using assms by (auto simp: reply_fits_def)
  then show "take (nat (ret r)) (received r b) = bytes r" "drop (nat (ret r)) (received r b) = drop (nat (ret r)) b"
    using assms(2) by (auto simp: received_def)
qed

text \<open>A packet the raw socket delivers although it is not addressed to this host, or has no hardware address.\<close>

definition skipped :: "reply \<Rightarrow> bool" where
  "skipped r \<longleftrightarrow> 0 \<le> ret r \<and> (sll_pkttype (from_ll r) \<noteq> PACKET_HOST \<or> sll_halen (from_ll r) = 0)"

lemma get_ip_packet_loop_unfold:
  "get_ip_packet_loop fd b n ll w = (let r = replies w 0; w' = after (Recvfrom fd n MSG_DONTWAIT) w in
     if ret r < 0 then Some (Inl (if err r = EAGAIN then 0 else -1), b, ll, w')
     else if skipped r then get_ip_packet_loop fd (received r b) n (map_option (\<lambda>_. from_ll r) ll) w'
     else Some (Inr r, received r b, map_option (\<lambda>_. from_ll r) ll, w'))"
  by (subst get_ip_packet_loop.simps)
    (simp add: sys_after Let_def skipped_def)

text \<open>The loop consumes replies up to the first one that is not skipped.\<close>

lemma get_ip_packet_loop_skips:
  assumes "\<And>j. j < k \<Longrightarrow> skipped (replies w j)" and "\<not> skipped (replies w k)"
  shows "\<exists>v b' ll' w'. get_ip_packet_loop fd b n ll w = Some (v, b', ll', w') \<and> length b' = length b \<and>
    replies w' = (\<lambda>j. replies w (j + Suc k)) \<and> calls w' = calls w @ replicate (Suc k) (Recvfrom fd n MSG_DONTWAIT) \<and>
    fds w' = fds w \<and> fresh_fds w' = fresh_fds w \<and>
    v = (if ret (replies w k) < 0 then Inl (if err (replies w k) = EAGAIN then 0 else -1) else Inr (replies w k)) \<and>
    (0 \<le> ret (replies w k) \<longrightarrow> (\<exists>b0. length b0 = length b \<and> b' = received (replies w k) b0) \<and>
      ll' = map_option (\<lambda>_. from_ll (replies w k)) ll)"
  using assms
proof (induction k arbitrary: b ll w)
  case 0
  then show ?case
    by (subst get_ip_packet_loop_unfold) (auto simp: Let_def after_fds split: if_splits)
next
  case (Suc k)
  let ?w = "after (Recvfrom fd n MSG_DONTWAIT) w" and ?b = "received (replies w 0) b"
  have "skipped (replies w 0)" using Suc.prems(1) by blast
  then have step: "get_ip_packet_loop fd b n ll w =
      get_ip_packet_loop fd ?b n (map_option (\<lambda>_. from_ll (replies w 0)) ll) ?w"
    by (subst get_ip_packet_loop_unfold) (simp add: Let_def skipped_def)
  have "skipped (replies ?w j)" if "j < k" for j using that Suc.prems(1) by simp
  moreover have "\<not> skipped (replies ?w k)" using Suc.prems(2) by simp
  ultimately show ?case
    using Suc.IH [of ?w ?b "map_option (\<lambda>_. from_ll (replies w 0)) ll"] unfolding step
    by (fastforce simp: after_fds option.map_comp comp_def)
qed

section \<open>Outcomes as system calls\<close>

lemma send_ip_packet_ran:
  assumes "0 \<le> n" "n \<le> int (length b)" "sll_ok l"
  shows "\<exists>w'. send_ip_packet fd b n l w = Some (ret (replies w 0), l\<lparr>sll_hatype := 0, sll_pkttype := 0\<rparr>, w') \<and>
    ran [Sendto_ll fd (take (nat n) b) 0 (l\<lparr>sll_hatype := 0, sll_pkttype := 0\<rparr>)] w w'"
proof -
  obtain w1 where w1: "print_sockaddr_ll l (printf (''Debug send using: '', []) w) = Some w1" "ran [] w w1"
    using assms(3) print_sockaddr_ll_ran [of l "printf (''Debug send using: '', []) w"] by auto
  then have "replies w1 = replies w" by (simp add: ran_def)
  then show ?thesis
    using assms(1,2) w1 ran_trans [OF w1(2) ran_after] by (simp add: send_ip_packet_def sys_after Let_def)
qed

lemma get_ip_packet_ran:
  assumes n: "0 \<le> n" "n \<le> int (length b)"
    and skip: "\<And>j. j < k \<Longrightarrow> skipped (replies w j)" "\<not> skipped (replies w k)"
    and addr: "sll_ok (from_ll (replies w k))"
  shows "\<exists>b' l' w'. get_ip_packet fd b n l w = Some (received_length (replies w k), b', l', w') \<and> length b' = length b \<and>
    ran (replicate (Suc k) (Recvfrom fd n MSG_DONTWAIT)) w w' \<and>
    (0 \<le> ret (replies w k) \<longrightarrow> (\<exists>b0. length b0 = length b \<and> b' = received (replies w k) b0))"
proof -
  let ?r = "replies w k"
  obtain v b' l' w' where run: "get_ip_packet_loop fd b n l w = Some (v, b', l', w')" "length b' = length b"
    and w': "replies w' = (\<lambda>j. replies w (j + Suc k))" "calls w' = calls w @ replicate (Suc k) (Recvfrom fd n MSG_DONTWAIT)"
    and v: "v = (if ret ?r < 0 then Inl (if err ?r = EAGAIN then 0 else -1) else Inr ?r)"
    and b': "0 \<le> ret ?r \<longrightarrow> (\<exists>b0. length b0 = length b \<and> b' = received ?r b0)"
    using get_ip_packet_loop_skips [OF skip, of fd b n l] by metis
  have ran: "ran (replicate (Suc k) (Recvfrom fd n MSG_DONTWAIT)) w w'"
    using w' by (simp add: ran_def del: replicate_Suc)
  show ?thesis
  proof (cases "ret ?r < 0")
    case True
    then show ?thesis
      using n run v b' ran by (auto simp: get_ip_packet_def received_length_def)
  next
    case False
    obtain w2 where w2: "print_sockaddr_ll (from_ll ?r) (printf (''Got ip pkt: '', []) w') = Some w2" "ran [] w' w2"
      using addr print_sockaddr_ll_ran [of "from_ll ?r" "printf (''Got ip pkt: '', []) w'"] by auto
    then show ?thesis
      using False n run v b' ran_trans [OF ran w2(2)]
      by (simp add: get_ip_packet_def received_length_def Let_def del: replicate_Suc)
  qed
qed

text \<open>A packet from a device whose address is longer than 8 bytes takes the printing loop out of the array.\<close>

lemma get_ip_packet_long_address:
  assumes "\<And>j. j < k \<Longrightarrow> skipped (replies w j)" "\<not> skipped (replies w k)" and "0 \<le> ret (replies w k)"
    and "8 < unat (sll_halen (from_ll (replies w k)))"
  shows "get_ip_packet fd b n l w = None"
proof -
  have long: "\<not> sll_ok (from_ll (replies w k))" using assms(4) by (simp add: sll_ok_def)
  obtain b' l' w' where "get_ip_packet_loop fd b n l w = Some (Inr (replies w k), b', l', w')"
    using get_ip_packet_loop_skips [OF assms(1,2), of fd b n l] assms(3) by auto
  then show ?thesis by (simp add: get_ip_packet_def print_sockaddr_ll_def long Let_def)
qed

end
