(* ===== verification/Vpn_Server.thy ===== *)
theory Vpn_Server
  imports Sockets Packet_Handler
begin

text \<open>
  The server program \<^verbatim>\<open>src/src/server/main.c\<close>: its state, its initialisation and the two halves of its endless
  loop. The first half takes a message of the UDP socket, translates the packet in it and sends
  it on the raw socket; the second half takes a packet of the raw socket, translates it back and sends it to the client that
  was heard of last. Both halves share one buffer.

  The lemmas show what one iteration does for every outcome of the system calls.
\<close>

declare add_2_eq_Suc [simp del] add_2_eq_Suc' [simp del]

section \<open>State and initialisation\<close>

abbreviation MAX_BUF :: int where "MAX_BUF \<equiv> 9000"
abbreviation LOCAL_PORT :: int where "LOCAL_PORT \<equiv> 8080"
abbreviation IPPROTO_EGP :: u16 where "IPPROTO_EGP \<equiv> 8"

record vpn_server =
  local_ip :: u32
  mac_addr :: buf
  net_dev_ind :: int
  last_client_ip :: u32
  buf :: buf
  buf_len :: int
  raddr :: sockaddr_in
  udpfd :: int
  ll :: sockaddr_ll
  rawfd :: int
  table :: session_hash_table

text \<open>
  \<open>s\<close> holds what the stack held before. A failure prints and leaves the program with \<^verbatim>\<open>exit(-1)\<close>, which is \<open>Inl\<close> of the state
  of the system at that time.
\<close>

definition init_vpn_server :: "vpn_server \<Rightarrow> os \<Rightarrow> os + vpn_server \<times> os" where
  "init_vpn_server s w = (
     let s = s\<lparr>local_ip := 3232266986, mac_addr := [82, 84, 0, 72, 28, 32], net_dev_ind := 2\<rparr>;
         s = s\<lparr>ll := \<lparr>sll_family = AF_PACKET, sll_protocol = IPPROTO_EGP, sll_ifindex = net_dev_ind s, sll_hatype = 0,
                  sll_pkttype = 0, sll_halen = 6, sll_addr = mac_addr s @ replicate 2 0\<rparr>\<rparr>;
         s = s\<lparr>table := init_hash_table 200 40000 41000, buf_len := MAX_BUF\<rparr>;
         (ret, w) = get_udp_socket_server LOCAL_PORT w
     in if ret < 0 then Inl (perror ''fail udp socket'' w)
        else let s = s\<lparr>udpfd := ret\<rparr>; (ret, w) = get_vpn_raw_socket w
             in if ret < 0 then Inl (perror ''fail raw socket'' w)
                else Inr (s\<lparr>rawfd := ret\<rparr>, w))"

section \<open>The loop\<close>

text \<open>The program between two iterations: the structure, the system, the heap, and the local variable
  \<^verbatim>\<open>reset_packet_size\<close>.\<close>

record server_state =
  srv :: vpn_server
  sys_os :: os
  hp :: heap
  reset_packet_size :: int

text \<open>The loops that print the first \<open>n\<close> bytes of the buffer, and the newlines behind them.\<close>

definition print_hex :: "string \<Rightarrow> buf \<Rightarrow> int \<Rightarrow> os \<Rightarrow> os option" where
  "print_hex fmt b n w =
     (if n \<le> int (length b)
      then Some (fold printf (map (\<lambda>x. (fmt, [uint x])) (take (nat n) b) @ [([], [])]) w) else None)"

text \<open>The first half of an iteration, up to the label \<^verbatim>\<open>NEXT\<close>.\<close>

definition client_half :: "int \<Rightarrow> server_state \<Rightarrow> (os + server_state) option" where
  "client_half count st = do {
     let s = srv st;
     (ret, b, ra, w) \<leftarrow> read_msg_udp (udpfd s) (buf s) (buf_len s) (Some (raddr s)) (sys_os st);
     let s = s\<lparr>buf := b, raddr := the ra\<rparr>;
     if ret < 0 then Some (Inl (perror ''udp read'' w))
     else if ret = 0 then Some (Inr (st\<lparr>srv := s, sys_os := w\<rparr>))
     else do {
       let w = printf (''udp read %d bytes'', [ret]) w;
       let read_len = ret;
       (v, rst, b, h, t) \<leftarrow>
         handle_client_packet count (hp st) (table s) (buf s) (buf_len s) (local_ip s) (reset_packet_size st);
       let s = s\<lparr>buf := b, table := t\<rparr>;
       if v = INVALID_SESSION then do {
         w \<leftarrow> print_hex ''%02x'' b read_len (printf (''client invalid session'', []) w);
         Some (Inr \<lparr>srv = s, sys_os = w, hp = h, reset_packet_size = rst\<rparr>) }
       else do {
         let w = printf (''handled 1 client packet'', []) w;
         (out, h) \<leftarrow> print_session_hash_table h t;
         let w = fold printf out w;
         (ret, l, w) \<leftarrow> send_ip_packet (rawfd s) b read_len (ll s) w;
         let s = s\<lparr>ll := l\<rparr>;
         if ret < 0 then Some (Inl (perror ''udp send'' w))
         else do {
           w \<leftarrow> print_hex ''%02x '' b ret (printf (''sent client packet %d bytes to real world'', [ret]) w);
           Some (Inr \<lparr>srv = s, sys_os = w, hp = h, reset_packet_size = rst\<rparr>) } } } }"

text \<open>The second half, from the label on.\<close>

definition world_half :: "server_state \<Rightarrow> (os + server_state) option" where
  "world_half st = do {
     let s = srv st;
     (ret, b, _, w) \<leftarrow> get_ip_packet (rawfd s) (buf s) (buf_len s) None (sys_os st);
     let s = s\<lparr>buf := b\<rparr>;
     if ret < 0 then Some (Inl (perror ''raw read'' w))
     else if ret = 0 then Some (Inr (st\<lparr>srv := s, sys_os := snd (sys (Sleep 1) w)\<rparr>))
     else do {
       let read_len = ret;
       ms \<leftarrow> world_messages (hp st) (table s) (buf s) (buf_len s);
       let w = fold printf ms w;
       (cip, v, rst, b, h, t) \<leftarrow>
         handle_world_packet (hp st) (table s) (buf s) (buf_len s) (reset_packet_size st) (last_client_ip s);
       let s = s\<lparr>buf := b, table := t, last_client_ip := cip\<rparr>;
       if v = INVALID_SESSION then do {
         w \<leftarrow> print_hex ''%02x'' b read_len (printf (''raw invalid session: '', []) w);
         Some (Inr \<lparr>srv = s, sys_os = w, hp = h, reset_packet_size = rst\<rparr>) }
       else do {
         let w = printf (''handled 1 real-world packet'', []) w;
         (ret, w) \<leftarrow> send_msg_udp (udpfd s) b read_len (Some (raddr s)) w;
         if ret < 0 then Some (Inl (perror ''raw send'' w))
         else Some (Inr \<lparr>srv = s, sys_os = printf (''sent real-world packet %d bytes to client'', [ret]) w, hp = h,
                     reset_packet_size = rst\<rparr>) } } }"

definition server_step :: "int \<Rightarrow> server_state \<Rightarrow> (os + server_state) option" where
  "server_step count st = do {
     v \<leftarrow> client_half count st;
     case v of Inl w \<Rightarrow> Some (Inl w) | Inr st \<Rightarrow> world_half st }"

text \<open>\<open>k\<close> iterations of the loop; \<open>counts\<close> are the values of the uninitialised counter in them.\<close>

fun server_loop :: "(nat \<Rightarrow> int) \<Rightarrow> nat \<Rightarrow> server_state \<Rightarrow> (os + server_state) option" where
  "server_loop counts 0 st = Some (Inr st)"
| "server_loop counts (Suc k) st = do {
     v \<leftarrow> server_step (counts 0) st;
     case v of Inl w \<Rightarrow> Some (Inl w) | Inr st \<Rightarrow> server_loop (\<lambda>n. counts (Suc n)) k st }"

text \<open>The program up to the end of its \<open>k\<close>-th iteration, from the initial contents of stack and heap.\<close>

definition server_main :: "(nat \<Rightarrow> int) \<Rightarrow> nat \<Rightarrow> vpn_server \<Rightarrow> int \<Rightarrow> heap \<Rightarrow> os \<Rightarrow> (os + server_state) option" where
  "server_main counts k s rst h w =
     (case init_vpn_server s w of
        Inl w \<Rightarrow> Some (Inl w)
      | Inr (s, w) \<Rightarrow> server_loop counts k \<lparr>srv = s, sys_os = w, hp = h, reset_packet_size = rst\<rparr>)"

section \<open>System calls of an iteration\<close>

lemma print_hex_ran:
  assumes "n \<le> int (length b)"
  shows "\<exists>w'. print_hex fmt b n w = Some w' \<and> ran [] w w'"
  using assms by (simp add: print_hex_def)

section \<open>The invariant of the loop and the kernel's part\<close>

definition server_ok :: "server_state \<Rightarrow> bool" where
  "server_ok st \<longleftrightarrow> length (buf (srv st)) = 9000 \<and> buf_len (srv st) = MAX_BUF \<and>
     sll_ok (ll (srv st)) \<and>
     table_inv (hp st) (table (srv st)) \<and> port_range (table (srv st)) = {40000 .. 41000} \<and> mod_num (table (srv st)) \<noteq> 0"

text \<open>
  What the loop relies on: no call reports more bytes than the buffer has, no link layer address is longer than 8 bytes, and
  the raw socket does not deliver packets for other hosts for ever.
\<close>

definition kernel_ok :: "os \<Rightarrow> bool" where
  "kernel_ok w \<longleftrightarrow> (\<forall>j. ret (replies w j) \<le> MAX_BUF \<and>
     sll_ok (from_ll (replies w j)) \<and>
     (\<exists>k. \<not> skipped (replies w (j + k))))"

lemma kernel_ok_ran: "kernel_ok w \<Longrightarrow> ran cs w w' \<Longrightarrow> kernel_ok w'"
  by (simp add: kernel_ok_def ran_def) (metis add.assoc add.commute)

section \<open>The first half\<close>

text \<open>The structure after a message was read.\<close>

definition heard :: "server_state \<Rightarrow> vpn_server" where
  "heard st = (let r = replies (sys_os st) 0; s = srv st
     in s\<lparr>buf := received r (buf s), raddr := (if ret r < 0 then raddr s else from_in r)\<rparr>)"

abbreviation udp_recv :: "server_state \<Rightarrow> syscall" where
  "udp_recv st \<equiv> Recvfrom (udpfd (srv st)) (MAX_BUF) MSG_DONTWAIT"

lemma heard_simps [simp]:
  "buf (heard st) = received (replies (sys_os st) 0) (buf (srv st))"
  "udpfd (heard st) = udpfd (srv st)" "rawfd (heard st) = rawfd (srv st)" "ll (heard st) = ll (srv st)"
  "table (heard st) = table (srv st)" "buf_len (heard st) = buf_len (srv st)" "local_ip (heard st) = local_ip (srv st)"
  "last_client_ip (heard st) = last_client_ip (srv st)"
  by (simp_all add: heard_def Let_def)

lemma client_half_unfold:
  assumes "server_ok st"
  shows "client_half count st = (let r = replies (sys_os st) 0; n = received_length r; w = after (udp_recv st) (sys_os st)
    in if n < 0 then Some (Inl (perror ''udp read'' w))
     else if n = 0 then Some (Inr (st\<lparr>srv := heard st, sys_os := w\<rparr>))
     else do {
       (v, rst, b, h, t) \<leftarrow> handle_client_packet count (hp st) (table (srv st)) (buf (heard st)) (MAX_BUF)
          (local_ip (srv st)) (reset_packet_size st);
       let w = printf (''udp read %d bytes'', [n]) w;
       let s = heard st\<lparr>buf := b, table := t\<rparr>;
       if v = INVALID_SESSION then do {
         w \<leftarrow> print_hex ''%02x'' b n (printf (''client invalid session'', []) w);
         Some (Inr \<lparr>srv = s, sys_os = w, hp = h, reset_packet_size = rst\<rparr>) }
       else do {
         (out, h) \<leftarrow> print_session_hash_table h t;
         let w = fold printf out (printf (''handled 1 client packet'', []) w);
         (m, l, w) \<leftarrow> send_ip_packet (rawfd (srv st)) b n (ll (srv st)) w;
         if m < 0 then Some (Inl (perror ''udp send'' w))
         else do {
           w \<leftarrow> print_hex ''%02x '' b m (printf (''sent client packet %d bytes to real world'', [m]) w);
           Some (Inr \<lparr>srv = s\<lparr>ll := l\<rparr>, sys_os = w, hp = h, reset_packet_size = rst\<rparr>) } } })"
proof -
  let ?r = "replies (sys_os st) 0"
  have len: "0 \<le> MAX_BUF" "MAX_BUF \<le> int (length (buf (srv st)))" "buf_len (srv st) = MAX_BUF"
    using assms by (simp_all add: server_ok_def)
  have s: "srv st\<lparr>buf := received ?r (buf (srv st)),
      raddr := the (if ret ?r < 0 then Some (raddr (srv st)) else map_option (\<lambda>_. from_in ?r) (Some (raddr (srv st))))\<rparr> = heard st"
    by (simp add: heard_def Let_def)
  show ?thesis
    unfolding client_half_def Let_def len(3) read_msg_udp_outcome [OF len(1,2)] bind.bind_lunit prod.case s by (simp add: len(3) cong: if_cong)
qed

lemma client_half_silent:
  assumes "server_ok st" and "received_length (replies (sys_os st) 0) \<le> 0"
  shows "client_half count st = Some (if received_length (replies (sys_os st) 0) = 0
     then Inr (st\<lparr>srv := heard st, sys_os := after (udp_recv st) (sys_os st)\<rparr>)
     else Inl (perror ''udp read'' (after (udp_recv st) (sys_os st))))"
  unfolding client_half_unfold [OF assms(1)] using assms(2) by (simp add: Let_def)

lemma client_half_rejected:
  assumes ok: "server_ok st" and n: "0 < received_length (replies (sys_os st) 0)" "received_length (replies (sys_os st) 0) \<le> MAX_BUF"
    and run: "handle_client_packet count (hp st) (table (srv st)) (buf (heard st)) (MAX_BUF) (local_ip (srv st))
      (reset_packet_size st) = Some (INVALID_SESSION, rst, b, h, t)" "length b = 9000"
  shows "\<exists>w. client_half count st = Some (Inr \<lparr>srv = heard st\<lparr>buf := b, table := t\<rparr>, sys_os = w, hp = h,
      reset_packet_size = rst\<rparr>) \<and> ran [udp_recv st] (sys_os st) w"
proof -
  let ?n = "received_length (replies (sys_os st) 0)"
  let ?w = "printf (''client invalid session'', []) (printf (''udp read %d bytes'', [?n]) (after (udp_recv st) (sys_os st)))"
  obtain w where w: "print_hex ''%02x'' b ?n ?w = Some w" "ran [] ?w w"
    using print_hex_ran [of ?n b "''%02x''" ?w] n run(2) by auto
  have "ran [udp_recv st] (sys_os st) w"
    using ran_trans [of "[udp_recv st]" "sys_os st" ?w "[]" w] w(2) by simp
  then show ?thesis
    unfolding client_half_unfold [OF ok] using n w(1) by (simp add: Let_def run(1) del: heard_simps)
qed

lemma client_half_forwarded:
  fixes st
  defines "l \<equiv> ll (srv st)\<lparr>sll_hatype := 0, sll_pkttype := 0\<rparr>"
  assumes ok: "server_ok st" "kernel_ok (sys_os st)" and n: "0 < received_length (replies (sys_os st) 0)"
    and run: "handle_client_packet count (hp st) (table (srv st)) (buf (heard st)) (MAX_BUF) (local_ip (srv st))
      (reset_packet_size st) = Some (VALID_SESSION, rst, b, h, t)" "length b = 9000" "table_inv h t"
  shows "\<exists>w k. client_half count st = Some (if ret (replies (sys_os st) 1) < 0 then Inl w
      else Inr \<lparr>srv = heard st\<lparr>buf := b, table := t, ll := l\<rparr>, sys_os = w, hp = (tick ^^ k) h, reset_packet_size = rst\<rparr>) \<and>
    ran [udp_recv st, Sendto_ll (rawfd (srv st)) (take (nat (ret (replies (sys_os st) 0))) b) 0 l] (sys_os st) w"
proof -
  let ?n = "received_length (replies (sys_os st) 0)" and ?m = "ret (replies (sys_os st) 1)"
  let ?send = "Sendto_ll (rawfd (srv st)) (take (nat ?n) b) 0 l"
  have r: "?n = ret (replies (sys_os st) 0)" using n by (simp add: received_length_def split: if_splits)
  have le: "?n \<le> int (length b)" "?m \<le> int (length b)"
    using ok(2) run(2) unfolding r kernel_ok_def by simp_all
  obtain out k where p: "print_session_hash_table h t = Some (out, (tick ^^ k) h)"
    using print_session_hash_table_total [OF run(3)] by blast
  let ?w = "fold printf out (printf (''handled 1 client packet'', []) (printf (''udp read %d bytes'', [?n])
      (after (udp_recv st) (sys_os st))))"
  have w: "ran [udp_recv st] (sys_os st) ?w" by simp
  have rep: "replies ?w 0 = replies (sys_os st) 1" using w by (simp add: ran_def)
  have "sll_ok (ll (srv st))" using ok(1) by (simp add: server_ok_def)
  then obtain w1 where w1: "send_ip_packet (rawfd (srv st)) b ?n (ll (srv st)) ?w = Some (?m, l, w1)" "ran [?send] ?w w1"
    using send_ip_packet_ran [of ?n b "ll (srv st)" "rawfd (srv st)" ?w] n le(1) unfolding rep l_def by auto
  have sent: "ran [udp_recv st, ?send] (sys_os st) w1" using ran_trans [OF w w1(2)] by simp
  obtain w2 where w2: "print_hex ''%02x '' b ?m (printf (''sent client packet %d bytes to real world'', [?m]) w1) = Some w2"
    "ran [] w1 w2"
    using print_hex_ran [OF le(2), of "''%02x ''" "printf (''sent client packet %d bytes to real world'', [?m]) w1"] by auto
  have fin: "ran [udp_recv st, ?send] (sys_os st) w2" using ran_trans [OF sent w2(2)] by simp
  show ?thesis
  proof (cases "?m < 0")
    case True
    then show ?thesis
      unfolding client_half_unfold [OF ok(1)] using n sent
      by (intro exI [of _ "perror ''udp send'' w1"]) (simp add: Let_def run(1) p w1(1) [unfolded r] r del: heard_simps)
  next
    case False
    then show ?thesis
      unfolding client_half_unfold [OF ok(1)] using n fin
      by (intro exI [of _ w2] exI [of _ k]) (simp add: Let_def run(1) p w1(1) [unfolded r] w2(1) [simplified] r del: heard_simps)
  qed
qed

section \<open>The second half\<close>

abbreviation raw_recv :: "server_state \<Rightarrow> syscall" where
  "raw_recv st \<equiv> Recvfrom (rawfd (srv st)) MAX_BUF MSG_DONTWAIT"

text \<open>The number of packets the raw socket skips first.\<close>

definition skips :: "os \<Rightarrow> nat" where
  "skips w = (LEAST k. \<not> skipped (replies w k))"

abbreviation raw_reply :: "server_state \<Rightarrow> reply" where
  "raw_reply st \<equiv> replies (sys_os st) (skips (sys_os st))"

lemma skips_skipped:
  assumes "kernel_ok w"
  shows "\<not> skipped (replies w (skips w))" "j < skips w \<Longrightarrow> skipped (replies w j)"
proof -
  have "\<exists>k. \<not> skipped (replies w (0 + k))" using assms [unfolded kernel_ok_def, THEN spec, of 0] by (rule conjunct2 [OF conjunct2])
  then show "\<not> skipped (replies w (skips w))" unfolding skips_def add_0 by (rule LeastI_ex)
  show "j < skips w \<Longrightarrow> skipped (replies w j)" unfolding skips_def by (drule not_less_Least) simp
qed

lemma world_read:
  assumes ok: "server_ok st" "kernel_ok (sys_os st)"
  shows "\<exists>b0 l' w. get_ip_packet (rawfd (srv st)) (buf (srv st)) MAX_BUF None (sys_os st)
      = Some (received_length (raw_reply st), b0, l', w) \<and> length b0 = 9000 \<and>
    ran (replicate (Suc (skips (sys_os st))) (raw_recv st)) (sys_os st) w \<and>
    (0 \<le> ret (raw_reply st) \<longrightarrow> (\<exists>c. length c = 9000 \<and> b0 = received (raw_reply st) c))"
proof -
  have len: "length (buf (srv st)) = 9000" using ok(1) by (simp add: server_ok_def)
  then have n: "0 \<le> MAX_BUF" "MAX_BUF \<le> int (length (buf (srv st)))" by simp_all
  have addr: "sll_ok (from_ll (raw_reply st))"
    using ok(2) by (simp add: kernel_ok_def)
  show ?thesis
    using get_ip_packet_ran [OF n skips_skipped(2,1) [OF ok(2)] addr] unfolding len by blast
qed

lemma world_half_unfold:
  assumes ok: "server_ok st" "kernel_ok (sys_os st)"
    and read: "get_ip_packet (rawfd (srv st)) (buf (srv st)) MAX_BUF None (sys_os st) = Some (n, b0, l', w)"
  shows "world_half st = (
    if n < 0 then Some (Inl (perror ''raw read'' w))
    else if n = 0 then Some (Inr (st\<lparr>srv := srv st\<lparr>buf := b0\<rparr>, sys_os := after (Sleep 1) w\<rparr>))
    else do {
       ms \<leftarrow> world_messages (hp st) (table (srv st)) b0 MAX_BUF;
       let w = fold printf ms w;
       (cip, v, rst, b, h, t) \<leftarrow>
         handle_world_packet (hp st) (table (srv st)) b0 MAX_BUF (reset_packet_size st) (last_client_ip (srv st));
       let s = srv st\<lparr>buf := b, table := t, last_client_ip := cip\<rparr>;
       if v = INVALID_SESSION then do {
         w \<leftarrow> print_hex ''%02x'' b n (printf (''raw invalid session: '', []) w);
         Some (Inr \<lparr>srv = s, sys_os = w, hp = h, reset_packet_size = rst\<rparr>) }
       else do {
         (ret, w) \<leftarrow> send_msg_udp (udpfd (srv st)) b n (Some (raddr (srv st))) (printf (''handled 1 real-world packet'', []) w);
         if ret < 0 then Some (Inl (perror ''raw send'' w))
         else Some (Inr \<lparr>srv = s, sys_os = printf (''sent real-world packet %d bytes to client'', [ret]) w, hp = h,
                     reset_packet_size = rst\<rparr>) } })"
proof -
  have len: "buf_len (srv st) = MAX_BUF" using ok(1) by (simp add: server_ok_def)
  show ?thesis
    unfolding world_half_def Let_def len read bind.bind_lunit prod.case after_def [symmetric]
    by (simp add: len cong: if_cong)
qed

lemma world_half_silent:
  assumes ok: "server_ok st" "kernel_ok (sys_os st)" and n: "received_length (raw_reply st) \<le> 0"
  shows "\<exists>b w. length b = 9000 \<and> ran (replicate (Suc (skips (sys_os st))) (raw_recv st)) (sys_os st) w \<and>
    world_half st = Some (if received_length (raw_reply st) = 0
      then Inr (st\<lparr>srv := srv st\<lparr>buf := b\<rparr>, sys_os := after (Sleep 1) w\<rparr>) else Inl (perror ''raw read'' w))"
proof -
  obtain b0 l' w where r: "get_ip_packet (rawfd (srv st)) (buf (srv st)) MAX_BUF None (sys_os st)
      = Some (received_length (raw_reply st), b0, l', w)" "length b0 = 9000"
    "ran (replicate (Suc (skips (sys_os st))) (raw_recv st)) (sys_os st) w"
    using world_read [OF ok] by blast
  show ?thesis
    using r(2,3) n unfolding world_half_unfold [OF ok r(1)] by (intro exI [of _ b0] exI [of _ w]) simp
qed

text \<open>A packet arrived: its bytes are at the start of the buffer, and the handler decides.\<close>

lemma world_half_packet:
  assumes ok: "server_ok st" "kernel_ok (sys_os st)" and n: "0 < received_length (raw_reply st)"
  obtains b0 c0 where "length c0 = 9000" "b0 = received (raw_reply st) c0" "length b0 = 9000"
    "\<And>cip rst b h t. handle_world_packet (hp st) (table (srv st)) b0 MAX_BUF (reset_packet_size st) (last_client_ip (srv st))
        = Some (cip, INVALID_SESSION, rst, b, h, t) \<Longrightarrow> length b = 9000 \<Longrightarrow>
      \<exists>w. ran (replicate (Suc (skips (sys_os st))) (raw_recv st)) (sys_os st) w \<and>
        world_half st = Some (Inr \<lparr>srv = srv st\<lparr>buf := b, table := t, last_client_ip := cip\<rparr>, sys_os = w, hp = h,
          reset_packet_size = rst\<rparr>)"
    "\<And>cip rst b h t. handle_world_packet (hp st) (table (srv st)) b0 MAX_BUF (reset_packet_size st) (last_client_ip (srv st))
        = Some (cip, VALID_SESSION, rst, b, h, t) \<Longrightarrow> length b = 9000 \<Longrightarrow>
      \<exists>w. ran (replicate (Suc (skips (sys_os st))) (raw_recv st) @
          [Sendto_in (udpfd (srv st)) (take (nat (ret (raw_reply st))) b) MSG_CONFIRM (Some (raddr (srv st)))]) (sys_os st) w \<and>
        world_half st = Some (if ret (replies (sys_os st) (Suc (skips (sys_os st)))) < 0 then Inl w
          else Inr \<lparr>srv = srv st\<lparr>buf := b, table := t, last_client_ip := cip\<rparr>, sys_os = w, hp = h,
            reset_packet_size = rst\<rparr>)"
proof -
  let ?r = "raw_reply st" and ?k = "Suc (skips (sys_os st))"
  have r: "received_length ?r = ret ?r" "0 < ret ?r" using n by (simp_all add: received_length_def split: if_splits)
  have le: "ret ?r \<le> 9000" using ok(2) by (simp add: kernel_ok_def)
  obtain b0 l' w where g: "get_ip_packet (rawfd (srv st)) (buf (srv st)) MAX_BUF None (sys_os st) = Some (ret ?r, b0, l', w)"
    "length b0 = 9000" and w: "ran (replicate ?k (raw_recv st)) (sys_os st) w" and c: "\<exists>c. length c = 9000 \<and> b0 = received ?r c"
    using world_read [OF ok] r by (auto simp del: replicate_Suc)
  then obtain c0 where c0: "length c0 = 9000" "b0 = received ?r c0" by blast
  show thesis
  proof (rule that [OF c0 g(2)])
    fix cip rst h t and b :: "u8 list"
    assume len: "length b = 9000"
    {
      assume run: "handle_world_packet (hp st) (table (srv st)) b0 MAX_BUF (reset_packet_size st) (last_client_ip (srv st))
        = Some (cip, INVALID_SESSION, rst, b, h, t)"
      obtain ms where ms: "world_messages (hp st) (table (srv st)) b0 MAX_BUF = Some ms"
        using world_messages_defined [OF run] by blast
      obtain w' where w': "print_hex ''%02x'' b (ret ?r) (printf (''raw invalid session: '', []) (fold printf ms w)) = Some w'"
        "ran [] w w'"
        using print_hex_ran [of "ret ?r" b "''%02x''" "printf (''raw invalid session: '', []) (fold printf ms w)"] le len
        by auto
      show "\<exists>w. ran (replicate ?k (raw_recv st)) (sys_os st) w \<and>
          world_half st = Some (Inr \<lparr>srv = srv st\<lparr>buf := b, table := t, last_client_ip := cip\<rparr>, sys_os = w, hp = h,
            reset_packet_size = rst\<rparr>)"
        using ran_trans [OF w w'(2)] r(2) w'(1) unfolding world_half_unfold [OF ok g(1)]
        by (intro exI [of _ w']) (simp add: run ms del: replicate_Suc)
    next
      assume run: "handle_world_packet (hp st) (table (srv st)) b0 MAX_BUF (reset_packet_size st) (last_client_ip (srv st))
        = Some (cip, VALID_SESSION, rst, b, h, t)"
      let ?send = "Sendto_in (udpfd (srv st)) (take (nat (ret ?r)) b) MSG_CONFIRM (Some (raddr (srv st)))"
      obtain ms where ms: "world_messages (hp st) (table (srv st)) b0 MAX_BUF = Some ms"
        using world_messages_defined [OF run] by blast
      let ?w = "printf (''handled 1 real-world packet'', []) (fold printf ms w)"
      have send: "send_msg_udp (udpfd (srv st)) b (ret ?r) (Some (raddr (srv st))) ?w
          = Some (ret (replies (sys_os st) ?k), after ?send ?w)"
        using r(2) le len w by (simp add: send_msg_udp_def sys_after ran_def fold_printf del: replicate_Suc)
      have w': "ran (replicate ?k (raw_recv st) @ [?send]) (sys_os st) (after ?send ?w)"
        using ran_trans [of "replicate ?k (raw_recv st)" "sys_os st" ?w "[?send]", OF _ ran_after] w
        by (simp only: ran_printf)
      show "\<exists>w. ran (replicate ?k (raw_recv st) @ [?send]) (sys_os st) w \<and>
          world_half st = Some (if ret (replies (sys_os st) ?k) < 0 then Inl w
            else Inr \<lparr>srv = srv st\<lparr>buf := b, table := t, last_client_ip := cip\<rparr>, sys_os = w, hp = h,
              reset_packet_size = rst\<rparr>)"
        using w' r(2) unfolding world_half_unfold [OF ok g(1)]
        by (intro exI [of _ "if ret (replies (sys_os st) ?k) < 0 then perror ''raw send'' (after ?send ?w)
            else printf (''sent real-world packet %d bytes to client'', [ret (replies (sys_os st) ?k)]) (after ?send ?w)"])
          (simp add: run ms send del: replicate_Suc)
    }
  qed
qed

end
