(* ===== verification/Table_Properties.thy ===== *)
theory Table_Properties
  imports Examples
begin

text \<open>
  The properties of the session lists and the session hash table of \<^verbatim>\<open>src/src/lib/session_struct.c\<close>.
  The abstract view of a table is a partial map from client end points to sessions; every operation of the
  table is shown to be the matching operation of that map.
\<close>

section \<open>The abstract view\<close>

definition abs_table :: "heap \<Rightarrow> session_hash_table \<Rightarrow> (u32 \<times> u16) \<Rightarrow> tcp_session option" where
  "abs_table h t k = (case get_tcp_session_by_client h t (fst k) (snd k) of
     Some (Some s) \<Rightarrow> sessions h s | _ \<Rightarrow> None)"

text \<open>What adding a session for \<open>k\<close> may do to the map: the existing session, none when no port was found, or a
  new session on a port of the range that no session uses.\<close>

definition abs_add :: "u16 set \<Rightarrow> int \<Rightarrow> (u32 \<times> u16) \<Rightarrow> (u32 \<times> u16 \<rightharpoonup> tcp_session) \<Rightarrow> tcp_session option \<Rightarrow>
    (u32 \<times> u16 \<rightharpoonup> tcp_session) \<Rightarrow> bool" where
  "abs_add R e k m r m' \<longleftrightarrow>
     (case m k of
        Some x \<Rightarrow> r = Some x \<and> m' = m
      | None \<Rightarrow> r = None \<and> m' = m \<or>
          (\<exists>p \<in> R - server_port ` ran m. r = Some (new_session (fst k) (snd k) p e) \<and> m' = m(k := r)))"

definition abs_clean :: "int \<Rightarrow> (u32 \<times> u16 \<rightharpoonup> tcp_session) \<Rightarrow> (u32 \<times> u16 \<rightharpoonup> tcp_session)" where
  "abs_clean now m = (\<lambda>k. case m k of Some x \<Rightarrow> if now \<le> expire x then Some x else None | None \<Rightarrow> None)"

lemma abs_table_iff:
  assumes "table_inv h t"
  shows "abs_table h t k = Some x \<longleftrightarrow>
    (\<exists>s. get_tcp_session_by_client h t (fst k) (snd k) = Some (Some s) \<and> sessions h s = Some x)"
  by (auto simp: abs_table_def split: option.splits)

lemma abs_table_none:
  assumes "table_inv h t"
  shows "abs_table h t k = None \<longleftrightarrow> get_tcp_session_by_client h t (fst k) (snd k) = Some None"
  using table_client_total [OF assms, of "fst k" "snd k"] table_client_sound [OF assms]
  by (fastforce simp: abs_table_def split: option.splits)

lemma abs_table_server:
  assumes inv: "table_inv h t"
  shows "get_tcp_session_by_server h t p = Some None \<longleftrightarrow> p \<notin> server_port ` ran (abs_table h t)"
proof -
  obtain g where g: "get_tcp_session_by_server h t p = Some g" using table_server_total [OF inv] by blast
  show ?thesis
  proof (cases g)
    case None
    have "server_port x \<noteq> p" if "abs_table h t k = Some x" for k x
      using that table_client_server [OF inv] g None by (auto simp: abs_table_iff [OF inv])
    then show ?thesis using g None by (auto simp: ran_def)
  next
    case (Some s)
    then obtain x where x: "sessions h s = Some x" "server_port x = p"
      using table_server_sound [OF inv] g by blast
    then have "abs_table h t (client_ip x, client_port x) = Some x"
      using table_server_client [OF inv] g Some by (auto simp: abs_table_iff [OF inv])
    then show ?thesis using g Some x(2) by (auto simp: ran_def)
  qed
qed

lemma abs_ports_unique:
  assumes "table_inv h t" and "abs_table h t k = Some x" and "abs_table h t k' = Some x'"
    and "server_port x = server_port x'"
  shows "k = k'"
  using ht.ports_not_shared [of "(h, t)" "fst k" "snd k" _ "fst k'" "snd k'"] assms
  by (auto simp: abs_table_iff prod_eq_iff)

section \<open>Lists\<close>

text \<open>
  \<^verbatim>\<open>insert_tcp_session\<close> on a list of cells always returns, puts one new cell for the session behind the last
  one, and changes no node outside the list.
\<close>

theorem insert_tcp_session_appends:
  assumes "chain (nodes h) p cs" and "distinct (map fst cs)" and "brk h \<notin> cells cs"
  shows "\<exists>p' N'. insert_tcp_session h p s = Some (p', h\<lparr>nodes := N', brk := Suc (brk h)\<rparr>) \<and>
    chain N' p' (cs @ [(brk h, s)]) \<and> (\<forall>a. a \<noteq> brk h \<longrightarrow> a \<notin> cells cs \<longrightarrow> N' a = nodes h a)"
  using insert_tcp_session_chain [OF assms] by blast

theorem insert_tcp_session_appends_witness:
  "\<exists>p' N'. insert_tcp_session (ex_heap\<lparr>brk := 7\<rparr>) None 3 = Some (p', ex_heap\<lparr>brk := 7\<rparr>\<lparr>nodes := N', brk := 8\<rparr>) \<and>
    chain N' p' [(7, 3)]"
  using insert_tcp_session_appends [of "ex_heap\<lparr>brk := 7\<rparr>" None "[]" 3] by auto

text \<open>
  \<^verbatim>\<open>delete_expired_session\<close> ends on every list, whatever the clock shows from call to call, and leaves the
  sublist of the cells that were live when they were looked at (the first cell last); it frees the nodes
  of the others and touches no other node and no session object.
\<close>

theorem delete_expired_session_keeps_live:
  assumes "chain (nodes h) p cs" and "distinct (map fst cs)" and "live_cells h cs"
  shows "\<exists>p' N'. delete_expired_session h p =
      Some (p', h\<lparr>nodes := N', times := (\<lambda>n. times h (n + length cs))\<rparr>) \<and>
    chain N' p' (survivors (sess h) (times h) cs) \<and>
    (\<forall>a. a \<notin> cells cs \<longrightarrow> N' a = nodes h a) \<and>
    (\<forall>d \<in> set cs. d \<notin> set (survivors (sess h) (times h) cs) \<longrightarrow> N' (fst d) = None)"
  using assms by (rule delete_expired_session_chain)

text \<open>A list of two cells, the first expired at time 100 and the second not.\<close>

definition ex_two :: heap where
  "ex_two = ex_heap\<lparr>
     nodes := [0 \<mapsto> \<lparr>session = Some 0, nxt = Some 1\<rparr>, 1 \<mapsto> \<lparr>session = Some 1, nxt = None\<rparr>],
     sessions := [0 \<mapsto> new_session 1 1 1 50, 1 \<mapsto> new_session 2 2 2 150]\<rparr>"

theorem delete_expired_session_keeps_live_witness:
  "\<exists>p' N'. delete_expired_session ex_two (Some 0) = Some (p', ex_two\<lparr>nodes := N', times := (\<lambda>n. 100)\<rparr>) \<and>
    chain N' p' [(1, 1)] \<and> N' 0 = None"
proof -
  have "chain (nodes ex_two) (Some 0) [(0, 0), (1, 1)]" "live_cells ex_two [(0, 0), (1, 1)]"
    by (simp_all add: ex_two_def live_cells_def)
  moreover have "survivors (sess ex_two) (times ex_two) [(0, 0), (1, 1)] = [(1, 1)]"
    by (simp add: ex_two_def ex_heap_def new_session_def)
  ultimately show ?thesis
    using delete_expired_session_keeps_live [of ex_two "Some 0" "[(0, 0), (1, 1)]"]
    by (auto simp: ex_two_def ex_heap_def)
qed

section \<open>Lookup\<close>

text \<open>
  The table is a one-to-one translation: on a well-formed table no two client end points have sessions with
  the same server port, so a packet from the world belongs to one client.
\<close>

theorem server_ports_unique:
  assumes "table_inv h t" and "abs_table h t k = Some x" and "abs_table h t k' = Some x'"
    and "server_port x = server_port x'"
  shows "k = k'"
  using assms by (rule abs_ports_unique)

theorem server_ports_unique_witness:
  "abs_table ex_h1 ex_t1 (0x0a000005, 40000) \<noteq> None \<and>
    \<not> (\<exists>x. abs_table ex_h1 ex_t1 (0x0a000005, 40001) = Some x \<and> server_port x = 5000)"
proof -
  have a: "abs_table ex_h1 ex_t1 (0x0a000005, 40000) = Some (new_session 0x0a000005 40000 5000 110)"
    using ex_1_session by (simp add: abs_table_def)
  have "k = (0x0a000005, 40000)" if "abs_table ex_h1 ex_t1 k = Some x" "server_port x = 5000" for k x
    by (rule server_ports_unique [OF ex_1_inv that(1) a]) (simp add: that(2) new_session_def)
  note unique = this
  have "\<not> (\<exists>x. abs_table ex_h1 ex_t1 (0x0a000005, 40001) = Some x \<and> server_port x = 5000)"
  proof (rule notI, elim exE conjE)
    fix x assume "abs_table ex_h1 ex_t1 (0x0a000005, 40001) = Some x" "server_port x = 5000"
    then have "(0x0a000005 :: u32, 40001 :: u16) = (0x0a000005, 40000)" by (rule unique)
    then show False by simp
  qed
  moreover have "abs_table ex_h1 ex_t1 (0x0a000005, 40000) \<noteq> None" unfolding a by (rule option.distinct(2))
  ultimately show ?thesis by (rule conjI [rotated])
qed

text \<open>
  C23. The two arrays agree: looking up a port finds the session object that the map gives for its client end
  point, and nothing else.
\<close>

theorem lookup_by_server_agrees:
  assumes "table_inv h t"
  shows "get_tcp_session_by_server h t p = Some (Some s) \<longleftrightarrow>
    (\<exists>x. sessions h s = Some x \<and> server_port x = p \<and>
      get_tcp_session_by_client h t (client_ip x) (client_port x) = Some (Some s))"
  using table_server_sound [OF assms] table_server_client [OF assms] table_client_server [OF assms] by metis

theorem lookup_by_server_agrees_witness:
  "\<exists>x. sessions ex_h1 0 = Some x \<and> server_port x = 5000 \<and>
    get_tcp_session_by_client ex_h1 ex_t1 (client_ip x) (client_port x) = Some (Some 0)"
  using lookup_by_server_agrees [OF ex_1_inv, of 5000 0] ex_1_session(4) by blast

section \<open>Creation and growth\<close>

lemma port_range_init:
  assumes "lo \<le> hi" and "unat hi - unat lo < 65535"
  shows "unat (hi - lo + 1) = unat hi - unat lo + 1" "port_range (init_hash_table n lo hi) = {lo .. hi}"
proof -
  have "unat (hi - lo) = unat hi - unat lo" using assms(1) by (rule unat_sub)
  then show m: "unat (hi - lo + 1) = unat hi - unat lo + 1"
    using assms(2) by (simp add: unat_word_ariths)
  have le: "unat lo \<le> unat hi" using assms(1) by (simp add: word_le_nat_alt)
  have port: "unat (ucast (k + ucast lo) :: u16) = unat k + unat lo" if "unat k + unat lo \<le> unat hi" for k :: u32
  proof -
    have "unat k + unat lo < 65536" using that unat_u16_bound [of hi] by linarith
    then have "unat (k + ucast lo) = unat k + unat lo"
      by (simp add: unat_add_u32 unat_ucast_mod_num)
    then show ?thesis
      using \<open>unat k + unat lo < 65536\<close> by (simp add: unsigned_ucast_eq take_bit_eq_mod unat_mod)
  qed
  show "port_range (init_hash_table n lo hi) = {lo .. hi}"
  proof (intro set_eqI iffI)
    fix p assume "p \<in> port_range (init_hash_table n lo hi)"
    then obtain k :: u32 where k: "p = ucast (k + ucast lo)" "unat k < unat (hi - lo + 1)"
      by (auto simp: port_range_def init_hash_table_def)
    then have "unat k + unat lo \<le> unat hi" using m le by linarith
    then show "p \<in> {lo .. hi}" using port [of k] k(1) by (simp add: word_le_nat_alt)
  next
    fix p assume "p \<in> {lo .. hi}"
    then have p: "unat lo \<le> unat p" "unat p \<le> unat hi" by (simp_all add: word_le_nat_alt)
    let ?k = "of_nat (unat p - unat lo) :: u32"
    have k: "unat ?k = unat p - unat lo" using unat_u16_bound [of p] by (simp add: unat_of_nat_u32)
    then have "unat (ucast (?k + ucast lo) :: u16) = unat p" using port [of ?k] p by linarith
    then have "p = ucast (?k + ucast lo)" by (metis word_unat_eq_iff)
    moreover have "unat ?k < unat (hi - lo + 1)" using k m p by linarith
    ultimately show "p \<in> port_range (init_hash_table n lo hi)"
      by (auto simp: port_range_def init_hash_table_def)
  qed
qed

text \<open>
  \<^verbatim>\<open>init_hash_table\<close> with a positive number of entries gives a well-formed table without sessions, whose ports are
  those from the smallest to the largest one.
\<close>

theorem init_hash_table_empty:
  assumes "0 < n" and "n < 2 ^ 31" and "lo \<le> hi" and "unat hi - unat lo < 65535"
    and "\<And>a. nodes h a \<noteq> None \<Longrightarrow> a < brk h" and "\<And>s. sessions h s \<noteq> None \<Longrightarrow> s < brk h"
  shows "table_inv h (init_hash_table n lo hi) \<and> abs_table h (init_hash_table n lo hi) = Map.empty \<and>
    port_range (init_hash_table n lo hi) = {lo .. hi} \<and> mod_num (init_hash_table n lo hi) \<noteq> 0"
proof -
  let ?t = "init_hash_table n lo hi"
  have rep: "table_rep h ?t (replicate (nat n) []) (replicate (nat n) [])"
    by (rule init_hash_table_rep) (use assms in auto)
  then have inv: "table_inv h ?t" by (auto simp: table_inv_def)
  have "get_tcp_session_by_client h ?t ip port = Some None" for ip port
    unfolding no_session_iff [OF rep] by simp
  then have "abs_table h ?t = Map.empty" by (simp add: abs_table_def fun_eq_iff)
  moreover have "mod_num ?t \<noteq> 0" using port_range_init(1) [OF assms(3,4)] by (auto simp: init_hash_table_def)
  ultimately show ?thesis using inv port_range_init(2) [OF assms(3,4)] by blast
qed

theorem init_hash_table_empty_witness:
  "table_inv ex_heap (init_hash_table 4 5000 5003) \<and> abs_table ex_heap (init_hash_table 4 5000 5003) = Map.empty \<and>
    port_range (init_hash_table 4 5000 5003) = {5000 .. 5003} \<and> mod_num (init_hash_table 4 5000 5003) \<noteq> 0"
  by (rule init_hash_table_empty) (simp_all add: ex_heap_def)

text \<open>
  \<^verbatim>\<open>add_tcp_session\<close> keeps the table well-formed, whatever value its uninitialised counter starts with and
  whether it finds a port or not.
\<close>

theorem add_tcp_session_invariant:
  assumes "table_inv h t" and "add_tcp_session count h t ip port timeout = Some (r, h', t')"
  shows "table_inv h' t'"
  using assms by (rule add_inv)

theorem add_tcp_session_invariant_witness: "table_inv ex_h1 ex_t1"
  using add_tcp_session_invariant [OF ex_table_inv ex_add] .

lemma add_abs_table:
  assumes inv: "table_inv h t" and run: "add_tcp_session count h t ip port timeout = Some (r, h', t')"
  shows "abs_add (port_range t) (time_NULL h + timeout) (ip, port) (abs_table h t)
    (case r of Some s \<Rightarrow> sessions h' s | None \<Rightarrow> None) (abs_table h' t')"
proof -
  obtain cc sc where rep: "table_rep h t cc sc" using inv by (auto simp: table_inv_def)
  from rep run show ?thesis
  proof (cases rule: add_tcp_session_elim)
    case (existing s)
    then obtain x where "sessions h s = Some x" using table_client_sound [OF inv] by blast
    then show ?thesis using existing by (simp add: abs_add_def abs_table_def)
  next
    case (no_port n)
    then show ?thesis by (simp add: abs_add_def abs_table_def fun_eq_iff)
  next
    case (created p cc' sc')
    let ?x = "new_session ip port p (time_NULL h + timeout)"
    have none: "abs_table h t (ip, port) = None" using created(2) by (simp add: abs_table_def)
    have "p \<in> port_range t - server_port ` ran (abs_table h t)"
      using created(3,4) abs_table_server [OF inv] by blast
    moreover have "abs_table h' t' k = (if k = (ip, port) then Some ?x else abs_table h t k)" for k
    proof (cases "k = (ip, port)")
      case False
      then have "get_tcp_session_by_client h' t' (fst k) (snd k) = get_tcp_session_by_client h t (fst k) (snd k)"
        using add_lookups(1) [OF inv run, of "fst k" "snd k"] by auto
      moreover have "sessions h' s = sessions h s"
        if s: "get_tcp_session_by_client h t (fst k) (snd k) = Some (Some s)" for s
        using table_client_sound [OF inv s] add_lookups(2) [OF inv run, of s] by auto
      ultimately show ?thesis using False by (auto simp: abs_table_def split: option.splits)
    qed (use add_lookups(1) [OF inv run, of ip port] created(1,7) in \<open>simp add: abs_table_def\<close>)
    ultimately show ?thesis
      using created(1,7) none by (auto simp: abs_add_def fun_eq_iff)
  qed
qed

text \<open>
  C9. \<^verbatim>\<open>add_tcp_session\<close> implements the addition to the map: an end point that has a session gets that session and
  nothing changes; else either no session is returned and nothing changes, or exactly one entry is
  added, a fresh session on a port of the range that was free.
\<close>

theorem add_tcp_session_refines:
  assumes "table_inv h t" and "add_tcp_session count h t ip port timeout = Some (r, h', t')"
  shows "abs_add (port_range t) (time_NULL h + timeout) (ip, port) (abs_table h t)
    (case r of Some s \<Rightarrow> sessions h' s | None \<Rightarrow> None) (abs_table h' t')"
  using assms by (rule add_abs_table)

theorem add_tcp_session_refines_witness:
  "abs_add (port_range ex_table) 110 (0x0a000005, 40000) (abs_table ex_heap ex_table)
    (sessions ex_h1 0) (abs_table ex_h1 ex_t1)"
  using add_tcp_session_refines [OF ex_table_inv ex_add] by (simp add: ex_heap_def time_NULL_def)

text \<open>
  C24. The search for a port ends: with a port range that is not empty and a counter that does not start at the
  largest \<^verbatim>\<open>int\<close>, \<^verbatim>\<open>add_tcp_session\<close> returns.
\<close>

theorem add_tcp_session_returns:
  assumes "table_inv h t" and "mod_num t \<noteq> 0" and "count < 2 ^ 31 - 1"
  shows "\<exists>r h' t'. add_tcp_session count h t ip port timeout = Some (r, h', t')"
proof -
  obtain cc sc where "table_rep h t cc sc" using assms(1) by (auto simp: table_inv_def)
  then show ?thesis using add_tcp_session_total assms(2,3) by fastforce
qed

theorem add_tcp_session_returns_witness:
  "\<exists>r h' t'. add_tcp_session 0 ex_h1 ex_t1 7 7 10 = Some (r, h', t')"
proof -
  have "mod_num ex_t1 \<noteq> 0" by code_simp
  then show ?thesis using add_tcp_session_returns [OF ex_1_inv, of 0] by simp
qed

text \<open>
  C25. When the counter starts at zero and \<^verbatim>\<open>next_num\<close> does not wrap during the search, the search is
  complete: if any port of the range is free, the end point gets a session.
\<close>

theorem add_tcp_session_finds_free_port:
  assumes "table_inv h t" and "mod_num t \<noteq> 0" and "unat (next_num t) + unat (mod_num t) < 2 ^ 32"
    and "p \<in> port_range t" and "get_tcp_session_by_server h t p = Some None"
  shows "\<exists>s h' t'. add_tcp_session 0 h t ip port timeout = Some (Some s, h', t')"
proof -
  obtain cc sc where "table_rep h t cc sc" using assms(1) by (auto simp: table_inv_def)
  then show ?thesis using add_tcp_session_complete assms(2-5) by blast
qed

theorem add_tcp_session_finds_free_port_witness:
  "\<exists>s h' t'. add_tcp_session 0 ex_h1 ex_t1 7 7 10 = Some (Some s, h', t')"
proof -
  have "mod_num ex_t1 \<noteq> 0" "get_tcp_session_by_server ex_h1 ex_t1 5001 = Some None"
    "next_num ex_t1 = 1" "mod_num ex_t1 = 4" "min_port ex_t1 = 5000"
    by code_simp+
  moreover from this have "5001 \<in> port_range ex_t1"
    by (auto simp: port_range_def intro: exI [of _ 1])
  ultimately show ?thesis
    using add_tcp_session_finds_free_port [OF ex_1_inv, of 5001] by simp
qed

text \<open>
  C26. The counter of the search is not initialised. When it happens to start at the number of ports or
  above and the first candidate is taken, \<^verbatim>\<open>add_tcp_session\<close> reports that no port is available,
  however many are free.
\<close>

theorem add_tcp_session_uninitialised_count:
  assumes inv: "table_inv h t" and "mod_num t \<noteq> 0" and "uint (mod_num t) \<le> count" and "count < 2 ^ 31 - 1"
    and "get_tcp_session_by_client h t ip port = Some None"
    and "get_tcp_session_by_server h t (next_port t) = Some (Some s)"
  shows "add_tcp_session count h t ip port timeout = Some (None, h, t\<lparr>next_num := next_num t + 1\<rparr>)"
  using assms by (auto simp: table_inv_def add_tcp_session_cases find_port_unfold)

theorem add_tcp_session_uninitialised_count_witness:
  "add_tcp_session 4 ex_h1 (ex_t1\<lparr>next_num := 4\<rparr>) 7 7 10 = Some (None, ex_h1, ex_t1\<lparr>next_num := 5\<rparr>) \<and>
    get_tcp_session_by_server ex_h1 (ex_t1\<lparr>next_num := 4\<rparr>) 5001 = Some None"
proof -
  let ?t = "ex_t1\<lparr>next_num := 4\<rparr>"
  have "table_inv ex_h1 ?t" using ex_1_inv by (simp add: table_inv_def)
  moreover have "mod_num ?t \<noteq> 0" "uint (mod_num ?t) = 4" "get_tcp_session_by_client ex_h1 ?t 7 7 = Some None"
    "get_tcp_session_by_server ex_h1 ?t (next_port ?t) = Some (Some 0)"
    "get_tcp_session_by_server ex_h1 ?t 5001 = Some None"
    by code_simp+
  ultimately show ?thesis
    using add_tcp_session_uninitialised_count [of ex_h1 ?t 4 7 7 0 10] by simp
qed

section \<open>Cleaning and deletion\<close>

lemma dom_abs_table:
  assumes rep: "table_rep h t cc sc"
  shows "dom (abs_table h t) = (\<lambda>s. client_key (sess h s)) ` cell_sessions cc"
    and "card (dom (abs_table h t)) = card (cell_sessions cc)"
proof -
  have inv: "table_inv h t" using rep by (auto simp: table_inv_def)
  note parts = table_rep_parts [OF rep]
  obtain C where C: "cell_sessions cc = C" by blast
  have "k \<in> dom (abs_table h t) \<longleftrightarrow> k \<in> (\<lambda>s. client_key (sess h s)) ` C" for k
    using parts(9) unfolding domIff not_None_eq abs_table_iff [OF inv] get_by_client_iff [OF rep] prod.collapse C by fastforce
  then show d: "dom (abs_table h t) = (\<lambda>s. client_key (sess h s)) ` cell_sessions cc" unfolding C by blast
  show "card (dom (abs_table h t)) = card (cell_sessions cc)" unfolding d by (rule card_image [OF parts(11)])
qed

text \<open>
  C10. \<^verbatim>\<open>clean_expired_session\<close> returns, keeps the table well-formed and removes exactly the expired sessions from the map, provided no
  session ends while it runs: it reads the clock once per cell, twice per session, and no two of these readings
  lie on different sides of the end of a session. The clock may move otherwise. The session objects stay allocated: nothing points to
  the removed ones afterwards, so they leak.
\<close>

theorem clean_expired_session_refines:
  assumes inv: "table_inv h t"
    and steady: "\<And>k x j. abs_table h t k = Some x \<Longrightarrow> j < 2 * card (dom (abs_table h t)) \<Longrightarrow>
      (times h j \<le> expire x) = (time_NULL h \<le> expire x)"
  shows "\<exists>h' t'. clean_expired_session h t = Some (h', t') \<and> table_inv h' t' \<and>
    abs_table h' t' = abs_clean (time_NULL h) (abs_table h t) \<and> sessions h' = sessions h"
proof -
  obtain cc sc where rep: "table_rep h t cc sc" using inv by (auto simp: table_inv_def)
  let ?now = "time_NULL h"
  let ?P = "\<lambda>c. ?now \<le> expire (sess h (snd c))"
  let ?cc = "map (filter ?P) cc" and ?sc = "map (filter ?P) sc"
  have abs: "abs_table h t k = Some x \<longleftrightarrow> (\<exists>s. (s \<in> cell_sessions cc \<and> client_key (sess h s) = k) \<and> sessions h s = Some x)" for k x
    unfolding abs_table_iff [OF inv] get_by_client_iff [OF rep] prod.collapse ..
  have "(times h j \<le> expire (sess h s)) = (?now \<le> expire (sess h s))"
    if "s \<in> cell_sessions cc" "j < 2 * card (cell_sessions cc)" for s j
  proof (rule steady)
    have "sessions h s \<noteq> None" using table_rep_parts(9) [OF rep] that(1) by blast
    then show "abs_table h t (client_key (sess h s)) = Some (sess h s)" unfolding abs using that(1) by auto
    show "j < 2 * card (dom (abs_table h t))" using that(2) dom_abs_table(2) [OF rep] by simp
  qed
  from clean_expired_session_rep [OF rep this]
  obtain h' t' where run: "clean_expired_session h t = Some (h', t')" and rep': "table_rep h' t' ?cc ?sc"
    and cells: "cell_sessions ?cc = {s \<in> cell_sessions cc. ?now \<le> expire (sess h s)}" and same: "sessions h' = sessions h"
    by blast
  have inv': "table_inv h' t'" using rep' by (auto simp: table_inv_def)
  have "abs_table h' t' k = Some x \<longleftrightarrow> abs_clean ?now (abs_table h t) k = Some x" for k x
  proof -
    have "abs_table h' t' k = Some x \<longleftrightarrow>
        (\<exists>s. (s \<in> cell_sessions cc \<and> ?now \<le> expire (sess h s)) \<and> client_key (sess h s) = k \<and> sessions h s = Some x)"
      unfolding abs_table_iff [OF inv'] get_by_client_iff [OF rep'] cells same by auto
    also have "\<dots> \<longleftrightarrow> abs_table h t k = Some x \<and> ?now \<le> expire x"
      unfolding abs by (metis option.sel)
    finally show ?thesis by (auto simp: abs_clean_def split: option.splits)
  qed
  then have "abs_table h' t' = abs_clean ?now (abs_table h t)"
    by (intro ext option.expand) (metis not_None_eq option.sel)+
  then show ?thesis using run inv' same by blast
qed

lemma ex_abs_table: "abs_table (ex_h1\<lparr>times := f\<rparr>) ex_t1 = [(0x0a000005, 40000) \<mapsto> new_session 0x0a000005 40000 5000 110]"
proof -
  have "abs_table ex_heap ex_table = Map.empty"
    using init_hash_table_empty [of 4 5000 5003 ex_heap] unfolding ex_table_def by (simp add: ex_heap_def)
  then have "abs_table ex_h1 ex_t1 = [(0x0a000005, 40000) \<mapsto> new_session 0x0a000005 40000 5000 110]"
    using add_abs_table [OF ex_table_inv ex_add] ex_1_session(1) by (simp add: abs_add_def)
  moreover obtain cc sc where rep: "table_rep ex_h1 ex_t1 cc sc" using ex_1_inv by (auto simp: table_inv_def)
  moreover have "abs_table (ex_h1\<lparr>times := f\<rparr>) ex_t1 = abs_table ex_h1 ex_t1"
  proof -
    have inv: "table_inv (ex_h1\<lparr>times := f\<rparr>) ex_t1" "table_rep (ex_h1\<lparr>times := f\<rparr>) ex_t1 cc sc"
      using rep by (auto simp: table_inv_def)
    have "abs_table (ex_h1\<lparr>times := f\<rparr>) ex_t1 k = Some x \<longleftrightarrow> abs_table ex_h1 ex_t1 k = Some x" for k x
      unfolding abs_table_iff [OF inv(1)] abs_table_iff [OF ex_1_inv] get_by_client_iff [OF inv(2)] get_by_client_iff [OF rep]
      by simp
    then show ?thesis by (intro ext option.expand) (metis not_None_eq option.sel)+
  qed
  ultimately show ?thesis by simp
qed

lemma ex_1_inv_times: "table_inv (ex_h1\<lparr>times := f\<rparr>) ex_t1"
  using ex_1_inv by (simp add: table_inv_def)

theorem clean_expired_session_refines_witness:
  "\<exists>h' t'. clean_expired_session (ex_h1\<lparr>times := \<lambda>n. 111 + int n\<rparr>) ex_t1 = Some (h', t') \<and> table_inv h' t' \<and>
    abs_table h' t' (0x0a000005, 40000) = None \<and> sessions h' 0 \<noteq> None"
proof -
  let ?h = "ex_h1\<lparr>times := \<lambda>n. 111 + int n\<rparr>" and ?x = "new_session 0x0a000005 40000 5000 110"
  have e: "expire ?x = 110" by (simp add: new_session_def)
  have "(times ?h j \<le> expire x) = (time_NULL ?h \<le> expire x)" 
    if "abs_table ?h ex_t1 k = Some x" "j < 2 * card (dom (abs_table ?h ex_t1))" for k x j
  proof -
    have "x = ?x" using that(1) unfolding ex_abs_table by (simp split: if_splits)
    then show ?thesis by (simp add: e time_NULL_def)
  qed
  note steady = this
  have "\<exists>h' t'. clean_expired_session ?h ex_t1 = Some (h', t') \<and> table_inv h' t' \<and>
      abs_table h' t' = abs_clean (time_NULL ?h) (abs_table ?h ex_t1) \<and> sessions h' = sessions ?h"
    by (rule clean_expired_session_refines [OF ex_1_inv_times]) (rule steady)
  then obtain h' t' where c: "clean_expired_session ?h ex_t1 = Some (h', t')" "table_inv h' t'"
    "abs_table h' t' = abs_clean (time_NULL ?h) (abs_table ?h ex_t1)" "sessions h' = sessions ?h" by blast
  moreover have "abs_clean (time_NULL ?h) (abs_table ?h ex_t1) (0x0a000005, 40000) = None"
    unfolding ex_abs_table by (simp add: abs_clean_def e time_NULL_def)
  moreover have "sessions h' 0 \<noteq> None" using c(4) ex_1_session(1) by simp
  ultimately show ?thesis by metis
qed

text \<open>
  C35. The two arrays are cleaned at different times. When the one session of a table ends between the two readings of the clock,
  \<^verbatim>\<open>clean_expired_session\<close> unlinks it from one array only: exactly one of the two lookups still finds it, and the
  table is not well-formed any more.
\<close>

theorem clean_expired_session_race:
  assumes inv: "table_inv h t" and one: "abs_table h t = [(client_ip x, client_port x) \<mapsto> x]"
    and clock: "times h 0 \<le> expire x" "expire x < times h 1"
  shows "\<exists>h' t' s. clean_expired_session h t = Some (h', t') \<and> \<not> table_inv h' t' \<and> sessions h' s = Some x \<and>
    (get_tcp_session_by_client h' t' (client_ip x) (client_port x) = Some (Some s)) \<noteq>
    (get_tcp_session_by_server h' t' (server_port x) = Some (Some s))"
proof -
  obtain cc sc where rep: "table_rep h t cc sc" using inv by (auto simp: table_inv_def)
  obtain s where s: "get_tcp_session_by_client h t (client_ip x) (client_port x) = Some (Some s)" "sessions h s = Some x"
    using one abs_table_iff [OF inv, of "(client_ip x, client_port x)" x] by auto
  then have "s \<in> cell_sessions cc" using get_by_client_iff [OF rep] by blast
  moreover have "card (cell_sessions cc) = 1" using dom_abs_table(2) [OF rep] unfolding one by simp
  then obtain y where "cell_sessions cc = {y}" by (rule card_1_singletonE)
  ultimately have cells: "cell_sessions cc = {s}" by (metis singletonD)
  have x: "sess h s = x" using s(2) by simp
  obtain h' t' where run: "clean_expired_session h t = Some (h', t')" and same: "sessions h' = sessions h"
    and look: "(get_tcp_session_by_client h' t' (client_ip x) (client_port x) = Some (Some s)) \<noteq>
      (get_tcp_session_by_server h' t' (server_port x) = Some (Some s))"
    using clean_expired_session_split [OF rep cells] clock unfolding x by force
  have s': "sessions h' s = Some x" using s(2) same by simp
  have "\<not> table_inv h' t'"
  proof
    assume "table_inv h' t'"
    note agree = table_client_server [OF this] table_server_client [OF this]
    show False using look agree s' by blast
  qed
  then show ?thesis using run s' look by blast
qed

theorem clean_expired_session_race_witness:
  "\<exists>h' t'. clean_expired_session (ex_h1\<lparr>times := \<lambda>n. 110 + int n\<rparr>) ex_t1 = Some (h', t') \<and> \<not> table_inv h' t'"
proof -
  let ?h = "ex_h1\<lparr>times := \<lambda>n. 110 + int n\<rparr>" and ?x = "new_session 0x0a000005 40000 5000 110"
  have x: "client_ip ?x = 0x0a000005" "client_port ?x = 40000" "expire ?x = 110" by (simp_all add: new_session_def)
  have a: "abs_table ?h ex_t1 = [(client_ip ?x, client_port ?x) \<mapsto> ?x]" unfolding x by (rule ex_abs_table)
  have "times ?h 0 \<le> expire ?x" "expire ?x < times ?h 1" unfolding x by simp_all
  from clean_expired_session_race [OF ex_1_inv_times a this] show ?thesis by blast
qed

text \<open>
  C11. \<^verbatim>\<open>delete_hash_table\<close> frees the whole table without touching freed memory: it returns, frees
  exactly the cells of both arrays, exactly the sessions of the map (each once although both arrays
  point to it) and the two arrays themselves, and nothing else. Afterwards every lookup in the table, and a second
  deletion, is undefined.
\<close>

theorem delete_hash_table_frees_all:
  assumes "table_rep h t cc sc"
  shows "\<exists>h' t'. delete_hash_table h t = Some (h', t') \<and>
    (\<forall>a. nodes h' a = (if a \<in> cells (concat cc) \<or> a \<in> cells (concat sc) then None else nodes h a)) \<and>
    (\<forall>s. sessions h' s =
      (if \<exists>ip port. get_tcp_session_by_client h t ip port = Some (Some s) then None else sessions h s)) \<and>
    t' = t\<lparr>list_client_key := [], list_server_key := []\<rparr> \<and>
    get_tcp_session_by_client h' t' ip port = None \<and> get_tcp_session_by_server h' t' sport = None \<and>
    delete_hash_table h' t' = None"
proof -
  let ?t = "t\<lparr>list_client_key := [], list_server_key := []\<rparr>"
  have "(\<exists>ip port. get_tcp_session_by_client h t ip port = Some (Some s)) \<longleftrightarrow> s \<in> cell_sessions cc" for s
    unfolding get_by_client_iff [OF assms] by (auto simp: client_key_def)
  moreover have "arr [] i = None" for i by (simp add: arr_def)
  then have "get_tcp_session_by_client h' ?t ip port = None" "get_tcp_session_by_server h' ?t sport = None" for h'
    by (simp_all add: get_tcp_session_by_client_def get_tcp_session_by_server_def Option.bind_eq_None_conv)
  moreover have "delete_hash_table h' ?t = None" for h'
    using table_repD(1) [OF assms] by (simp add: delete_hash_table_def delete_table_from.simps arr_def)
  ultimately show ?thesis using delete_hash_table_rep [OF assms] by (simp del: set_concat)
qed

theorem delete_hash_table_frees_all_witness:
  "\<exists>h' t'. delete_hash_table ex_h1 ex_t1 = Some (h', t') \<and> sessions h' 0 = None \<and> list_client_key t' = [] \<and>
    delete_hash_table h' t' = None"
proof -
  obtain cc sc where rep: "table_rep ex_h1 ex_t1 cc sc" using ex_1_inv by (auto simp: table_inv_def)
  obtain h' t' where d: "delete_hash_table ex_h1 ex_t1 = Some (h', t')" "t' = ex_t1\<lparr>list_client_key := [], list_server_key := []\<rparr>"
    "delete_hash_table h' t' = None"
    "\<forall>s. sessions h' s =
      (if \<exists>ip port. get_tcp_session_by_client ex_h1 ex_t1 ip port = Some (Some s) then None else sessions ex_h1 s)"
    using delete_hash_table_frees_all [OF rep] by blast
  then have "sessions h' 0 = None" using ex_1_session(3) by auto
  then show ?thesis using d by simp
qed

end
