(* ===== verification/Handler_Properties.thy ===== *)
theory Handler_Properties
  imports Table_Properties
begin

text \<open>
  The properties of the packet handlers of \<^verbatim>\<open>src/src/lib/packet_handler.c\<close>: what is forwarded and how, that
  answers find their way back, what is reset, the state machine of a session, and what
  every run of the two handlers keeps.
\<close>

section \<open>Forwarding\<close>

text \<open>
  C7. A packet the client handler forwards: its source is the server's address and the port of the session of
  its end point, with valid checksums and all other bytes as they were; the session is live, it is found by
  the client end point and by that port, and the table is well-formed.
\<close>

theorem client_packet_forwarded:
  assumes "table_inv h t" and "tcp_packet b n ihl doff tot"
    and "handle_client_packet count h t b n vpn rst = Some (VALID_SESSION, rst', b', h', t')"
  shows "\<exists>s x. rst' = rst \<and> table_inv h' t' \<and> sessions h' s = Some x \<and>
    client_ip x = src_ip b \<and> client_port x = src_port b ihl \<and>
    get_tcp_session_by_client h' t' (src_ip b) (src_port b ihl) = Some (Some s) \<and>
    get_tcp_session_by_server h' t' (server_port x) = Some (Some s) \<and>
    length b' = length b \<and> ip_tcp_packet b' ihl doff tot \<and> ip_checksum_ok b' ihl \<and> tcp_checksum_ok b' ihl tot \<and>
    ld32 b' 12 = Some (htonl vpn) \<and> ld16 b' (4 * ihl) = Some (htons (server_port x)) \<and>
    (\<forall>i. i \<in> {10, 11} \<or> i \<in> {12 ..< 16} \<or> i \<in> {4 * ihl, 4 * ihl + 1} \<or> i \<in> {4 * ihl + 16, 4 * ihl + 17}
       \<or> b' ! i = b ! i)"
proof -
  obtain h1 s x where f: "rst' = rst" "table_inv h' t'" "sessions h1 s = Some x"
    "h' = put_session (tick h1) s (client_flags (the (read_segment b (4 * ihl))) x)"
    "get_tcp_session_by_client h' t' (src_ip b) (src_port b ihl) = Some (Some s)"
    "get_tcp_session_by_server h' t' (server_port x) = Some (Some s)"
    "client_ip x = src_ip b" "client_port x = src_port b ihl"
    "replace_src_ip_port b vpn (server_port x) = Some b'"
    using handle_client_valid [OF assms(1) tcp_packet_accepted [OF assms(2)] assms(3)] by metis
  let ?x = "client_flags (the (read_segment b (4 * ihl))) x"
  have x: "sessions h' s = Some ?x" by (simp add: f(4) put_session_def)
  have k: "same_keys ?x x" by (rule flags_keep)
  have "ip_tcp_packet b ihl doff tot" using assms(2) by (simp add: tcp_packet_def)
  from src.rep_correct [OF this, of vpn "server_port x"] show ?thesis
    using f x k by (intro exI [of _ s] exI [of _ ?x]) (simp add: same_keys_def)
qed

lemma ex_forward:
  obtains b' h' t' where "handle_client_packet 0 ex_heap ex_table ex_syn 40 0x01020304 0 = Some (VALID_SESSION, 0, b', h', t')"
proof -
  have "case handle_client_packet 0 ex_heap ex_table ex_syn 40 0x01020304 0 of
      Some (v, r, _) \<Rightarrow> v = VALID_SESSION \<and> r = 0 | None \<Rightarrow> False"
    by code_simp
  then show thesis using that by (auto split: option.splits)
qed

theorem client_packet_forwarded_witness:
  "\<exists>b' h' t'. handle_client_packet 0 ex_heap ex_table ex_syn 40 0x01020304 0 = Some (VALID_SESSION, 0, b', h', t') \<and>
    table_inv h' t' \<and> ld32 b' 12 = Some (htonl 0x01020304) \<and> tcp_checksum_ok b' 5 40"
proof -
  obtain b' h' t' where run: "handle_client_packet 0 ex_heap ex_table ex_syn 40 0x01020304 0
      = Some (VALID_SESSION, 0, b', h', t')" by (rule ex_forward)
  show ?thesis using client_packet_forwarded [OF ex_table_inv ex_syn_packet(1) run] run by blast
qed

text \<open>
  C8. A packet from the world for a port of the table is delivered while the session lives: the handler returns, its
  destination becomes the client's address and port, which are also reported, with valid checksums and all
  other bytes as they were.
\<close>

theorem world_packet_delivered:
  assumes "table_inv h t" and "tcp_packet b n ihl doff tot"
    and "get_tcp_session_by_server h t (dst_port b ihl) = Some (Some s)" and "sessions h s = Some x"
    and "time_NULL h \<le> expire x"
  shows "\<exists>b' h'. handle_world_packet h t b n rst cip = Some (client_ip x, VALID_SESSION, rst, b', h', t) \<and>
    table_inv h' t \<and> sessions h' = (sessions h)(s \<mapsto> world_flags (the (read_segment b (4 * ihl))) x) \<and>
    length b' = length b \<and> ip_tcp_packet b' ihl doff tot \<and> ip_checksum_ok b' ihl \<and> tcp_checksum_ok b' ihl tot \<and>
    ld32 b' 16 = Some (htonl (client_ip x)) \<and> ld16 b' (4 * ihl + 2) = Some (htons (client_port x)) \<and>
    (\<forall>i. i \<in> {10, 11} \<or> i \<in> {16 ..< 20} \<or> i \<in> {4 * ihl + 2, 4 * ihl + 3} \<or> i \<in> {4 * ihl + 16, 4 * ihl + 17}
       \<or> b' ! i = b ! i)"
proof -
  have ip: "ip_tcp_packet b ihl doff tot" using assms(2) by (simp add: tcp_packet_def)
  obtain b' where b': "replace_dst_ip_port b (client_ip x) (client_port x) = Some b'"
    and run: "handle_world_packet h t b n rst cip = Some (client_ip x, VALID_SESSION, rst, b',
        put_session (tick h) s (world_flags (the (read_segment b (4 * ihl))) x), t)"
    using handle_world_known [OF assms(2-5)] by blast
  show ?thesis
    using run b' touch_session(1,4) [OF assms(1,4) flags_keep(2)]
      dst.rep_correct [OF ip, of "client_ip x" "client_port x"]
    by (simp add: add.assoc add.commute [of 3])
qed

theorem world_packet_delivered_witness:
  "\<exists>b' h'. handle_world_packet ex_h1 ex_t1 ex_synack 40 0 0 = Some (0x0a000005, VALID_SESSION, 0, b', h', ex_t1) \<and>
    ld32 b' 16 = Some (htonl 0x0a000005) \<and> tcp_checksum_ok b' 5 40"
proof -
  have "dst_port ex_synack 5 = 5000" by code_simp
  moreover have "time_NULL ex_h1 \<le> 110" using ex_1_session(2) by simp
  ultimately show ?thesis
    using world_packet_delivered [OF ex_1_inv ex_synack_packet, of 0 _ 0 0] ex_1_session(1,4)
    by (auto simp: new_session_def)
qed

lemma htonl_ntohl: "htonl (ntohl v) = v" "htons (ntohs w) = w"
  using ntohl_htonl [of v] ntohs_htons [of w] by (simp_all only: htonl_eq_ntohl fun_eq_iff htons_def ntohs_def)

text \<open>
  C5. Address translation is transparent: when a client packet is forwarded, an answer addressed to the source port
  it left with is sent, while the session lives, to the address and port that the client packet came from,
  byte for byte.
\<close>

theorem nat_round_trip:
  assumes inv: "table_inv h t" and pkt: "tcp_packet b n ihl doff tot"
    and run: "handle_client_packet count h t b n vpn rst = Some (VALID_SESSION, rst', b', h', t')"
    and reply: "tcp_packet c m ihl' doff' tot'" "ld16 c (4 * ihl' + 2) = ld16 b' (4 * ihl)"
  shows "\<exists>s x. get_tcp_session_by_client h' t' (src_ip b) (src_port b ihl) = Some (Some s) \<and> sessions h' s = Some x \<and>
    (time_NULL h' \<le> expire x \<longrightarrow>
      (\<exists>c' h''. handle_world_packet h' t' c m rst2 cip = Some (src_ip b, VALID_SESSION, rst2, c', h'', t') \<and>
        ld32 c' 16 = ld32 b 12 \<and> ld16 c' (4 * ihl' + 2) = ld16 b (4 * ihl) \<and>
        ip_checksum_ok c' ihl' \<and> tcp_checksum_ok c' ihl' tot'))"
proof -
  obtain h1 s x where f: "table_inv h' t'"
    "h' = put_session (tick h1) s (client_flags (the (read_segment b (4 * ihl))) x)"
    "get_tcp_session_by_client h' t' (src_ip b) (src_port b ihl) = Some (Some s)"
    "get_tcp_session_by_server h' t' (server_port x) = Some (Some s)"
    "client_ip x = src_ip b" "client_port x = src_port b ihl"
    "replace_src_ip_port b vpn (server_port x) = Some b'"
    using handle_client_valid [OF inv tcp_packet_accepted [OF pkt] run] by metis
  let ?x = "client_flags (the (read_segment b (4 * ihl))) x"
  have x: "sessions h' s = Some ?x" "client_ip ?x = src_ip b" "client_port ?x = src_port b ihl"
    using f(5,6) flags_keep(1) [of "the (read_segment b (4 * ihl))" x] by (auto simp: f(2) put_session_def same_keys_def)
  have "ip_tcp_packet b ihl doff tot" using pkt by (simp add: tcp_packet_def)
  from src.rep_correct [OF this, of vpn "server_port x"] have "ld16 b' (4 * ihl) = Some (htons (server_port x))"
    using f(7) by auto
  then have dst: "get_tcp_session_by_server h' t' (dst_port c ihl') = Some (Some s)"
    using reply(2) f(4) by (simp add: dst_port_def)
  obtain sa so where src: "ld32 b 12 = Some sa" "ld16 b (4 * ihl) = Some so"
    using packet_reads [OF tcp_packet_accepted [OF pkt]] by metis
  have ip: "ip_tcp_packet c ihl' doff' tot'" using reply(1) by (simp add: tcp_packet_def)
  have "\<exists>c' h''. handle_world_packet h' t' c m rst2 cip = Some (src_ip b, VALID_SESSION, rst2, c', h'', t') \<and>
      ld32 c' 16 = ld32 b 12 \<and> ld16 c' (4 * ihl' + 2) = ld16 b (4 * ihl) \<and>
      ip_checksum_ok c' ihl' \<and> tcp_checksum_ok c' ihl' tot'" if "time_NULL h' \<le> expire ?x"
    using handle_world_known [OF reply(1) dst x(1) that, of rst2 cip]
      dst.rep_correct [OF ip, of "src_ip b" "src_port b ihl"] src
    by (auto simp: x src_ip_def src_port_def htonl_ntohl)
  then show ?thesis using f(3) x(1) by blast
qed

theorem nat_round_trip_witness:
  "\<exists>b' h' t'. handle_client_packet 0 ex_heap ex_table ex_syn 40 0x01020304 0 = Some (VALID_SESSION, 0, b', h', t') \<and>
    (\<exists>c' h''. handle_world_packet h' t' ex_synack 40 0 0 = Some (0x0a000005, VALID_SESSION, 0, c', h'', t') \<and>
      ld32 c' 16 = ld32 ex_syn 12 \<and> ld16 c' 22 = ld16 ex_syn 20)"
proof -
  have ok: "case handle_client_packet 0 ex_heap ex_table ex_syn 40 0x01020304 0 of
      Some (v, r, b', h', t') \<Rightarrow> v = VALID_SESSION \<and> r = 0 \<and> ld16 b' 20 = ld16 ex_synack 22 \<and> time_NULL h' = 100 \<and>
        (case sessions h' 0 of Some x \<Rightarrow> expire x = 110 | None \<Rightarrow> False) \<and>
        get_tcp_session_by_client h' t' 0x0a000005 40000 = Some (Some 0)
    | None \<Rightarrow> False"
    by code_simp
  obtain b' h' t' where run: "handle_client_packet 0 ex_heap ex_table ex_syn 40 0x01020304 0
      = Some (VALID_SESSION, 0, b', h', t')" by (rule ex_forward)
  have s: "src_ip ex_syn = 0x0a000005" "src_port ex_syn 5 = 40000" by code_simp+
  have "ld16 ex_synack (4 * 5 + 2) = ld16 b' (4 * 5)" using ok run by simp
  from nat_round_trip [OF ex_table_inv ex_syn_packet(1) run ex_synack_packet this, of 0 0]
  show ?thesis using ok run s by (auto split: option.splits)
qed

section \<open>Totality and resets\<close>

text \<open>
  C19. The client handler is memory safe on any bytes whatever: with a buffer of at least 120 bytes, of which the stated
  length is part, it returns, keeps the table well-formed with its port range, and writes inside the
  buffer, provided the port range is not empty and the uninitialised counter is not the largest \<^verbatim>\<open>int\<close>. The length fields
  of the packet may be inconsistent and its headers may overlap.
\<close>

theorem handle_client_packet_safe:
  assumes "table_inv h t" and "mod_num t \<noteq> 0" and "count < 2 ^ 31 - 1"
    and "0 \<le> n" and "n < 2 ^ 31" and "n \<le> int (length b)" and "120 \<le> length b"
  shows "\<exists>v r b' h' t'. handle_client_packet count h t b n vpn rst = Some (v, r, b', h', t') \<and> table_inv h' t' \<and>
    port_range t' = port_range t \<and> mod_num t' = mod_num t \<and> length b' = length b"
  using assms by (rule handle_client_any)

theorem handle_client_packet_safe_witness:
  "\<exists>v r b' h' t'. handle_client_packet 0 ex_heap ex_table (6 # replicate 119 6) 120 0x01020304 0 = Some (v, r, b', h', t') \<and>
    table_inv h' t' \<and> port_range t' = port_range ex_table \<and> mod_num t' = mod_num ex_table \<and>
    length b' = length (6 # replicate 119 6 :: buf)"
  by (rule handle_client_packet_safe [OF ex_table_inv]) (simp_all add: ex_table_def init_hash_table_def)

text \<open>
  C20. The world handler is memory safe on any bytes as well, and does not change the table, as long as the ports of the
  table lie above the stated length (in the server: ports from 40000, a buffer of 9000 bytes). Without that the port
  written into a packet with an IP header length of zero would become the length of the packet.
\<close>

theorem handle_world_packet_safe:
  assumes "table_inv h t" and "\<And>p. p \<in> port_range t \<Longrightarrow> n < int (unat p)"
    and "0 \<le> n" and "n < 2 ^ 31" and "n \<le> int (length b)" and "120 \<le> length b"
  shows "\<exists>c v r b' h'. handle_world_packet h t b n rst cip = Some (c, v, r, b', h', t) \<and> table_inv h' t \<and>
    length b' = length b"
  using assms by (rule handle_world_any)

lemma ex_port_range: "p \<in> port_range ex_table \<Longrightarrow> 5000 \<le> unat p"
proof -
  assume "p \<in> port_range ex_table"
  then have "(5000 :: u16) \<le> p" using port_range_init(2) [of 5000 5003 4] unfolding ex_table_def by simp
  then show ?thesis by (simp add: word_le_nat_alt)
qed

theorem handle_world_packet_safe_witness:
  "\<exists>c v r b' h'. handle_world_packet ex_heap ex_table (0 # replicate 119 6) 120 0 0 = Some (c, v, r, b', h', ex_table) \<and>
    table_inv h' ex_table \<and> length b' = length (0 # replicate 119 6 :: buf)"
proof (rule handle_world_packet_safe [OF ex_table_inv])
  show "120 < int (unat p)" if "p \<in> port_range ex_table" for p using ex_port_range [OF that] by linarith
qed simp_all

text \<open>
  C21. A client packet that is not a SYN and comes from an end point without a session never gets through: it becomes a
  reset of 40 bytes, and heap and table stay as they were.
\<close>

theorem unknown_client_packet_reset:
  assumes "table_inv h t" and "accepted b n ihl"
    and "get_tcp_session_by_client h t (src_ip b) (src_port b ihl) = Some None"
    and "\<not> syn (the (read_segment b (4 * ihl)))"
  shows "\<exists>b'. handle_client_packet count h t b n vpn rst = Some (INVALID_SESSION, 40, b', h, t) \<and>
    fillin_reset b = Some (40, b')"
proof -
  have "40 \<le> length b" using assms(2) by (simp add: accepted_def)
  from reset_packet_total [OF this, of h t] show ?thesis
    using handle_client_unknown [OF assms] by simp
qed

theorem unknown_client_packet_reset_witness:
  "\<exists>b'. handle_client_packet 0 ex_h1 ex_t1 (ex_syn[33 := 16, 20 := 0]) 40 0 0 = Some (INVALID_SESSION, 40, b', ex_h1, ex_t1)"
proof -
  let ?b = "ex_syn[33 := 16, 20 := 0]"
  have "tcp_packet ?b 40 5 5 40" "get_tcp_session_by_client ex_h1 ex_t1 (src_ip ?b) (src_port ?b 5) = Some None"
    "\<not> syn (the (read_segment ?b (4 * 5)))"
    by code_simp+
  from unknown_client_packet_reset [OF ex_1_inv tcp_packet_accepted [OF this(1)] this(2,3), of 0 0 0] show ?thesis by blast
qed

text \<open>A packet from the world to a port without a session becomes a reset of 40 bytes as well.\<close>

theorem unknown_port_packet_reset:
  assumes "table_inv h t" and "accepted b n ihl"
    and "get_tcp_session_by_server h t (dst_port b ihl) = Some None"
  shows "\<exists>b'. handle_world_packet h t b n rst cip = Some (cip, INVALID_SESSION, 40, b', h, t) \<and>
    fillin_reset b = Some (40, b')"
proof -
  have "40 \<le> length b" using assms(2) by (simp add: accepted_def)
  from reset_packet_total [OF this, of h t] show ?thesis
    using handle_world_unknown [OF assms(2,3)] by auto
qed

theorem unknown_port_packet_reset_witness:
  "\<exists>b'. handle_world_packet ex_h1 ex_t1 ex_syn 40 0 0 = Some (0, INVALID_SESSION, 40, b', ex_h1, ex_t1)"
proof -
  have "get_tcp_session_by_server ex_h1 ex_t1 (dst_port ex_syn 5) = Some None" by code_simp
  from unknown_port_packet_reset [OF ex_1_inv tcp_packet_accepted [OF ex_syn_packet(1)] this, of 0 0] show ?thesis by blast
qed

section \<open>The state machine of a session\<close>

text \<open>
  No packet moves a session backwards: each of the three states only grows, the end points, the
  server port and the expiry time stay.
\<close>

theorem session_step_monotone:
  assumes "session_step x y"
  shows "state_le x y \<and> same_keys y x \<and> expire y = expire x"
  using step_state_le [OF assms] step_keeps [OF assms] by blast

theorem session_step_monotone_witness:
  "state_le (new_session 1 2 3 4) (client_flags \<lparr>syn = True, ack = False, fin = False, seq = 5, ack_seq = 0\<rparr> (new_session 1 2 3 4))"
  using session_step_monotone [OF from_client] by blast

text \<open>
  C27. The three-way handshake: a SYN of the client with number \<open>i\<close>, the SYN-ACK of the server with number \<open>j\<close>
  acknowledging \<open>i + 1\<close>, and the ACK of the client of \<open>j + 1\<close> take a fresh session to the state 3, when neither number is
  the largest one.
\<close>

theorem handshake_completes:
  assumes "i \<noteq> 0xffffffff" and "j \<noteq> 0xffffffff"
  shows "syn_state (client_flags \<lparr>syn = False, ack = True, fin = False, seq = i + 1, ack_seq = j + 1\<rparr>
    (world_flags \<lparr>syn = True, ack = True, fin = False, seq = j, ack_seq = i + 1\<rparr>
      (client_flags \<lparr>syn = True, ack = False, fin = False, seq = i, ack_seq = 0\<rparr>
        (new_session ip port sport e)))) = 3"
  using less_Suc_u32 [OF assms(1)] less_Suc_u32 [OF assms(2)]
  by (simp add: flags_defs new_session_def zero_session_def)

theorem handshake_completes_witness:
  "syn_state (client_flags \<lparr>syn = False, ack = True, fin = False, seq = 1000 + 1, ack_seq = 2000 + 1\<rparr>
    (world_flags \<lparr>syn = True, ack = True, fin = False, seq = 2000, ack_seq = 1000 + 1\<rparr>
      (client_flags \<lparr>syn = True, ack = False, fin = False, seq = 1000, ack_seq = 0\<rparr>
        (new_session 1 2 3 4)))) = 3"
  by (rule handshake_completes) simp_all

text \<open>
  The segments of a connection in the order the server handles them, each with the side it comes from.
\<close>

definition exchange :: "(bool \<times> segment) list \<Rightarrow> tcp_session \<Rightarrow> tcp_session" where
  "exchange gs x = fold (\<lambda>(from_client, g). if from_client then client_flags g else world_flags g) gs x"

text \<open>The client repeats its SYN with the same number at most, and does not close; the other side sends what it likes.\<close>

definition client_opens :: "u32 \<Rightarrow> (bool \<times> segment) list \<Rightarrow> bool" where
  "client_opens i gs = list_all (\<lambda>(from_client, g). from_client \<longrightarrow> (syn g \<longrightarrow> seq g = i) \<and> \<not> fin g) gs"

lemma stuck_client: "syn_state x = 0 \<Longrightarrow> client_last_state_seq x = 0xffffffff \<Longrightarrow> (syn g \<longrightarrow> seq g = 0xffffffff) \<Longrightarrow> \<not> fin g \<Longrightarrow>
    syn_state (client_flags g x) = 0 \<and> client_last_state_seq (client_flags g x) = 0xffffffff"
  by (simp add: client_flags_def Let_def)

lemma stuck_world: "syn_state x = 0 \<Longrightarrow> client_last_state_seq x = 0xffffffff \<Longrightarrow>
    syn_state (world_flags g x) = 0 \<and> client_last_state_seq (world_flags g x) = 0xffffffff"
proof -
  have "\<not> (0xffffffff :: u32) < a" for a using unat_u32_bound [of a] by (simp add: word_less_nat_alt)
  then show "syn_state x = 0 \<Longrightarrow> client_last_state_seq x = 0xffffffff \<Longrightarrow> ?thesis"
    by (simp add: world_flags_def Let_def)
qed

lemma stuck_exchange:
  "client_opens 0xffffffff gs \<Longrightarrow> syn_state x = 0 \<Longrightarrow> client_last_state_seq x = 0xffffffff \<Longrightarrow> syn_state (exchange gs x) = 0"
proof (induction gs arbitrary: x)
  case (Cons g gs)
  obtain c p where g: "g = (c, p)" by fastforce
  have "syn_state (exchange [g] x) = 0 \<and> client_last_state_seq (exchange [g] x) = 0xffffffff"
    using Cons.prems stuck_client [of x p] stuck_world [of x p] by (cases c) (simp_all add: g exchange_def client_opens_def)
  moreover have "client_opens 0xffffffff gs" using Cons.prems(1) by (simp add: client_opens_def)
  ultimately have "syn_state (exchange gs (exchange [g] x)) = 0" using Cons.IH by blast
  then show ?case by (simp add: exchange_def)
qed (simp add: exchange_def)


text \<open>
  Closing: in an established session a FIN of each side that the other side acknowledges takes both
  closing states to 2.
\<close>

theorem close_completes:
  assumes "syn_state x = 3" "client_fin_state x = 0" "server_fin_state x = 0"
    and "i \<noteq> 0xffffffff" and "j \<noteq> 0xffffffff"
  shows "let y = client_flags \<lparr>syn = False, ack = True, fin = False, seq = i + 1, ack_seq = j + 1\<rparr>
      (world_flags \<lparr>syn = False, ack = True, fin = True, seq = j, ack_seq = i + 1\<rparr>
        (client_flags \<lparr>syn = False, ack = False, fin = True, seq = i, ack_seq = k\<rparr> x))
    in client_fin_state y = 2 \<and> server_fin_state y = 2 \<and> syn_state y = 3"
  using assms(1-3) less_Suc_u32 [OF assms(4)] less_Suc_u32 [OF assms(5)] by (simp add: flags_defs)

theorem close_completes_witness:
  "let y = client_flags \<lparr>syn = False, ack = True, fin = False, seq = 1000 + 1, ack_seq = 2000 + 1\<rparr>
      (world_flags \<lparr>syn = False, ack = True, fin = True, seq = 2000, ack_seq = 1000 + 1\<rparr>
        (client_flags \<lparr>syn = False, ack = False, fin = True, seq = 1000, ack_seq = 7\<rparr>
          ((new_session 1 2 3 4)\<lparr>syn_state := 3\<rparr>)))
    in client_fin_state y = 2 \<and> server_fin_state y = 2 \<and> syn_state y = 3"
  by (rule close_completes) (simp_all add: new_session_def zero_session_def)

section \<open>Every run of the handlers\<close>

text \<open>
  What the two handlers do to heap and table, whatever bytes the buffer holds and whatever length is
  stated.
\<close>

lemma handle_client_effect:
  assumes run: "handle_client_packet count h t b n vpn rst = Some (v, r, b', h', t')"
  shows "h' = h \<and> t' = t \<or> (\<exists>y ip port q h1. client_lookup count h t y ip port = Some (q, h1, t') \<and>
    (q = None \<and> h' = h1 \<or> (\<exists>s x g. q = Some s \<and> sessions h1 s = Some x \<and>
      (h' = tick h1 \<or> h' = put_session (tick h1) s (client_flags g x)))))"
proof -
  obtain w where w: "validate_ip_tcp b n = Some w"
    using run by (auto simp: handle_client_packet_def bind_eq_Some_conv)
  show ?thesis
  proof (cases w)
    case INVALID_IP_TCP
    then show ?thesis using run w by (auto simp: handle_client_packet_def dest: reset_packet_result)
  next
    case (VALID_IP_TCP i p)
    obtain g sa so where f: "read_segment b p = Some g" "ip_saddr b i = Some sa" "tcp_source b p = Some so"
      using run w VALID_IP_TCP by (auto simp: handle_client_packet_def bind_eq_Some_conv)
    obtain q h1 t1 where look: "client_lookup count h t (syn g) (ntohl sa) (ntohs so) = Some (q, h1, t1)"
      using run unfolding handle_client_packet_def w VALID_IP_TCP
      by (auto simp: f client_lookup_def bind_eq_Some_conv split: if_splits)
    have rest: "(case q of None \<Rightarrow> reset_packet b h1 t1 | Some s \<Rightarrow> do {
        (expired, h) \<leftarrow> session_expired h1 s;
        if expired then reset_packet b h t1
        else do { x \<leftarrow> sessions h s; let h = put_session h s (client_flags g x);
          b \<leftarrow> replace_src_ip_port b vpn (server_port x); Some (VALID_SESSION, rst, b, h, t1) } })
      = Some (v, r, b', h', t')"
      using run look unfolding handle_client_packet_def w VALID_IP_TCP client_lookup_def by (simp add: f)
    have "t' = t1 \<and> (q = None \<and> h' = h1 \<or> (\<exists>s x. q = Some s \<and> sessions h1 s = Some x \<and>
      (h' = tick h1 \<or> h' = put_session (tick h1) s (client_flags g x))))"
      using rest by (cases q)
        (auto simp: session_expired_def bind_eq_Some_conv tick_def Let_def dest: reset_packet_result split: if_splits)
    then show ?thesis using look by blast
  qed
qed

lemma handle_world_effect:
  assumes run: "handle_world_packet h t b n rst cip = Some (c, v, r, b', h', t')"
  shows "t' = t \<and> (h' = h \<or> (\<exists>p s x g. get_tcp_session_by_server h t p = Some (Some s) \<and> sessions h s = Some x \<and>
    (h' = tick h \<or> h' = put_session (tick h) s (world_flags g x))))"
proof -
  have reset: "t' = t2 \<and> h' = h2" if "map_option (Pair cip) (reset_packet b h2 t2) = Some (c, v, r, b', h', t')" for h2 t2
    using that reset_packet_result [of b h2 t2] by (auto simp del: map_option_eq_Some simp: map_option_eq_Some)
  obtain w where w: "validate_ip_tcp b n = Some w"
    using run by (auto simp: handle_world_packet_def bind_eq_Some_conv)
  show ?thesis
  proof (cases w)
    case INVALID_IP_TCP
    then show ?thesis using run w reset [of h t] by (auto simp: handle_world_packet_def)
  next
    case (VALID_IP_TCP i p)
    obtain g de q where f: "read_segment b p = Some g" "tcp_dest b p = Some de"
      "get_tcp_session_by_server h t (ntohs de) = Some q"
      using run w VALID_IP_TCP by (auto simp: handle_world_packet_def bind_eq_Some_conv)
    have rest: "(case q of None \<Rightarrow> map_option (Pair cip) (reset_packet b h t) | Some s \<Rightarrow> do {
        (expired, h) \<leftarrow> session_expired h s;
        if expired then map_option (Pair cip) (reset_packet b h t)
        else do { x \<leftarrow> sessions h s; let h = put_session h s (world_flags g x);
          b \<leftarrow> replace_dst_ip_port b (client_ip x) (client_port x);
          Some (client_ip x, VALID_SESSION, rst, b, h, t) } })
      = Some (c, v, r, b', h', t')"
      using run unfolding handle_world_packet_def w VALID_IP_TCP by (simp add: f)
    show ?thesis
    proof (cases q)
      case None
      then show ?thesis using rest reset [of h t] by auto
    next
      case (Some s)
      then obtain x where x: "sessions h s = Some x" using rest by (auto simp: session_expired_def bind_eq_Some_conv)
      show ?thesis
      proof (cases "expire x < time_NULL h")
        case True
        then show ?thesis using rest Some x f(3) reset [of "tick h" t] by (auto simp: session_expired_simp)
      next
        case False
        then show ?thesis
          using rest Some x f(3) by (auto simp: session_expired_simp bind_eq_Some_conv tick_def Let_def)
      qed
    qed
  qed
qed

text \<open>The map after a session was written.\<close>

lemma abs_touch:
  assumes "table_inv h t" and "sessions h s = Some y" and "same_keys x y"
  shows "abs_table (put_session (tick h) s x) t k =
    (if get_tcp_session_by_client h t (fst k) (snd k) = Some (Some s) then Some x else abs_table h t k)"
  by (simp add: abs_table_def touch_session [OF assms] split: option.splits)

lemma sessions_tick: "sessions (tick h) = sessions h"
  by (simp add: tick_def)

lemma abs_tick: "table_inv h t \<Longrightarrow> abs_table (tick h) t = abs_table h t"
  by (auto simp: table_inv_def abs_table_def lookup_tick fun_eq_iff sessions_tick split: option.splits)

definition sessions_reachable :: "heap \<Rightarrow> session_hash_table \<Rightarrow> bool" where
  "sessions_reachable h t \<longleftrightarrow> table_inv h t \<and> (\<forall>k x. abs_table h t k = Some x \<longrightarrow> session_reachable x)"

lemma sessions_reachable_tick: "sessions_reachable h t \<Longrightarrow> sessions_reachable (tick h) t"
  by (simp add: sessions_reachable_def abs_tick)

lemma sessions_reachable_touch:
  assumes r: "sessions_reachable h t" and s: "get_tcp_session_by_client h t ip port = Some (Some s)" "sessions h s = Some x"
    and step: "session_step x y"
  shows "sessions_reachable (put_session (tick h) s y) t"
proof -
  have inv: "table_inv h t" using r by (simp add: sessions_reachable_def)
  have "abs_table h t (ip, port) = Some x" using s by (simp add: abs_table_def)
  then have "session_reachable x" using r unfolding sessions_reachable_def by blast
  then have y: "session_reachable y" using step by (rule session_reachable.handled)
  have k: "same_keys y x" using step by (rule step_keeps)
  show ?thesis
    using r y touch_session(1) [OF inv s(2) k] abs_touch [OF inv s(2) k]
    unfolding sessions_reachable_def by (metis option.inject)
qed

lemma sessions_reachable_lookup:
  assumes r: "sessions_reachable h t" and look: "client_lookup count h t y ip port = Some (q, h1, t1)"
  shows "sessions_reachable h1 t1"
proof -
  have inv: "table_inv h t" using r by (simp add: sessions_reachable_def)
  show ?thesis
  proof (cases y)
    case True
    then have add: "add_tcp_session count h t ip port 10 = Some (q, h1, t1)"
      using look by (simp add: client_lookup_def)
    have "abs_table h t k = Some x \<or> (\<exists>p. x = new_session ip port p (time_NULL h + 10))"
      if "abs_table h1 t1 k = Some x" for k x
      using add_abs_table [OF inv add] that by (auto simp: abs_add_def split: option.splits if_splits)
    then show ?thesis
      using r add_inv [OF inv add] session_reachable.created unfolding sessions_reachable_def by metis
  next
    case False
    then show ?thesis using look r by (auto simp: client_lookup_def bind_eq_Some_conv)
  qed
qed

text \<open>
  The runs of the server: from an empty heap and a fresh table, any sequence of client and world packets with any
  contents, at any times, and of readings of the clock in between.
\<close>

inductive nat_run :: "int \<Rightarrow> u16 \<Rightarrow> u16 \<Rightarrow> heap \<Rightarrow> session_hash_table \<Rightarrow> bool" for m lo hi where
  start: "nodes h = Map.empty \<Longrightarrow> sessions h = Map.empty \<Longrightarrow> nat_run m lo hi h (init_hash_table m lo hi)"
| client: "nat_run m lo hi h t \<Longrightarrow>
    handle_client_packet count h t b n vpn rst = Some (v, r, b', h', t') \<Longrightarrow> nat_run m lo hi h' t'"
| world: "nat_run m lo hi h t \<Longrightarrow>
    handle_world_packet h t b n rst cip = Some (c, v, r, b', h', t') \<Longrightarrow> nat_run m lo hi h' t'"
| clock: "nat_run m lo hi h t \<Longrightarrow> nat_run m lo hi (tick h) t"

lemma nat_run_clock: "nat_run m lo hi h t \<Longrightarrow> nat_run m lo hi ((tick ^^ k) h) t"
  by (induction k) (auto intro: nat_run.clock)

lemma nat_run_reachable:
  assumes "nat_run m lo hi h t" and "0 < m" and "m < 2 ^ 31"
  shows "sessions_reachable h t"
  using assms(1)
proof (induction rule: nat_run.induct)
  case (start h)
  have rep: "table_rep h (init_hash_table m lo hi) (replicate (nat m) []) (replicate (nat m) [])"
    by (rule init_hash_table_rep) (use assms start in auto)
  have "get_tcp_session_by_client h (init_hash_table m lo hi) ip port = Some None" for ip port
    unfolding no_session_iff [OF rep] by simp
  then show ?case using rep by (auto simp: sessions_reachable_def table_inv_def abs_table_def)
next
  case (client h t count b n vpn rst v r b' h' t')
  from handle_client_effect [OF client.hyps(2)] show ?case
  proof (elim disjE exE conjE)
    fix y ip port q h1 s x g
    assume look: "client_lookup count h t y ip port = Some (q, h1, t')" and q: "q = Some s" "sessions h1 s = Some x"
    have r1: "sessions_reachable h1 t'" using sessions_reachable_lookup [OF client.IH look] .
    have "get_tcp_session_by_client h1 t' ip port = Some (Some s)"
      using client_lookup_inv(2) [OF _ look] client.IH q(1) by (simp add: sessions_reachable_def)
    note touch = sessions_reachable_touch [OF r1 this q(2) from_client]
    show "h' = tick h1 \<Longrightarrow> sessions_reachable h' t'" using sessions_reachable_tick [OF r1] by simp
    show "h' = put_session (tick h1) s (client_flags g x) \<Longrightarrow> sessions_reachable h' t'" using touch by simp
  qed (use client.IH sessions_reachable_lookup in auto)
next
  case (world h t b n rst cip c v r b' h' t')
  from handle_world_effect [OF world.hyps(2)] show ?case
  proof (elim conjE disjE exE)
    fix p s x g
    assume s: "get_tcp_session_by_server h t p = Some (Some s)" "sessions h s = Some x" and t: "t' = t"
    have "get_tcp_session_by_client h t (client_ip x) (client_port x) = Some (Some s)"
      using table_server_client s world.IH by (auto simp: sessions_reachable_def)
    note touch = sessions_reachable_touch [OF world.IH this s(2) from_world]
    show "h' = tick h \<Longrightarrow> sessions_reachable h' t'" using sessions_reachable_tick [OF world.IH] t by simp
    show "h' = put_session (tick h) s (world_flags g x) \<Longrightarrow> sessions_reachable h' t'" using touch t by simp
  qed (use world.IH in auto)
qed (rule sessions_reachable_tick)

text \<open>
  What happens between two moments of the server: any sequence of client and world packets with any contents, and of
  readings of the clock in between.
\<close>

inductive handled_run :: "heap \<Rightarrow> session_hash_table \<Rightarrow> heap \<Rightarrow> session_hash_table \<Rightarrow> bool" for h0 t0 where
  none: "handled_run h0 t0 h0 t0"
| client: "handled_run h0 t0 h t \<Longrightarrow>
    handle_client_packet count h t b n vpn rst = Some (v, r, b', h', t') \<Longrightarrow> handled_run h0 t0 h' t'"
| world: "handled_run h0 t0 h t \<Longrightarrow>
    handle_world_packet h t b n rst cip = Some (c, v, r, b', h', t') \<Longrightarrow> handled_run h0 t0 h' t'"
| clock: "handled_run h0 t0 h t \<Longrightarrow> handled_run h0 t0 (tick h) t"

text \<open>The session \<open>s\<close> stays with its end points and keeps its expiry time.\<close>

definition keeps_session :: "addr \<Rightarrow> tcp_session \<Rightarrow> heap \<Rightarrow> session_hash_table \<Rightarrow> bool" where
  "keeps_session s x h t \<longleftrightarrow> table_inv h t \<and>
     get_tcp_session_by_client h t (client_ip x) (client_port x) = Some (Some s) \<and>
     (\<exists>y. sessions h s = Some y \<and> same_keys y x \<and> expire y = expire x)"

lemma keeps_session_tick: "keeps_session s x h t \<Longrightarrow> keeps_session s x (tick h) t"
  by (auto simp: keeps_session_def table_inv_def lookup_tick sessions_tick)

lemma keeps_session_touch:
  assumes k: "keeps_session s x h t" and u: "sessions h u = Some y" and step: "session_step y z"
  shows "keeps_session s x (put_session (tick h) u z) t"
proof -
  have inv: "table_inv h t" using k by (simp add: keeps_session_def)
  note z = step_keeps [OF step]
  show ?thesis
    using k u z touch_session [OF inv u z(1)] by (auto simp: keeps_session_def same_keys_def)
qed

lemma keeps_session_lookup:
  assumes k: "keeps_session s x h t" and look: "client_lookup count h t y ip port = Some (q, h', t')"
  shows "keeps_session s x h' t'"
proof (cases y)
  case True
  then have add: "add_tcp_session count h t ip port 10 = Some (q, h', t')" using look by (simp add: client_lookup_def)
  have inv: "table_inv h t" using k by (simp add: keeps_session_def)
  show ?thesis
  proof (cases "(client_ip x, client_port x) = (ip, port)")
    case False
    then show ?thesis using k add_inv [OF inv add] add_lookups [OF inv add] by (auto simp: keeps_session_def)
  next
    case True
    then have "add_tcp_session count h t ip port 10 = Some (Some s, h, t)"
      using k inv by (auto simp: keeps_session_def table_inv_def add_tcp_session_cases)
    then show ?thesis using k add by simp
  qed
qed (use look k in \<open>auto simp: client_lookup_def bind_eq_Some_conv\<close>)

lemma handled_run_keeps: "handled_run h t h' t' \<Longrightarrow> keeps_session s x h t \<Longrightarrow> keeps_session s x h' t'"
proof (induction rule: handled_run.induct)
  case (client h t count b n vpn rst v r b' h' t')
  have k: "keeps_session s x h t" by (rule client.IH [OF client.prems])
  from handle_client_effect [OF client.hyps(2)] show ?case
  proof (elim disjE exE conjE)
    fix y ip port q h1 u z g
    assume look: "client_lookup count h t y ip port = Some (q, h1, t')" and u: "sessions h1 u = Some z"
    note k1 = keeps_session_lookup [OF k look]
    show "h' = tick h1 \<Longrightarrow> keeps_session s x h' t'" using keeps_session_tick [OF k1] by simp
    show "h' = put_session (tick h1) u (client_flags g z) \<Longrightarrow> keeps_session s x h' t'"
      using keeps_session_touch [OF k1 u from_client] by simp
  qed (use k keeps_session_lookup in auto)
next
  case (world h t b n rst cip c v r b' h' t')
  have k: "keeps_session s x h t" by (rule world.IH [OF world.prems])
  from handle_world_effect [OF world.hyps(2)] show ?case
  proof (elim conjE disjE exE)
    fix p u z g assume u: "sessions h u = Some z" and t: "t' = t"
    show "h' = tick h \<Longrightarrow> keeps_session s x h' t'" using keeps_session_tick [OF k] t by simp
    show "h' = put_session (tick h) u (world_flags g z) \<Longrightarrow> keeps_session s x h' t'"
      using keeps_session_touch [OF k u from_world] t by simp
  qed (use k in auto)
qed (auto intro: keeps_session_tick)

text \<open>
  C22. Sessions die and stay dead. Take a session of the table and any run of the server after that, of packets of both sides
  with any contents. The end point still has that session, on the same port and with the same expiry time, for no handler ever
  moves that time, removes a session or replaces it. So at every later moment at which the clock is past the expiry time, every packet of the
  end point, a SYN included, becomes a reset, and so does every packet from the world for its port; the state machine does not move.
\<close>

theorem expired_session_resets_client:
  assumes "table_inv h t" and "get_tcp_session_by_client h t (client_ip x) (client_port x) = Some (Some s)"
    and "sessions h s = Some x" and "handled_run h t h' t'" and "expire x < time_NULL h'"
    and "accepted b n ihl" and "src_ip b = client_ip x" and "src_port b ihl = client_port x"
    and "accepted c m ihl'" and "dst_port c ihl' = server_port x"
  shows "(\<exists>y. sessions h' s = Some y \<and> expire y = expire x \<and> server_port y = server_port x) \<and>
    get_tcp_session_by_client h' t' (client_ip x) (client_port x) = Some (Some s) \<and>
    (\<exists>b'. handle_client_packet count h' t' b n vpn rst = Some (INVALID_SESSION, 40, b', tick h', t') \<and>
      fillin_reset b = Some (40, b')) \<and>
    (\<exists>c'. handle_world_packet h' t' c m rst cip = Some (cip, INVALID_SESSION, 40, c', tick h', t') \<and>
      fillin_reset c = Some (40, c'))"
proof -
  have "keeps_session s x h t" using assms(1-3) by (simp add: keeps_session_def same_keys_def)
  with assms(4) have "keeps_session s x h' t'" by (rule handled_run_keeps)
  then obtain y where k: "table_inv h' t'" "get_tcp_session_by_client h' t' (client_ip x) (client_port x) = Some (Some s)"
    and y: "sessions h' s = Some y" "same_keys y x" "expire y = expire x"
    by (auto simp: keeps_session_def)
  have len: "40 \<le> length b" "40 \<le> length c" using assms(6,9) by (simp_all add: accepted_def)
  have old: "expire y < time_NULL h'" using assms(5) y(3) by simp
  have port: "server_port y = server_port x" using y(2) by (simp add: same_keys_def)
  have client: "handle_client_packet count h' t' b n vpn rst = reset_packet b (tick h') t'"
    by (rule handle_client_expired [OF k(1) assms(6) _ y(1) old]) (use k(2) assms(7,8) in simp)
  have "get_tcp_session_by_server h' t' (server_port y) = Some (Some s)" by (rule table_client_server [OF k(1,2) y(1)])
  then have world: "handle_world_packet h' t' c m rst cip = map_option (Pair cip) (reset_packet c (tick h') t')"
    by (intro handle_world_session(2) [OF assms(9) _ y(1) old]) (simp add: port assms(10))
  show ?thesis
    using reset_packet_total [OF len(1), of "tick h'" t'] reset_packet_total [OF len(2), of "tick h'" t'] k(2) y(1,3) port client world
    by auto
qed

text \<open>
  The session of the examples, at time 100 with the end 110: a SYN-ACK goes through; once the clock shows 111 the SYN of the client and
  the SYN-ACK become resets.
\<close>

theorem expired_session_resets_client_witness:
  "\<exists>b' h' t' b'' c''. handle_world_packet (ex_h1\<lparr>times := \<lambda>n. if n = 0 then 100 else 111\<rparr>) ex_t1 ex_synack 40 0 0
      = Some (0x0a000005, VALID_SESSION, 0, b', h', t') \<and>
    handle_client_packet 0 h' t' ex_syn 40 0 0 = Some (INVALID_SESSION, 40, b'', tick h', t') \<and>
    handle_world_packet h' t' ex_synack 40 0 0 = Some (0, INVALID_SESSION, 40, c'', tick h', t')"
proof -
  let ?h = "ex_h1\<lparr>times := \<lambda>n. if n = 0 then 100 else 111\<rparr>" and ?x = "new_session 0x0a000005 40000 5000 110"
  have x: "client_ip ?x = 0x0a000005" "client_port ?x = 40000" "server_port ?x = 5000" "expire ?x = 110"
    by (simp_all add: new_session_def)
  have c: "get_tcp_session_by_client ?h ex_t1 (client_ip ?x) (client_port ?x) = Some (Some 0)"
    "get_tcp_session_by_server ?h ex_t1 5000 = Some (Some 0)" unfolding x by code_simp+
  have s: "sessions ?h 0 = Some ?x" using ex_1_session(1) by simp
  have p: "src_ip ex_syn = client_ip ?x" "src_port ex_syn 5 = client_port ?x" "dst_port ex_synack 5 = server_port ?x"
    unfolding x by code_simp+
  have live: "time_NULL ?h \<le> expire ?x" unfolding x by (simp add: time_NULL_def)
  have "get_tcp_session_by_server ?h ex_t1 (dst_port ex_synack 5) = Some (Some 0)" using c(2) p(3) x(3) by simp
  from handle_world_known [OF ex_synack_packet this s live, of 0 0] obtain b' where
    run: "handle_world_packet ?h ex_t1 ex_synack 40 0 0 = Some (0x0a000005, VALID_SESSION, 0, b',
      put_session (tick ?h) 0 (world_flags (the (read_segment ex_synack (4 * 5))) ?x), ex_t1)"
    unfolding x by blast
  let ?h' = "put_session (tick ?h) 0 (world_flags (the (read_segment ex_synack (4 * 5))) ?x)"
  have late: "expire ?x < time_NULL ?h'" unfolding x by (simp add: time_NULL_def put_session_def tick_def)
  note r = handled_run.world [OF handled_run.none run]
  show ?thesis
    using expired_session_resets_client [OF ex_1_inv_times c(1) s r late tcp_packet_accepted [OF ex_syn_packet(1)] p(1,2)
      tcp_packet_accepted [OF ex_synack_packet] p(3), of 0 0 0 0] run by blast
qed

text \<open>
  C6. The invariant of the server: after any sequence of packets from both sides, of any contents, the table is
  well-formed, every session in it is in a documented state, and no two sessions share a port.
\<close>

theorem nat_run_invariant:
  assumes "nat_run m lo hi h t" and "0 < m" and "m < 2 ^ 31"
  shows "table_inv h t \<and> inj_on (\<lambda>k. server_port (the (abs_table h t k))) (dom (abs_table h t)) \<and>
    (\<forall>k x. abs_table h t k = Some x \<longrightarrow>
      (client_ip x, client_port x) = k \<and> session_reachable x \<and> session_state_ok x)"
proof -
  have r: "sessions_reachable h t" using nat_run_reachable [OF assms] .
  then have inv: "table_inv h t" by (simp add: sessions_reachable_def)
  have "(client_ip x, client_port x) = k \<and> session_reachable x" if "abs_table h t k = Some x" for k x
  proof
    show "(client_ip x, client_port x) = k"
      using that table_client_sound [OF inv, of "fst k" "snd k"] by (auto simp: abs_table_iff [OF inv])
    show "session_reachable x" using that r unfolding sessions_reachable_def by blast
  qed
  moreover have "inj_on (\<lambda>k. server_port (the (abs_table h t k))) (dom (abs_table h t))"
  proof (rule inj_onI)
    fix k k' assume d: "k \<in> dom (abs_table h t)" "k' \<in> dom (abs_table h t)"
      and eq: "server_port (the (abs_table h t k)) = server_port (the (abs_table h t k'))"
    obtain x x' where x: "abs_table h t k = Some x" "abs_table h t k' = Some x'" using d by blast
    have "server_port x = server_port x'" using eq unfolding x option.sel .
    then show "k = k'" by (rule abs_ports_unique [OF inv x])
  qed
  ultimately show ?thesis using inv reachable_state_ok by blast
qed

theorem nat_run_invariant_witness:
  "\<exists>b' h' t'. handle_client_packet 0 ex_heap ex_table ex_syn 40 0x01020304 0 = Some (VALID_SESSION, 0, b', h', t') \<and>
    table_inv h' t' \<and> inj_on (\<lambda>k. server_port (the (abs_table h' t' k))) (dom (abs_table h' t'))"
proof -
  obtain b' h' t' where run: "handle_client_packet 0 ex_heap ex_table ex_syn 40 0x01020304 0
      = Some (VALID_SESSION, 0, b', h', t')" by (rule ex_forward)
  have "nat_run 4 5000 5003 ex_heap ex_table"
    unfolding ex_table_def by (rule nat_run.start) (simp_all add: ex_heap_def)
  then have "nat_run 4 5000 5003 h' t'" using run by (rule nat_run.client)
  from nat_run_invariant [OF this] show ?thesis using run by simp
qed

end
