(* ===== verification/Server_Properties.thy ===== *)
theory Server_Properties
  imports Vpn_Server Handler_Properties
begin

text \<open>
  The properties of the server program: it is memory safe whatever packets arrive, its table
  and sessions keep the invariants of the handlers, and what it sends is what the handlers made of what it received.
\<close>

declare add_2_eq_Suc [simp del] add_2_eq_Suc' [simp del]

section \<open>Safety of the loop\<close>

text \<open>What a half of an iteration keeps, when the program goes on.\<close>

definition goes_on :: "server_state \<Rightarrow> os + server_state \<Rightarrow> bool" where
  "goes_on st v \<longleftrightarrow> (\<forall>st'. v = Inr st' \<longrightarrow> server_ok st' \<and> kernel_ok (sys_os st') \<and>
     (\<forall>m lo hi. nat_run m lo hi (hp st) (table (srv st)) \<longrightarrow> nat_run m lo hi (hp st') (table (srv st'))))"

lemma goes_on_trans: "goes_on st (Inr st') \<Longrightarrow> goes_on st' v \<Longrightarrow> goes_on st v"
  by (simp add: goes_on_def)

lemma goes_on_Inl [simp]: "goes_on st (Inl w)"
  by (simp add: goes_on_def)

lemma table_inv_ticks [simp]: "table_inv ((tick ^^ k) h) t = table_inv h t"
  by (induction k) simp_all

lemma client_half_safe:
  assumes ok: "server_ok st" "kernel_ok (sys_os st)" and count: "count < 2 ^ 31 - 1"
  shows "\<exists>v. client_half count st = Some v \<and> goes_on st v"
proof (cases "0 < received_length (replies (sys_os st) 0)")
  case False
  have "kernel_ok (after (udp_recv st) (sys_os st))" using ok(2) ran_after by (rule kernel_ok_ran)
  then show ?thesis
    using client_half_silent [OF ok(1), of count] False ok(1) by (simp add: goes_on_def server_ok_def)
next
  case True
  let ?n = "received_length (replies (sys_os st) 0)" and ?b = "buf (heard st)"
  have s: "table_inv (hp st) (table (srv st))" "mod_num (table (srv st)) \<noteq> 0" "length ?b = 9000"
    using ok(1) by (simp_all add: server_ok_def)
  have "?n = ret (replies (sys_os st) 0)" using True by (simp add: received_length_def split: if_splits)
  then have le: "?n \<le> MAX_BUF" using ok(2) by (simp add: kernel_ok_def)
  obtain v rst b h t where run: "handle_client_packet count (hp st) (table (srv st)) ?b MAX_BUF (local_ip (srv st))
      (reset_packet_size st) = Some (v, rst, b, h, t)" "table_inv h t" "port_range t = port_range (table (srv st))"
      "mod_num t = mod_num (table (srv st))" "length b = 9000"
    using handle_client_any [OF s(1,2) count, of MAX_BUF ?b "local_ip (srv st)" "reset_packet_size st"] s(3) by auto
  show ?thesis
  proof (cases v)
    case VALID_SESSION
    let ?l = "ll (srv st)\<lparr>sll_hatype := 0, sll_pkttype := 0\<rparr>"
    obtain w k where w: "client_half count st = Some (if ret (replies (sys_os st) 1) < 0 then Inl w
        else Inr \<lparr>srv = heard st\<lparr>buf := b, table := t, ll := ?l\<rparr>, sys_os = w, hp = (tick ^^ k) h, reset_packet_size = rst\<rparr>)"
      "ran [udp_recv st, Sendto_ll (rawfd (srv st)) (take (nat (ret (replies (sys_os st) 0))) b) 0 ?l] (sys_os st) w"
      using client_half_forwarded [OF ok True run(1) [unfolded VALID_SESSION] run(5,2)] by blast
    have "nat_run m lo hi ((tick ^^ k) h) t" if "nat_run m lo hi (hp st) (table (srv st))" for m lo hi
      using nat_run_clock nat_run.client [OF that run(1)] .
    then show ?thesis
      using w(1) run ok(1) kernel_ok_ran [OF ok(2) w(2)] by (simp add: goes_on_def server_ok_def)
  next
    case INVALID_SESSION
    obtain w where w: "client_half count st = Some (Inr \<lparr>srv = heard st\<lparr>buf := b, table := t\<rparr>, sys_os = w, hp = h,
        reset_packet_size = rst\<rparr>)" "ran [udp_recv st] (sys_os st) w"
      using client_half_rejected [OF ok(1) True le run(1) [unfolded INVALID_SESSION] run(5)] by blast
    then show ?thesis
      using run ok(1) kernel_ok_ran [OF ok(2) w(2)] nat_run.client [OF _ run(1)] by (simp add: goes_on_def server_ok_def)
  qed
qed

lemma world_half_safe:
  assumes ok: "server_ok st" "kernel_ok (sys_os st)"
  shows "\<exists>v. world_half st = Some v \<and> goes_on st v"
proof (cases "0 < received_length (raw_reply st)")
  case False
  then obtain b w where w: "length b = 9000" "ran (replicate (Suc (skips (sys_os st))) (raw_recv st)) (sys_os st) w"
    "world_half st = Some (if received_length (raw_reply st) = 0
      then Inr (st\<lparr>srv := srv st\<lparr>buf := b\<rparr>, sys_os := after (Sleep 1) w\<rparr>) else Inl (perror ''raw read'' w))"
    using world_half_silent [OF ok] by force
  have "kernel_ok (after (Sleep 1) w)"
    using kernel_ok_ran [OF kernel_ok_ran [OF ok(2) w(2)] ran_after] .
  then show ?thesis
    using w(1,3) ok(1) by (simp add: goes_on_def server_ok_def)
next
  case True
  obtain b0 c0 where p: "length c0 = 9000" "b0 = received (raw_reply st) c0" "length b0 = 9000"
    and invalid: "\<And>cip rst b h t. handle_world_packet (hp st) (table (srv st)) b0 MAX_BUF (reset_packet_size st) (last_client_ip (srv st))
        = Some (cip, INVALID_SESSION, rst, b, h, t) \<Longrightarrow> length b = 9000 \<Longrightarrow>
      \<exists>w. ran (replicate (Suc (skips (sys_os st))) (raw_recv st)) (sys_os st) w \<and>
        world_half st = Some (Inr \<lparr>srv = srv st\<lparr>buf := b, table := t, last_client_ip := cip\<rparr>, sys_os = w, hp = h,
          reset_packet_size = rst\<rparr>)"
    and valid: "\<And>cip rst b h t. handle_world_packet (hp st) (table (srv st)) b0 MAX_BUF (reset_packet_size st) (last_client_ip (srv st))
        = Some (cip, VALID_SESSION, rst, b, h, t) \<Longrightarrow> length b = 9000 \<Longrightarrow>
      \<exists>w. ran (replicate (Suc (skips (sys_os st))) (raw_recv st) @
          [Sendto_in (udpfd (srv st)) (take (nat (ret (raw_reply st))) b) MSG_CONFIRM (Some (raddr (srv st)))]) (sys_os st) w \<and>
        world_half st = Some (if ret (replies (sys_os st) (Suc (skips (sys_os st)))) < 0 then Inl w
          else Inr \<lparr>srv = srv st\<lparr>buf := b, table := t, last_client_ip := cip\<rparr>, sys_os = w, hp = h,
            reset_packet_size = rst\<rparr>)"
    using world_half_packet [OF ok True] by metis
  have s: "table_inv (hp st) (table (srv st))" using ok(1) by (simp add: server_ok_def)
  have ports: "MAX_BUF < int (unat p)" if "p \<in> port_range (table (srv st))" for p
  proof -
    have "(40000 :: u16) \<le> p" using that ok(1) by (simp add: server_ok_def)
    then have "40000 \<le> unat p" by (simp add: word_le_nat_alt)
    then show ?thesis by linarith
  qed
  obtain cip v rst b h where run: "handle_world_packet (hp st) (table (srv st)) b0 MAX_BUF (reset_packet_size st)
      (last_client_ip (srv st)) = Some (cip, v, rst, b, h, table (srv st))" "table_inv h (table (srv st))" "length b = 9000"
    using handle_world_any [OF s ports, of b0 "reset_packet_size st" "last_client_ip (srv st)"] p(3) by auto
  obtain cs w where w: "ran cs (sys_os st) w" "world_half st = Some (if v = VALID_SESSION \<and>
      ret (replies (sys_os st) (Suc (skips (sys_os st)))) < 0 then Inl w
      else Inr \<lparr>srv = srv st\<lparr>buf := b, table := table (srv st), last_client_ip := cip\<rparr>, sys_os = w, hp = h,
        reset_packet_size = rst\<rparr>)"
  proof (cases v)
    case VALID_SESSION
    then show thesis using valid [OF run(1) [unfolded VALID_SESSION] run(3)] that by auto
  next
    case INVALID_SESSION
    then show thesis using invalid [OF run(1) [unfolded INVALID_SESSION] run(3)] that by auto
  qed
  then show ?thesis
    using run ok(1) kernel_ok_ran [OF ok(2) w(1)] nat_run.world [OF _ run(1)] by (simp add: goes_on_def server_ok_def)
qed

lemma server_step_safe:
  assumes "server_ok st" "kernel_ok (sys_os st)" "count < 2 ^ 31 - 1"
  shows "\<exists>v. server_step count st = Some v \<and> goes_on st v"
proof -
  obtain v where v: "client_half count st = Some v" "goes_on st v" using client_half_safe [OF assms] by blast
  show ?thesis
  proof (cases v)
    case (Inr st')
    have "server_ok st'" "kernel_ok (sys_os st')" using v(2) Inr by (auto simp: goes_on_def)
    from world_half_safe [OF this] show ?thesis
      using v goes_on_trans unfolding server_step_def Inr by fastforce
  qed (use v in \<open>simp add: server_step_def\<close>)
qed

lemma server_loop_safe:
  assumes "server_ok st" "kernel_ok (sys_os st)" "\<And>j. counts j < 2 ^ 31 - 1"
  shows "\<exists>v. server_loop counts k st = Some v \<and> goes_on st v"
  using assms
proof (induction k arbitrary: st counts)
  case 0
  then show ?case by (simp add: goes_on_def)
next
  case (Suc k)
  obtain v where v: "server_step (counts 0) st = Some v" "goes_on st v"
    using server_step_safe [OF Suc.prems] by blast
  show ?case
  proof (cases v)
    case (Inr st')
    have ok: "server_ok st'" "kernel_ok (sys_os st')" using v(2) Inr by (auto simp: goes_on_def)
    show ?thesis
      using Suc.IH [OF ok, of "\<lambda>n. counts (Suc n)"] Suc.prems(3) v goes_on_trans unfolding Inr by fastforce
  qed (use v in simp)
qed

section \<open>A running server\<close>

text \<open>The data of the witnesses: the server after one client got a session, and the replies of the kernel to come.\<close>

definition ex_sin :: sockaddr_in where
  "ex_sin = \<lparr>sin_family = AF_INET, sin_port = 5555, sin_addr = 0x0100007f\<rparr>"

definition ex_ll :: sockaddr_ll where
  "ex_ll = \<lparr>sll_family = AF_PACKET, sll_protocol = 8, sll_ifindex = 2, sll_hatype = 1, sll_pkttype = 0, sll_halen = 6,
     sll_addr = replicate 8 1\<rparr>"

definition srv_reply :: "int \<Rightarrow> int \<Rightarrow> u8 list \<Rightarrow> reply" where
  "srv_reply n e bs = \<lparr>ret = n, err = e, bytes = bs, from_in = ex_sin, from_ll = ex_ll, if_flags = 0, handle_fd = 9\<rparr>"

definition srv_os :: "reply list \<Rightarrow> os" where
  "srv_os rs = \<lparr>replies = (\<lambda>j. if j < length rs then rs ! j else srv_reply (-1) EAGAIN []), calls = [], out = [], errno = 0,
     fds = {}, fresh_fds = True\<rparr>"

definition ex_srv_table :: session_hash_table where
  "ex_srv_table = (case add_tcp_session 0 ex_heap (init_hash_table 200 40000 41000) 0x0a000005 40000 10 of
     Some (_, _, t) \<Rightarrow> t | None \<Rightarrow> ex_table)"

definition ex_srv_heap :: heap where
  "ex_srv_heap = (case add_tcp_session 0 ex_heap (init_hash_table 200 40000 41000) 0x0a000005 40000 10 of
     Some (_, h, _) \<Rightarrow> h | None \<Rightarrow> ex_heap)"

definition ex_srv :: "session_hash_table \<Rightarrow> vpn_server" where
  "ex_srv t = \<lparr>local_ip = 0x01020304, mac_addr = replicate 6 1, net_dev_ind = 2, last_client_ip = 0, buf = replicate 9000 0,
     buf_len = 9000, raddr = ex_sin, udpfd = 3, ll = ex_ll, rawfd = 4, table = t\<rparr>"

definition ex_state :: "reply list \<Rightarrow> server_state" where
  "ex_state rs = \<lparr>srv = ex_srv ex_srv_table, sys_os = srv_os rs, hp = ex_srv_heap, reset_packet_size = 0\<rparr>"

lemma ex_srv_add:
  "add_tcp_session 0 ex_heap (init_hash_table 200 40000 41000) 0x0a000005 40000 10 = Some (Some 0, ex_srv_heap, ex_srv_table)"
proof -
  have "(case add_tcp_session 0 ex_heap (init_hash_table 200 40000 41000) 0x0a000005 40000 10 of
      Some (r, _, _) \<Rightarrow> r = Some 0 | None \<Rightarrow> False)"
    by code_simp
  then show ?thesis by (auto simp: ex_srv_heap_def ex_srv_table_def split: option.splits)
qed

lemma srv_table_init:
  assumes "nodes h = Map.empty" and "sessions h = Map.empty"
  shows "table_inv h (init_hash_table 200 40000 41000)"
proof -
  have rep: "table_rep h (init_hash_table 200 40000 41000) (replicate (nat 200) []) (replicate (nat 200) [])"
    using assms by (intro init_hash_table_rep) simp_all
  then show ?thesis unfolding table_inv_def by blast
qed

lemma srv_table_range:
  "port_range (init_hash_table 200 40000 41000) = {40000 .. 41000}" "mod_num (init_hash_table 200 40000 41000) \<noteq> 0"
  by (rule port_range_init(2); simp add: word_le_nat_alt) (simp add: init_hash_table_def)

lemma ex_srv_session:
  "sessions ex_srv_heap 0 = Some (new_session 0x0a000005 40000 40000 110)" "time_NULL ex_srv_heap = 100"
  "get_tcp_session_by_client ex_srv_heap ex_srv_table 0x0a000005 40000 = Some (Some 0)"
  "get_tcp_session_by_server ex_srv_heap ex_srv_table 40000 = Some (Some 0)"
  by code_simp+

lemma ex_state_ok: "server_ok (ex_state rs)"
proof -
  have init: "table_inv ex_heap (init_hash_table 200 40000 41000)"
    by (rule srv_table_init) (simp_all add: ex_heap_def)
  show ?thesis
    using add_inv [OF init ex_srv_add] add_keeps_range [OF init ex_srv_add] srv_table_range
    by (simp add: ex_state_def ex_srv_def ex_ll_def server_ok_def sll_ok_def)
qed

lemma ex_kernel_ok:
  assumes "\<And>r. r \<in> set rs \<Longrightarrow> ret r \<le> MAX_BUF \<and> from_ll r = ex_ll"
  shows "kernel_ok (srv_os rs)"
proof -
  have r: "ret (replies (srv_os rs) j) \<le> MAX_BUF \<and> from_ll (replies (srv_os rs) j) = ex_ll" for j
    using assms [OF nth_mem] by (simp add: srv_os_def srv_reply_def)
  have "\<not> skipped (replies (srv_os rs) (j + length rs))" for j
    by (simp add: srv_os_def srv_reply_def skipped_def)
  then show ?thesis unfolding kernel_ok_def using r by (auto simp: ex_ll_def sll_ok_def)
qed

section \<open>Properties\<close>

lemma init_vpn_server_ok:
  assumes "init_vpn_server s w = Inr (s', w')" and "length (buf s) = 9000" and "nodes h = Map.empty" "sessions h = Map.empty"
    and "kernel_ok w'"
  shows "server_ok \<lparr>srv = s', sys_os = w', hp = h, reset_packet_size = rst\<rparr>"
    "nat_run 200 40000 41000 h (table s')"
proof -
  have s': "table s' = init_hash_table 200 40000 41000" "buf s' = buf s" "buf_len s' = MAX_BUF"
    "sll_ok (ll s')"
    using assms(1) by (auto simp: init_vpn_server_def sll_ok_def Let_def split: prod.splits if_splits)
  show "server_ok \<lparr>srv = s', sys_os = w', hp = h, reset_packet_size = rst\<rparr>"
    using s' assms(2) srv_table_init [OF assms(3,4)] srv_table_range by (simp add: server_ok_def)
  show "nat_run 200 40000 41000 h (table s')" unfolding s'(1) using assms(3,4) by (rule nat_run.start)
qed



text \<open>What a received packet is in the buffer of the server.\<close>

lemma received_packet:
  assumes r: "ret r = int (length (bytes r))" "ret r \<le> MAX_BUF" and len: "length c = 9000"
    and pkt: "tcp_packet (bytes r) (ret r) ihl doff tot"
  shows "take (length (bytes r)) (received r c) = bytes r" "tcp_packet (received r c) MAX_BUF ihl doff tot"
    "src_ip (received r c) = src_ip (bytes r)" "src_port (received r c) ihl = src_port (bytes r) ihl"
    "dst_port (received r c) ihl = dst_port (bytes r) ihl" "tot \<le> length (bytes r)" "length (bytes r) \<le> 9000"
    "0 < received_length r"
proof -
  let ?n = "length (bytes r)"
  have fits: "reply_fits MAX_BUF r" "0 \<le> ret r" "MAX_BUF \<le> int (length c)" using r len by (simp_all add: reply_fits_def)
  show t: "take ?n (received r c) = bytes r" using received_prefix(1) [OF fits] r(1) by simp
  have le: "?n \<le> length (received r c)" "int ?n \<le> MAX_BUF" "MAX_BUF \<le> int (length (received r c))" "MAX_BUF < 2 ^ 31"
    using r len by simp_all
  have "tcp_packet (take ?n (received r c)) (int ?n) ihl doff tot" unfolding t using pkt r(1) by simp
  note f = tcp_packet_take [OF this le]
  show "tcp_packet (received r c) MAX_BUF ihl doff tot" "tot \<le> ?n" using f(1,2) .
  show "src_ip (received r c) = src_ip (bytes r)" "src_port (received r c) ihl = src_port (bytes r) ihl"
    "dst_port (received r c) ihl = dst_port (bytes r) ihl" using f(3-5) unfolding t by simp_all
  show "?n \<le> 9000" using r by simp
  have "40 \<le> tot" using f(1) packet_lengths(3) by (auto simp: tcp_packet_def)
  then have "0 < ret r" using f(2) r(1) by linarith
  then show "0 < received_length r" by (simp add: received_length_def)
qed

text \<open>
  A packet with a live session on its way through the first half: what is sent, and what the half leaves behind.
\<close>

definition forwarded_bytes :: "nat \<Rightarrow> nat \<Rightarrow> buf \<Rightarrow> buf \<Rightarrow> nat \<Rightarrow> nat \<Rightarrow> nat \<Rightarrow> u32 \<Rightarrow> u16 \<Rightarrow> bool" where
  "forwarded_bytes ipo po q p ihl doff tot ip port \<longleftrightarrow> length q = length p \<and>
    ip_tcp_packet q ihl doff tot \<and> ip_checksum_ok q ihl \<and> tcp_checksum_ok q ihl tot \<and>
    ld32 q ipo = Some (htonl ip) \<and> ld16 q (4 * ihl + po) = Some (htons port) \<and>
    (\<forall>i. i \<in> {10, 11} \<or> i \<in> {ipo ..< ipo + 4} \<or> i \<in> {4 * ihl + po, 4 * ihl + po + 1} \<or> i \<in> {4 * ihl + 16, 4 * ihl + 17}
       \<or> length q \<le> i \<or> q ! i = p ! i)"

lemma client_half_known:
  fixes st
  defines "r \<equiv> replies (sys_os st) 0"
  assumes "server_ok st" and "kernel_ok (sys_os st)" and "ret r = int (length (bytes r))" and "tcp_packet (bytes r) (ret r) ihl doff tot"
    and "get_tcp_session_by_client (hp st) (table (srv st)) (src_ip (bytes r)) (src_port (bytes r) ihl) = Some (Some s)"
    and "sessions (hp st) s = Some x" and "time_NULL (hp st) \<le> expire x" and "0 \<le> ret (replies (sys_os st) 1)"
  shows "\<exists>q st' k g. client_half count st = Some (Inr st') \<and>
    ran [udp_recv st, Sendto_ll (rawfd (srv st)) q 0 (ll (srv st)\<lparr>sll_hatype := 0, sll_pkttype := 0\<rparr>)] (sys_os st) (sys_os st') \<and>
    raddr (srv st') = from_in r \<and> udpfd (srv st') = udpfd (srv st) \<and> rawfd (srv st') = rawfd (srv st) \<and>
    table (srv st') = table (srv st) \<and> hp st' = (tick ^^ k) (put_session (tick (hp st)) s (client_flags g x)) \<and>
    forwarded_bytes 12 0 q (bytes r) ihl doff tot (local_ip (srv st)) (server_port x)"
proof -
  let ?b = "buf (heard st)" and ?n = "length (bytes r)" and ?l = "ll (srv st)\<lparr>sll_hatype := 0, sll_pkttype := 0\<rparr>"
  have b: "?b = received r (buf (srv st))" "length (buf (srv st)) = 9000" "ret r \<le> MAX_BUF"
    using assms(2,3) by (simp_all add: r_def server_ok_def kernel_ok_def)
  note p = received_packet [OF assms(4) b(3,2) assms(5), folded b(1)]
  have inv: "table_inv (hp st) (table (srv st))" using assms(2) by (simp add: server_ok_def)
  obtain b' where rep: "replace_src_ip_port ?b (local_ip (srv st)) (server_port x) = Some b'"
    and run: "handle_client_packet count (hp st) (table (srv st)) ?b MAX_BUF (local_ip (srv st)) (reset_packet_size st)
      = Some (VALID_SESSION, reset_packet_size st, b',
          put_session (tick (hp st)) s (client_flags (the (read_segment ?b (4 * ihl))) x), table (srv st))"
    using handle_client_known [OF inv p(2) _ assms(7,8)] assms(6) unfolding p(3,4) by blast
  have pkt: "ip_tcp_packet ?b ihl doff tot" using p(2) by (simp add: tcp_packet_def)
  note f = src.rep_take [OF pkt p(6) _ rep, unfolded p(1)]
  have len: "length b' = 9000" using src.rep_correct [OF pkt, of "local_ip (srv st)" "server_port x"] rep b by auto
  have pos: "0 < received_length (replies (sys_os st) 0)" using p(8) by (simp add: r_def)
  obtain w k where st': "client_half count st = Some (Inr \<lparr>srv = heard st\<lparr>buf := b', table := table (srv st), ll := ?l\<rparr>,
      sys_os = w, hp = (tick ^^ k) (put_session (tick (hp st)) s (client_flags (the (read_segment ?b (4 * ihl))) x)),
      reset_packet_size = reset_packet_size st\<rparr>)"
    "ran [udp_recv st, Sendto_ll (rawfd (srv st)) (take ?n b') 0 ?l] (sys_os st) w"
    using client_half_forwarded [OF assms(2,3) pos run len touch_session(1) [OF inv assms(7) flags_keep(1)]] assms(4,9)
    unfolding r_def by fastforce
  have "forwarded_bytes 12 0 (take ?n b') (bytes r) ihl doff tot (local_ip (srv st)) (server_port x)"
    using f b(1,2) p(7) by (auto simp: forwarded_bytes_def)
  moreover have "raddr (heard st) = from_in r" using assms(4) by (simp add: heard_def Let_def r_def)
  ultimately show ?thesis
    using st' by (intro exI [of _ "take ?n b'"] exI [of _ k] exI [of _ "the (read_segment ?b (4 * ihl))"] exI conjI)
      (assumption | simp)+
qed

text \<open>
  C3. The way out: when a client with a live session sends a TCP packet, the server passes exactly one packet to the raw
  socket, of the same length, with its own address and the port of the session as source, valid checksums, and no other
  byte changed; and it remembers the sender.
\<close>

theorem server_forwards_client_packet:
  fixes st
  defines "r \<equiv> replies (sys_os st) 0"
  assumes "server_ok st" and "kernel_ok (sys_os st)" and "ret r = int (length (bytes r))" and "tcp_packet (bytes r) (ret r) ihl doff tot"
    and "get_tcp_session_by_client (hp st) (table (srv st)) (src_ip (bytes r)) (src_port (bytes r) ihl) = Some (Some s)"
    and "sessions (hp st) s = Some x" and "time_NULL (hp st) \<le> expire x" and "0 \<le> ret (replies (sys_os st) 1)"
  shows "\<exists>q st'. client_half count st = Some (Inr st') \<and>
    calls (sys_os st') = calls (sys_os st) @
      [udp_recv st, Sendto_ll (rawfd (srv st)) q 0 (ll (srv st)\<lparr>sll_hatype := 0, sll_pkttype := 0\<rparr>)] \<and>
    raddr (srv st') = from_in r \<and> length q = length (bytes r) \<and>
    ip_tcp_packet q ihl doff tot \<and> ip_checksum_ok q ihl \<and> tcp_checksum_ok q ihl tot \<and>
    ld32 q 12 = Some (htonl (local_ip (srv st))) \<and> ld16 q (4 * ihl) = Some (htons (server_port x)) \<and>
    (\<forall>i. i \<in> {10, 11} \<or> i \<in> {12 ..< 16} \<or> i \<in> {4 * ihl, 4 * ihl + 1} \<or> i \<in> {4 * ihl + 16, 4 * ihl + 17}
       \<or> length q \<le> i \<or> q ! i = bytes r ! i)"
  using client_half_known [of st, folded r_def, OF assms(2-), of count]
  by (auto simp: ran_def forwarded_bytes_def)

theorem server_forwards_client_packet_witness:
  "\<exists>q st'. client_half 0 (ex_state [srv_reply 40 0 ex_syn, srv_reply 40 0 []]) = Some (Inr st') \<and>
    calls (sys_os st') = [Recvfrom 3 9000 MSG_DONTWAIT, Sendto_ll 4 q 0 (ex_ll\<lparr>sll_hatype := 0, sll_pkttype := 0\<rparr>)] \<and>
    ld32 q 12 = Some (htonl 0x01020304) \<and> ld16 q 20 = Some (htons 40000) \<and> tcp_checksum_ok q 5 40"
proof -
  let ?st = "ex_state [srv_reply 40 0 ex_syn, srv_reply 40 0 []]"
  have r: "replies (sys_os ?st) 0 = srv_reply 40 0 ex_syn" "replies (sys_os ?st) 1 = srv_reply 40 0 []"
    by (simp_all add: ex_state_def srv_os_def)
  have k: "kernel_ok (sys_os ?st)" by (auto intro!: ex_kernel_ok simp: ex_state_def srv_reply_def)
  have b: "bytes (replies (sys_os ?st) 0) = ex_syn" "ret (replies (sys_os ?st) 0) = 40"
    "0 \<le> ret (replies (sys_os ?st) 1)" unfolding r by (simp_all add: srv_reply_def)
  have len: "length ex_syn = 40" and src: "src_ip ex_syn = 0x0a000005" "src_port ex_syn 5 = 40000" by code_simp+
  have t: "hp ?st = ex_srv_heap" "table (srv ?st) = ex_srv_table" "calls (sys_os ?st) = []"
    "srv ?st = ex_srv ex_srv_table" by (simp_all add: ex_state_def ex_srv_def srv_os_def)
  have live: "time_NULL (hp ?st) \<le> expire (new_session 0x0a000005 40000 40000 110)"
    by (simp add: t ex_srv_session(2) new_session_def)
  have s: "server_port (new_session 0x0a000005 40000 40000 110) = 40000" by (simp add: new_session_def)
  show ?thesis
    using server_forwards_client_packet [OF ex_state_ok k, of 5 5 40 0 "new_session 0x0a000005 40000 40000 110" 0, OF _ _ _ _ live b(3)]
      ex_syn_packet(1) ex_srv_session(1,3)
    unfolding b len src t s by (auto simp: ex_srv_def)
qed

lemma skips_eq:
  assumes "\<And>j. j < k \<Longrightarrow> skipped (replies w j)" and "\<not> skipped (replies w k)"
  shows "skips w = k"
  unfolding skips_def using assms by (intro Least_equality) (auto simp: not_less [symmetric])

text \<open>The same for the second half.\<close>

lemma world_half_known:
  fixes st k
  defines "r \<equiv> replies (sys_os st) k"
  assumes "server_ok st" and "kernel_ok (sys_os st)" and "\<And>j. j < k \<Longrightarrow> skipped (replies (sys_os st) j)" and "\<not> skipped r"
    and "ret r = int (length (bytes r))" and "tcp_packet (bytes r) (ret r) ihl doff tot"
    and "get_tcp_session_by_server (hp st) (table (srv st)) (dst_port (bytes r) ihl) = Some (Some s)"
    and "sessions (hp st) s = Some x" and "time_NULL (hp st) \<le> expire x" and "0 \<le> ret (replies (sys_os st) (Suc k))"
  shows "\<exists>q st'. world_half st = Some (Inr st') \<and>
    ran (replicate (Suc k) (raw_recv st) @ [Sendto_in (udpfd (srv st)) q MSG_CONFIRM (Some (raddr (srv st)))])
      (sys_os st) (sys_os st') \<and>
    last_client_ip (srv st') = client_ip x \<and>
    forwarded_bytes 16 2 q (bytes r) ihl doff tot (client_ip x) (client_port x)"
proof -
  have k: "skips (sys_os st) = k" using skips_eq assms(4,5) unfolding r_def by blast
  have inv: "table_inv (hp st) (table (srv st))" and le: "ret r \<le> MAX_BUF"
    using assms(2,3) by (simp_all add: server_ok_def kernel_ok_def r_def)
  have "0 < received_length r" by (rule received_packet(8) [OF assms(6) le length_replicate assms(7)])
  then have pos: "0 < received_length (raw_reply st)" by (simp add: k r_def)
  obtain b0 c0 where c: "length c0 = 9000" "b0 = received r c0" "length b0 = 9000"
    and valid: "\<And>cip rst b h t. handle_world_packet (hp st) (table (srv st)) b0 MAX_BUF (reset_packet_size st) (last_client_ip (srv st))
        = Some (cip, VALID_SESSION, rst, b, h, t) \<Longrightarrow> length b = 9000 \<Longrightarrow>
      \<exists>w. ran (replicate (Suc k) (raw_recv st) @
          [Sendto_in (udpfd (srv st)) (take (nat (ret r)) b) MSG_CONFIRM (Some (raddr (srv st)))]) (sys_os st) w \<and>
        world_half st = Some (if ret (replies (sys_os st) (Suc k)) < 0 then Inl w
          else Inr \<lparr>srv = srv st\<lparr>buf := b, table := t, last_client_ip := cip\<rparr>, sys_os = w, hp = h,
            reset_packet_size = rst\<rparr>)"
    using world_half_packet [OF assms(2,3) pos] unfolding k r_def by metis
  note p = received_packet [OF assms(6) le c(1) assms(7), folded c(2)]
  obtain b' where rep: "replace_dst_ip_port b0 (client_ip x) (client_port x) = Some b'"
    and run: "handle_world_packet (hp st) (table (srv st)) b0 MAX_BUF (reset_packet_size st) (last_client_ip (srv st))
      = Some (client_ip x, VALID_SESSION, reset_packet_size st, b',
          put_session (tick (hp st)) s (world_flags (the (read_segment b0 (4 * ihl))) x), table (srv st))"
    using handle_world_known [OF p(2) _ assms(9,10)] assms(8) unfolding p(5) by blast
  have pkt: "ip_tcp_packet b0 ihl doff tot" using p(2) by (simp add: tcp_packet_def)
  note f = dst.rep_take [OF pkt p(6) _ rep, unfolded p(1)]
  have len: "length b' = 9000" using dst.rep_correct [OF pkt, of "client_ip x" "client_port x"] rep c(3) by auto
  have "forwarded_bytes 16 2 (take (length (bytes r)) b') (bytes r) ihl doff tot (client_ip x) (client_port x)"
    using f c(3) p(7) by (auto simp: forwarded_bytes_def)
  moreover have "\<exists>w st'. ran (replicate (Suc k) (raw_recv st) @
        [Sendto_in (udpfd (srv st)) (take (length (bytes r)) b') MSG_CONFIRM (Some (raddr (srv st)))]) (sys_os st) w \<and>
      world_half st = Some (Inr st') \<and> sys_os st' = w \<and> last_client_ip (srv st') = client_ip x"
    using valid [OF run len] assms(6,11) by (auto simp: add.commute simp del: replicate_Suc)
  ultimately show ?thesis by blast
qed

text \<open>
  C4. The way back: when the raw socket delivers a TCP packet for the port of a live session, after \<open>k\<close> packets for other
  hosts, the server sends exactly one message to the client it heard of last, of the same length, with the address and
  port of the session's client as destination, valid checksums, and no other byte changed.
\<close>

theorem server_delivers_world_packet:
  fixes st k
  defines "r \<equiv> replies (sys_os st) k"
  assumes "server_ok st" and "kernel_ok (sys_os st)" and "\<And>j. j < k \<Longrightarrow> skipped (replies (sys_os st) j)" and "\<not> skipped r"
    and "ret r = int (length (bytes r))" and "tcp_packet (bytes r) (ret r) ihl doff tot"
    and "get_tcp_session_by_server (hp st) (table (srv st)) (dst_port (bytes r) ihl) = Some (Some s)"
    and "sessions (hp st) s = Some x" and "time_NULL (hp st) \<le> expire x" and "0 \<le> ret (replies (sys_os st) (Suc k))"
  shows "\<exists>q st'. world_half st = Some (Inr st') \<and>
    calls (sys_os st') = calls (sys_os st) @ replicate (Suc k) (raw_recv st) @
      [Sendto_in (udpfd (srv st)) q MSG_CONFIRM (Some (raddr (srv st)))] \<and>
    last_client_ip (srv st') = client_ip x \<and> length q = length (bytes r) \<and>
    ip_tcp_packet q ihl doff tot \<and> ip_checksum_ok q ihl \<and> tcp_checksum_ok q ihl tot \<and>
    ld32 q 16 = Some (htonl (client_ip x)) \<and> ld16 q (4 * ihl + 2) = Some (htons (client_port x)) \<and>
    (\<forall>i. i \<in> {10, 11} \<or> i \<in> {16 ..< 20} \<or> i \<in> {4 * ihl + 2, 4 * ihl + 3} \<or> i \<in> {4 * ihl + 16, 4 * ihl + 17}
       \<or> length q \<le> i \<or> q ! i = bytes r ! i)"
proof -
  have o: "4 * ihl + 2 + 1 = 4 * ihl + 3" "16 + 4 = (20 :: nat)" by simp_all
  show ?thesis
    using world_half_known [of st k, folded r_def, OF assms(2-)] unfolding forwarded_bytes_def o ran_def by blast
qed

text \<open>A SYN-ACK to port 40000, after one packet for another host.\<close>

definition ex_back :: "u8 list" where
  "ex_back = ex_synack[22 := 0x9c, 23 := 0x40]"

theorem server_delivers_world_packet_witness:
  "\<exists>q st'. world_half (ex_state [srv_reply 40 0 ex_back, srv_reply 40 0 []]) = Some (Inr st') \<and>
    calls (sys_os st') = [Recvfrom 4 9000 MSG_DONTWAIT, Sendto_in 3 q MSG_CONFIRM (Some ex_sin)] \<and>
    ld32 q 16 = Some (htonl 0x0a000005) \<and> ld16 q 22 = Some (htons 40000) \<and> tcp_checksum_ok q 5 40"
proof -
  let ?st = "ex_state [srv_reply 40 0 ex_back, srv_reply 40 0 []]"
  have r: "replies (sys_os ?st) 0 = srv_reply 40 0 ex_back" "replies (sys_os ?st) (Suc 0) = srv_reply 40 0 []"
    by (simp_all add: ex_state_def srv_os_def)
  have k: "kernel_ok (sys_os ?st)" by (auto intro!: ex_kernel_ok simp: ex_state_def srv_reply_def)
  have b: "bytes (replies (sys_os ?st) 0) = ex_back" "ret (replies (sys_os ?st) 0) = 40" "\<not> skipped (replies (sys_os ?st) 0)"
    "0 \<le> ret (replies (sys_os ?st) (Suc 0))" unfolding r by (simp_all add: srv_reply_def skipped_def ex_ll_def)
  have p: "tcp_packet ex_back 40 5 5 40" "length ex_back = 40" "dst_port ex_back 5 = 40000" by code_simp+
  have t: "hp ?st = ex_srv_heap" "table (srv ?st) = ex_srv_table" "calls (sys_os ?st) = []"
    "srv ?st = ex_srv ex_srv_table" by (simp_all add: ex_state_def ex_srv_def srv_os_def)
  have live: "time_NULL (hp ?st) \<le> expire (new_session 0x0a000005 40000 40000 110)"
    by (simp add: t ex_srv_session(2) new_session_def)
  have s: "client_port (new_session 0x0a000005 40000 40000 110) = 40000" "client_ip (new_session 0x0a000005 40000 40000 110) = 0x0a000005"
    by (simp_all add: new_session_def)
  have h: "ret (replies (sys_os ?st) 0) = int (length (bytes (replies (sys_os ?st) 0)))"
    "tcp_packet (bytes (replies (sys_os ?st) 0)) (ret (replies (sys_os ?st) 0)) 5 5 40"
    "get_tcp_session_by_server (hp ?st) (table (srv ?st)) (dst_port (bytes (replies (sys_os ?st) 0)) 5) = Some (Some 0)"
    "sessions (hp ?st) 0 = Some (new_session 0x0a000005 40000 40000 110)"
    unfolding b t(1,2) p(2,3) using p(1) ex_srv_session(1,4) by simp_all
  have f: "udpfd (ex_srv ex_srv_table) = 3" "rawfd (ex_srv ex_srv_table) = 4" "raddr (ex_srv ex_srv_table) = ex_sin"
    by (simp_all add: ex_srv_def)
  have none: "j < 0 \<Longrightarrow> skipped (replies (sys_os ?st) j)" for j :: nat by simp
  show ?thesis
    using server_delivers_world_packet [OF ex_state_ok k none b(3) h live b(4)]
    unfolding t(3,4) s f by (simp only: replicate_Suc replicate_0 append_Nil append_Cons numeral_eq_Suc) fastforce
qed

text \<open>
  C31. A rejected packet is never answered: whenever the client handler turns a packet into a reset, the server stores
  the length of the reset, prints the packet and goes on, without any call that sends, although the buffer holds a
  complete reset for the client.
\<close>

theorem server_drops_client_reset:
  assumes "server_ok st" and "kernel_ok (sys_os st)" and "0 < received_length (replies (sys_os st) 0)"
    and "handle_client_packet count (hp st) (table (srv st)) (buf (heard st)) MAX_BUF (local_ip (srv st))
      (reset_packet_size st) = Some (INVALID_SESSION, rst, b, h, t)" and "length b = 9000"
  shows "\<exists>st'. client_half count st = Some (Inr st') \<and> calls (sys_os st') = calls (sys_os st) @ [udp_recv st] \<and>
    buf (srv st') = b \<and> reset_packet_size st' = rst \<and> hp st' = h \<and> table (srv st') = t"
proof -
  have "received_length (replies (sys_os st) 0) = ret (replies (sys_os st) 0)"
    using assms(3) by (simp add: received_length_def split: if_splits)
  then have "received_length (replies (sys_os st) 0) \<le> MAX_BUF" using assms(2) by (simp add: kernel_ok_def)
  from client_half_rejected [OF assms(1,3) this assms(4,5)] show ?thesis
    by (auto simp: ran_def)
qed

theorem server_drops_client_reset_witness:
  "\<exists>st'. client_half 0 (ex_state [srv_reply 1 0 [0]]) = Some (Inr st') \<and> calls (sys_os st') = [Recvfrom 3 9000 MSG_DONTWAIT] \<and>
    reset_packet_size st' = 40"
proof -
  let ?st = "ex_state [srv_reply 1 0 [0]]"
  have r: "replies (sys_os ?st) 0 = srv_reply 1 0 [0]" by (simp add: ex_state_def srv_os_def)
  have k: "kernel_ok (sys_os ?st)" by (auto intro!: ex_kernel_ok simp: ex_state_def srv_reply_def)
  have pos: "0 < received_length (replies (sys_os ?st) 0)" unfolding r by (simp add: received_length_def srv_reply_def)
  have st: "buf (srv ?st) = replicate 9000 0" "udpfd (srv ?st) = 3" "calls (sys_os ?st) = []"
    by (simp_all add: ex_state_def ex_srv_def srv_os_def)
  have b: "length (buf (heard ?st)) = 9000" "buf (heard ?st) ! 9 = 0"
    unfolding heard_simps r st by (simp_all add: received_def srv_reply_def nth_append)
  have "validate_ip_tcp (buf (heard ?st)) MAX_BUF = Some INVALID_IP_TCP"
    using validate_ip_tcp_spec [of MAX_BUF "buf (heard ?st)"] b by (simp add: Let_def del: heard_simps)
  moreover obtain b' where "fillin_reset (buf (heard ?st)) = Some (40, b')" "length b' = 9000"
    using fillin_reset_correct [of "buf (heard ?st)"] b(1) by (auto simp del: heard_simps)
  ultimately have "handle_client_packet 0 (hp ?st) (table (srv ?st)) (buf (heard ?st)) MAX_BUF (local_ip (srv ?st))
      (reset_packet_size ?st) = Some (INVALID_SESSION, 40, b', hp ?st, table (srv ?st))" "length b' = 9000"
    by (simp_all add: handle_client_no_packet reset_packet_def del: heard_simps)
  from server_drops_client_reset [OF ex_state_ok k pos this] show ?thesis by (auto simp: st)
qed

text \<open>
  C32. Stale bytes count: the handler is told the size of the buffer and not the length of the message. A message that repeats
  only the first \<open>n\<close> bytes of what the buffer holds (one byte is enough) is handled as the whole packet that lies
  there; if that packet has a live session its state machine takes another step, and \<open>n\<close> bytes of the translated packet are sent.
\<close>

theorem short_message_handled_as_old_packet:
  assumes "server_ok st" and "kernel_ok (sys_os st)" and "0 < n" and "ret (replies (sys_os st) 0) = int n"
    and "bytes (replies (sys_os st) 0) = take n (buf (srv st))"
    and "tcp_packet (buf (srv st)) MAX_BUF ihl doff tot"
    and "get_tcp_session_by_client (hp st) (table (srv st)) (src_ip (buf (srv st))) (src_port (buf (srv st)) ihl) = Some (Some s)"
    and "sessions (hp st) s = Some x" and "time_NULL (hp st) \<le> expire x" and "0 \<le> ret (replies (sys_os st) 1)"
  shows "\<exists>b st'. client_half count st = Some (Inr st') \<and>
    replace_src_ip_port (buf (srv st)) (local_ip (srv st)) (server_port x) = Some b \<and>
    calls (sys_os st') = calls (sys_os st) @
      [udp_recv st, Sendto_ll (rawfd (srv st)) (take n b) 0 (ll (srv st)\<lparr>sll_hatype := 0, sll_pkttype := 0\<rparr>)] \<and>
    sessions (hp st') s = Some (client_flags (the (read_segment (buf (srv st)) (4 * ihl))) x)"
proof -
  let ?b = "buf (srv st)" and ?y = "client_flags (the (read_segment (buf (srv st)) (4 * ihl))) x"
  have len: "length ?b = 9000" and inv: "table_inv (hp st) (table (srv st))" using assms(1) by (simp_all add: server_ok_def)
  have "n \<le> 9000" using assms(2,4) by (simp add: kernel_ok_def) (metis of_nat_le_iff of_nat_numeral)
  then have b: "buf (heard st) = ?b" using assms(4,5) len by (simp add: received_def min_def)
  have pos: "0 < received_length (replies (sys_os st) 0)" using assms(3,4) by (simp add: received_length_def)
  obtain b' where rep: "replace_src_ip_port ?b (local_ip (srv st)) (server_port x) = Some b'"
    and run: "handle_client_packet count (hp st) (table (srv st)) (buf (heard st)) MAX_BUF (local_ip (srv st)) (reset_packet_size st)
      = Some (VALID_SESSION, reset_packet_size st, b', put_session (tick (hp st)) s ?y, table (srv st))"
    using handle_client_known [OF inv assms(6-9)] unfolding b by blast
  have "length b' = 9000"
    using tcp_packet_rewrite(1) [OF assms(6), of "local_ip (srv st)" "server_port x"] rep len by auto
  from client_half_forwarded [OF assms(1,2) pos run this touch_session(1) [OF inv assms(8) flags_keep(1)]]
  obtain w k where "client_half count st = Some (Inr \<lparr>srv = heard st\<lparr>buf := b', table := table (srv st),
        ll := ll (srv st)\<lparr>sll_hatype := 0, sll_pkttype := 0\<rparr>\<rparr>, sys_os = w,
        hp = (tick ^^ k) (put_session (tick (hp st)) s ?y), reset_packet_size = reset_packet_size st\<rparr>)"
    "ran [udp_recv st, Sendto_ll (rawfd (srv st)) (take n b') 0 (ll (srv st)\<lparr>sll_hatype := 0, sll_pkttype := 0\<rparr>)] (sys_os st) w"
    using assms(4,10) by fastforce
  then show ?thesis
    using rep by (auto simp: ran_def tick_power put_session_def)
qed

theorem short_message_handled_as_old_packet_witness:
  "\<exists>b st'. client_half 0 ((ex_state [srv_reply 1 0 [0x45], srv_reply 1 0 []])
      \<lparr>srv := (ex_srv ex_srv_table)\<lparr>buf := ex_syn @ replicate 8960 0\<rparr>\<rparr>) = Some (Inr st') \<and>
    calls (sys_os st') = [Recvfrom 3 9000 MSG_DONTWAIT, Sendto_ll 4 (take 1 b) 0 (ex_ll\<lparr>sll_hatype := 0, sll_pkttype := 0\<rparr>)]"
proof -
  let ?rs = "[srv_reply 1 0 [0x45], srv_reply 1 0 []]" and ?b = "ex_syn @ replicate 8960 0"
  let ?st = "(ex_state ?rs)\<lparr>srv := (ex_srv ex_srv_table)\<lparr>buf := ?b\<rparr>\<rparr>"
  have r: "replies (sys_os ?st) 0 = srv_reply 1 0 [0x45]" "replies (sys_os ?st) 1 = srv_reply 1 0 []"
    by (simp_all add: ex_state_def srv_os_def)
  have st: "buf (srv ?st) = ?b" "hp ?st = ex_srv_heap" "table (srv ?st) = ex_srv_table" "udpfd (srv ?st) = 3" "rawfd (srv ?st) = 4"
    "calls (sys_os ?st) = []" "ll (srv ?st) = ex_ll"
    by (simp_all add: ex_state_def ex_srv_def srv_os_def)
  have syn: "take 40 ?b = ex_syn" "length ?b = 9000" "tcp_packet ex_syn 40 5 5 40"
    "src_ip ex_syn = 0x0a000005" "src_port ex_syn 5 = 40000"
    using ex_syn_packet(1) by (simp_all add: ex_syn_def src_ip_def src_port_def ld32_Some ld16_Some le32_def le16_def ntohl_def
        ntohs_def octet_def)
  have "tcp_packet (take 40 ?b) (int 40) 5 5 40" unfolding syn(1) using syn(3) by simp
  then have p: "tcp_packet ?b MAX_BUF 5 5 40" "src_ip ?b = 0x0a000005" "src_port ?b 5 = 40000"
    using tcp_packet_take [of 40 ?b 5 5 40 MAX_BUF] syn by simp_all
  have ok: "server_ok ?st"
    using ex_state_ok [of ?rs] syn(2) by (simp add: server_ok_def ex_state_def ex_srv_def)
  have k: "kernel_ok (sys_os ?st)" by (auto intro!: ex_kernel_ok simp: ex_state_def srv_reply_def)
  have h: "(0 :: nat) < 1" "ret (replies (sys_os ?st) 0) = int 1" "bytes (replies (sys_os ?st) 0) = take 1 (buf (srv ?st))"
    "0 \<le> ret (replies (sys_os ?st) 1)"
    unfolding r st by (simp_all add: srv_reply_def ex_syn_def)
  have s: "get_tcp_session_by_client (hp ?st) (table (srv ?st)) (src_ip (buf (srv ?st))) (src_port (buf (srv ?st)) 5) = Some (Some 0)"
    "sessions (hp ?st) 0 = Some (new_session 0x0a000005 40000 40000 110)"
    "time_NULL (hp ?st) \<le> expire (new_session 0x0a000005 40000 40000 110)"
    "tcp_packet (buf (srv ?st)) MAX_BUF 5 5 40"
    unfolding st p(2,3) using ex_srv_session p(1) by (simp_all add: new_session_def)
  from short_message_handled_as_old_packet [OF ok k h(1,2,3) s(4) s(1,2,3) h(4), of 0] show ?thesis
    unfolding st by fastforce
qed

end
