(* ===== verification/Ip_Command.thy ===== *)
theory Ip_Command
  imports Os
begin

text \<open>
  The interface set-up of \<^verbatim>\<open>src/src/lib/ip_command.c\<close>: creating the tun device, bringing it up, giving it an
  address and making it the default route. Netlink messages are records; \<^verbatim>\<open>addattr_l\<close> of libnetlink,
  which appends an attribute, is the parameter \<open>addattr\<close>; its \<^verbatim>\<open>rtnl_open\<close>, \<^verbatim>\<open>rtnl_talk\<close> and \<^verbatim>\<open>rtnl_close\<close> are system calls that open,
  use and close a netlink socket. The uninitialised \<^verbatim>\<open>ifr_flags\<close> of \<^verbatim>\<open>add_tun\<close> is an
  argument.
\<close>

abbreviation IFNAMSIZ :: nat where "IFNAMSIZ \<equiv> 16"
abbreviation IFF_UP :: u32 where "IFF_UP \<equiv> 1"
abbreviation IFF_TUN :: u16 where "IFF_TUN \<equiv> 1"
abbreviation IFF_NO_PI :: u16 where "IFF_NO_PI \<equiv> 0x1000"
abbreviation IFF_TUN_EXCL :: u16 where "IFF_TUN_EXCL \<equiv> 0x8000"
abbreviation TUN_NAME :: string where "TUN_NAME \<equiv> ''benker-vpn-tun''"

section \<open>Device flags\<close>

definition get_ctl_fd :: "os \<Rightarrow> int \<times> os" where
  "get_ctl_fd w = (
     let (r, w) = sys (Socket AF_INET SOCK_DGRAM 0) w
     in if 0 \<le> ret r then (ret r, w)
        else let s_errno = errno w; (r, w) = sys (Socket AF_PACKET SOCK_DGRAM 0) w
        in if 0 \<le> ret r then (ret r, w)
        else let (r, w) = sys (Socket AF_INET6 SOCK_DGRAM 0) w
        in if 0 \<le> ret r then (ret r, w)
        else (-1, w\<lparr>errno := s_errno\<rparr>))"

text \<open>\<^verbatim>\<open>ifr_flags\<close> is a \<^verbatim>\<open>short\<close>: it is sign-extended before it meets the 32 bit masks, and truncated again.\<close>

definition do_chflags :: "string \<Rightarrow> u32 \<Rightarrow> u32 \<Rightarrow> os \<Rightarrow> int \<times> os" where
  "do_chflags dev flags msk w = (
     let name = take IFNAMSIZ dev; (fd, w) = get_ctl_fd w
     in if fd < 0 then (-1, w)
        else let (r, w) = sys (Ioctl_SIOCGIFFLAGS fd name) w
        in if ret r \<noteq> 0 then (-1, w)
        else let f = if_flags r
        in if ((scast f XOR flags) AND msk) \<noteq> 0
           then let f = ucast (scast f AND NOT msk) :: u16;
                    f = ucast (scast f OR (msk AND flags));
                    (r, w) = sys (Ioctl_SIOCSIFFLAGS fd name f) w
                in if ret r \<noteq> 0 then (-1, w)
                   else let (_, w) = sys (Close fd) w in (ret r, w)
           else let (_, w) = sys (Close fd) w in (ret r, w))"

definition add_tun :: "u16 \<Rightarrow> os \<Rightarrow> int \<times> os" where
  "add_tun junk w = (
     let f = junk OR (IFF_NO_PI OR IFF_TUN);
         name = take IFNAMSIZ TUN_NAME;
         f = f OR IFF_TUN_EXCL;
         (r, w) = sys (Open ''/dev/net/tun'' 0x802) w;
         fd = ret r
     in if fd < 0 then (-1, perror ''open'' w)
        else let (r, w) = sys (Ioctl_TUNSETIFF fd name f) w
        in if ret r \<noteq> 0
           then let w = perror ''ioctl(TUNSETIFF)'' w; (_, w) = sys (Close fd) w in (-1, w)
           else (fd, w))"

definition set_int_up :: "string \<Rightarrow> os \<Rightarrow> int \<times> os" where
  "set_int_up dev w = do_chflags dev IFF_UP IFF_UP w"

section \<open>Netlink requests\<close>

definition set_default_route :: "(nlreq \<Rightarrow> int \<Rightarrow> int \<Rightarrow> buf \<Rightarrow> int \<times> nlreq) \<Rightarrow> os \<Rightarrow> int \<times> os" where
  "set_default_route addattr w = (
     let (r, w) = sys Rtnl_open w; rth = handle_fd r
     in if ret r < 0 then (-1, w)
        else let req = \<lparr>nlmsg_len = 28, nlmsg_flags = 0x601, nlmsg_type = 24,
                   nlmsg_body = Rtmsg \<lparr>rtm_family = AF_INET, rtm_dst_len = 0, rtm_table = 254, rtm_protocol = 3,
                     rtm_scope = 0, rtm_type = 1\<rparr>, nlmsg_payload = []\<rparr>;
                 (_, req) = addattr req 4124 5 [10, 0, 0, 1];
                 (r, w) = sys (Rtnl_talk rth req) w;
                 (_, w) = sys (Rtnl_close rth) w
             in (ret r, w))"

definition set_default_ip_addr :: "(nlreq \<Rightarrow> int \<Rightarrow> int \<Rightarrow> buf \<Rightarrow> int \<times> nlreq) \<Rightarrow> os \<Rightarrow> int \<times> os" where
  "set_default_ip_addr addattr w = (
     let (r, w) = sys Rtnl_open w; rth = handle_fd r
     in if ret r < 0 then (-1, w)
        else let (i, w) = sys (If_nametoindex ''benker-vpn-tun'') w;
                 req = \<lparr>nlmsg_len = 24, nlmsg_flags = 0x601, nlmsg_type = 20,
                   nlmsg_body = Ifaddrmsg \<lparr>ifa_family = AF_INET, ifa_prefixlen = 24, ifa_scope = 0,
                     ifa_index = ret i\<rparr>, nlmsg_payload = []\<rparr>;
                 (_, req) = addattr req 280 2 [10, 0, 0, 1];
                 (_, req) = addattr req 280 1 [10, 0, 0, 1];
                 (r, w) = sys (Rtnl_talk rth req) w;
                 (_, w) = sys (Rtnl_close rth) w
             in (ret r, w))"

definition setup_tun :: "u16 \<Rightarrow> (nlreq \<Rightarrow> int \<Rightarrow> int \<Rightarrow> buf \<Rightarrow> int \<times> nlreq) \<Rightarrow> os \<Rightarrow> int \<times> os" where
  "setup_tun junk addattr w = (
     let (fd, w) = add_tun junk w
     in if fd < 0 then (-1, w)
        else let (r, w) = set_int_up ''benker-vpn-tun'' w
        in if r < 0 then let (_, w) = sys (Close fd) w in (-1, w)
        else let (r, w) = set_default_ip_addr addattr w
        in if r < 0 then let (_, w) = sys (Close fd) w in (-1, w)
        else let (r, w) = set_default_route addattr w
        in if r < 0 then let (_, w) = sys (Close fd) w in (-1, w)
        else (fd, w))"

section \<open>Descriptors\<close>

lemmas sys_simps = sys_after after_fds Let_def case_prod_beta

lemma get_ctl_fd_fds:
  "get_ctl_fd w = (fd, w') \<Longrightarrow> fresh_fds w' \<Longrightarrow>
    fresh_fds w \<and> (if 0 \<le> fd then fd \<notin> fds w \<and> fds w' = insert fd (fds w) else fds w' = fds w)"
  by (auto simp: get_ctl_fd_def sys_simps split: if_splits)

text \<open>
  \<^verbatim>\<open>do_chflags\<close> closes its control socket when it succeeds, and leaves it open when an \<^verbatim>\<open>ioctl\<close> fails.
\<close>

definition ctl_left :: "int \<Rightarrow> os \<Rightarrow> int set" where
  "ctl_left r w = (if r \<noteq> 0 \<and> 0 \<le> fst (get_ctl_fd w) then {fst (get_ctl_fd w)} else {})"

lemma do_chflags_fds:
  assumes "do_chflags dev flags msk w = (r, w')" and "fresh_fds w'"
  shows "fresh_fds w \<and> r \<in> {0, -1} \<and> ctl_left r w \<inter> fds w = {} \<and> fds w' = fds w \<union> ctl_left r w"
proof -
  obtain fd w1 where ctl: "get_ctl_fd w = (fd, w1)" by fastforce
  show ?thesis
  proof (cases "fd < 0")
    case True
    then have "r = -1" "w' = w1" using assms(1) by (simp_all add: do_chflags_def ctl Let_def)
    then show ?thesis using get_ctl_fd_fds [OF ctl] assms(2) True by (auto simp: ctl_left_def ctl)
  next
    case False
    then have "fresh_fds w1" "(fds w' = fds w1 - {fd} \<and> r = 0) \<or> (fds w' = fds w1 \<and> r = -1)"
      using assms by (auto simp: do_chflags_def ctl sys_simps split: if_splits)
    then show ?thesis using get_ctl_fd_fds [OF ctl] False by (auto simp: ctl_left_def ctl split: if_splits)
  qed
qed

lemma add_tun_fds:
  "add_tun junk w = (fd, w') \<Longrightarrow> fresh_fds w' \<Longrightarrow>
    fresh_fds w \<and> (if 0 \<le> fd then fd \<notin> fds w \<and> fds w' = insert fd (fds w) else fd = -1 \<and> fds w' = fds w)"
  by (auto simp: add_tun_def sys_simps split: if_splits)

text \<open>The requests close their netlink socket whether the kernel accepts them or not.\<close>

lemma set_default_route_fds:
  "set_default_route addattr w = (r, w') \<Longrightarrow> fresh_fds w' \<Longrightarrow> fresh_fds w \<and> fds w' = fds w"
  by (auto simp: set_default_route_def sys_simps split: if_splits)

lemma set_default_ip_addr_fds:
  "set_default_ip_addr addattr w = (r, w') \<Longrightarrow> fresh_fds w' \<Longrightarrow> fresh_fds w \<and> fds w' = fds w"
  by (auto simp: set_default_ip_addr_def sys_simps split: if_splits)

text \<open>
  The control socket that \<^verbatim>\<open>setup_tun\<close> forgets: the one of \<^verbatim>\<open>set_int_up\<close>, when the device could be opened and not be
  brought up.
\<close>

definition forgotten :: "u16 \<Rightarrow> os \<Rightarrow> int set" where
  "forgotten junk w = (let (t, w) = add_tun junk w
     in if 0 \<le> t then ctl_left (fst (set_int_up ''benker-vpn-tun'' w)) w else {})"

lemma setup_tun_fds:
  assumes run: "setup_tun junk addattr w = (fd, w')" and fresh: "fresh_fds w'"
  shows "forgotten junk w \<inter> fds w = {} \<and> (if 0 \<le> fd then fd \<notin> fds w \<and> fds w' = insert fd (fds w)
    else fd = -1 \<and> fds w' = fds w \<union> forgotten junk w)"
proof -
  obtain t w1 where tun: "add_tun junk w = (t, w1)" by fastforce
  obtain r w2 where up: "set_int_up ''benker-vpn-tun'' w1 = (r, w2)" by fastforce
  obtain ra w3 where ad: "set_default_ip_addr addattr w2 = (ra, w3)" by fastforce
  obtain rb w4 where ro: "set_default_route addattr w3 = (rb, w4)" by fastforce
  show ?thesis
  proof (cases "t < 0")
    case True
    then have "fd = -1" "w' = w1" "forgotten junk w = {}"
      using run by (simp_all add: setup_tun_def tun forgotten_def)
    then show ?thesis using add_tun_fds [OF tun] fresh True by auto
  next
    case False
    have left: "forgotten junk w = ctl_left r w1" using False by (simp add: forgotten_def tun up)
    consider "r < 0" "fd = -1" "w' = after (Close t) w2" | "\<not> r < 0" "ra < 0" "fd = -1" "w' = after (Close t) w3"
      | "\<not> r < 0" "rb < 0" "fd = -1" "w' = after (Close t) w4" | "\<not> r < 0" "fd = t" "w' = w4"
      using run False unfolding setup_tun_def tun
      by (auto simp: up ad ro sys_after split: if_splits)
    note cases = this
    have netlink: "fresh_fds w2 \<and> (\<not> r < 0 \<longrightarrow> fds w' = (if fd = t then fds w2 else fds w2 - {t}))"
      by (cases rule: cases)
        (use fresh False set_default_ip_addr_fds [OF ad] set_default_route_fds [OF ro] in \<open>auto simp: after_fds\<close>)
    then have chf: "fresh_fds w1" "r \<in> {0, -1}" "ctl_left r w1 \<inter> fds w1 = {}" "fds w2 = fds w1 \<union> ctl_left r w1"
      using do_chflags_fds up unfolding set_int_up_def by blast+
    then have t: "t \<notin> fds w" "fds w1 = insert t (fds w)" using add_tun_fds [OF tun] False by auto
    show ?thesis
      by (cases rule: cases) (use netlink chf t False in \<open>auto simp: left after_fds ctl_left_def\<close>)
  qed
qed

end
