(* ===== verification/Vpn_Client.thy ===== *)
theory Vpn_Client
  imports Sockets Ip_Command
begin

text \<open>
  The client program \<^verbatim>\<open>src/src/client/main.c\<close>: it sets up the tun device and then forwards, without looking at
  them, packets of the device to the server and messages of the server to the device.
\<close>

section \<open>The program\<close>

abbreviation MAX_BUF :: int where "MAX_BUF \<equiv> 9000"
abbreviation LOCAL_PORT :: int where "LOCAL_PORT \<equiv> 8080"

record vpn_client =
  buf :: buf
  buf_len :: int
  raddr :: sockaddr_in
  udpfd :: int
  tunfd :: int

text \<open>Neither socket is checked.\<close>

definition init_vpn_client :: "(string \<Rightarrow> u32 option) \<Rightarrow> u16 \<Rightarrow> (nlreq \<Rightarrow> int \<Rightarrow> int \<Rightarrow> u8 list \<Rightarrow> int \<times> nlreq) \<Rightarrow>
    vpn_client \<Rightarrow> os \<Rightarrow> vpn_client \<times> os" where
  "init_vpn_client aton junk addattr c w = (
     let c = c\<lparr>buf_len := MAX_BUF\<rparr>;
         (_, ra) = fill_port_ip aton (raddr c) LOCAL_PORT ''127.0.0.1'';
         c = c\<lparr>raddr := ra\<rparr>;
         (fd, w) = get_udp_socket_client w;
         c = c\<lparr>udpfd := fd\<rparr>;
         (fd, w) = setup_tun junk addattr w
     in (c\<lparr>tunfd := fd\<rparr>, w))"

text \<open>\<^verbatim>\<open>read\<close> and \<^verbatim>\<open>write\<close> of a descriptor; the kernel may store up to \<open>n\<close> bytes, and fetches \<open>n\<close> bytes.\<close>

definition read_fd :: "int \<Rightarrow> u8 list \<Rightarrow> int \<Rightarrow> os \<Rightarrow> (int \<times> u8 list \<times> os) option" where
  "read_fd fd b n w =
     (if 0 \<le> n \<and> n \<le> int (length b) then let (r, w) = sys (Read fd n) w in Some (ret r, received r b, w) else None)"

definition write_fd :: "int \<Rightarrow> u8 list \<Rightarrow> int \<Rightarrow> os \<Rightarrow> (int \<times> os) option" where
  "write_fd fd b n w =
     (if 0 \<le> n \<and> n \<le> int (length b) then let (r, w) = sys (Write fd (take (nat n) b)) w in Some (ret r, w) else None)"

text \<open>The first half of an iteration: from the device to the server.\<close>

definition tun_half :: "vpn_client \<Rightarrow> os \<Rightarrow> (os + vpn_client \<times> os) option" where
  "tun_half c w = do {
     (ret, b, w) \<leftarrow> read_fd (tunfd c) (buf c) (buf_len c) w;
     let c = c\<lparr>buf := b\<rparr>;
     if ret < 0 then
       if errno w \<noteq> EAGAIN \<or> errno w \<noteq> EWOULDBLOCK then Some (Inl (perror ''tun read'' w)) else Some (Inr (c, w))
     else do {
       let w = printf (''tun read %d bytes'', [ret]) w;
       (ret, w) \<leftarrow> send_msg_udp (udpfd c) (buf c) ret (Some (raddr c)) w;
       if ret < 0 then Some (Inl (perror ''udp send'' w))
       else Some (Inr (c, printf (''udp sent %d bytes'', [ret]) w)) } }"

text \<open>The second half, from the label \<^verbatim>\<open>NEXT\<close> on: from the server to the device.\<close>

definition udp_half :: "vpn_client \<Rightarrow> os \<Rightarrow> (os + vpn_client \<times> os) option" where
  "udp_half c w = do {
     (ret, b, _, w) \<leftarrow> read_msg_udp (udpfd c) (buf c) (buf_len c) None w;
     let c = c\<lparr>buf := b\<rparr>;
     if ret < 0 then Some (Inl (perror ''udp read'' w))
     else if ret = 0 then Some (Inr (c, w))
     else do {
       let w = printf (''udp read %d bytes'', [ret]) w;
       (ret, w) \<leftarrow> write_fd (tunfd c) (buf c) ret w;
       if ret < 0 then Some (Inl (perror ''tun send'' w))
       else Some (Inr (c, printf (''tun sent %d bytes'', [ret]) w)) } }"

definition client_step :: "vpn_client \<Rightarrow> os \<Rightarrow> (os + vpn_client \<times> os) option" where
  "client_step c w = do {
     v \<leftarrow> tun_half c w;
     case v of Inl w \<Rightarrow> Some (Inl w) | Inr (c, w) \<Rightarrow> udp_half c w }"

section \<open>Outcomes\<close>

definition client_ok :: "vpn_client \<Rightarrow> bool" where
  "client_ok c \<longleftrightarrow> length (buf c) = 9000 \<and> buf_len c = MAX_BUF"

text \<open>The next two replies fit the buffer.\<close>

lemma tun_half_outcome:
  assumes ok: "client_ok c" and fits: "reply_fits MAX_BUF (replies w 0)"
  shows "\<exists>w'. tun_half c w = Some (
      if ret (replies w 0) < 0 then
        if err (replies w 0) = EAGAIN then Inr (c, w') else Inl w'
      else if ret (replies w 1) < 0 then Inl w'
      else Inr (c\<lparr>buf := received (replies w 0) (buf c)\<rparr>, w')) \<and>
    ran (Read (tunfd c) MAX_BUF # (if ret (replies w 0) < 0 then []
      else [Sendto_in (udpfd c) (bytes (replies w 0)) MSG_CONFIRM (Some (raddr c))])) w w'"
proof -
  let ?r = "replies w 0" and ?w = "after (Read (tunfd c) MAX_BUF) w"
  have len: "length (buf c) = 9000" "buf_len c = MAX_BUF" using ok by (simp_all add: client_ok_def)
  have rd: "read_fd (tunfd c) (buf c) (buf_len c) w = Some (ret ?r, received ?r (buf c), ?w)"
    using len by (simp add: read_fd_def sys_after)
  show ?thesis
  proof (cases "ret ?r < 0")
    case True
    then have "received ?r (buf c) = buf c" by (simp add: received_def)
    then show ?thesis
      using True by (intro exI [of _ "if err ?r = EAGAIN then ?w else perror ''tun read'' ?w"])
        (simp add: tun_half_def rd)
  next
    case False
    let ?send = "Sendto_in (udpfd c) (bytes ?r) MSG_CONFIRM (Some (raddr c))"
    let ?w1 = "printf (''tun read %d bytes'', [ret ?r]) ?w"
    have "take (nat (ret ?r)) (received ?r (buf c)) = bytes ?r" "ret ?r \<le> MAX_BUF"
      using received_prefix(1) [OF fits] fits False len(1) by (simp_all add: reply_fits_def)
    then have sd: "send_msg_udp (udpfd c) (received ?r (buf c)) (ret ?r) (Some (raddr c)) ?w1
        = Some (ret (replies w 1), after ?send ?w1)"
      using False len by (simp add: send_msg_udp_def sys_after)
    show ?thesis
      using False by (intro exI [of _ "if ret (replies w 1) < 0 then perror ''udp send'' (after ?send ?w1)
          else printf (''udp sent %d bytes'', [ret (replies w 1)]) (after ?send ?w1)"])
        (simp add: tun_half_def rd sd [simplified])
  qed
qed

lemma udp_half_outcome:
  assumes ok: "client_ok c" and fits: "reply_fits MAX_BUF (replies w 0)"
  shows "\<exists>w'. udp_half c w = Some (
      if received_length (replies w 0) < 0 then Inl w'
      else if 0 < received_length (replies w 0) \<and> ret (replies w 1) < 0 then Inl w'
      else Inr (c\<lparr>buf := received (replies w 0) (buf c)\<rparr>, w')) \<and>
    ran (Recvfrom (udpfd c) MAX_BUF MSG_DONTWAIT # (if received_length (replies w 0) \<le> 0 then []
      else [Write (tunfd c) (bytes (replies w 0))])) w w'"
proof -
  let ?r = "replies w 0" and ?c = "Recvfrom (udpfd c) MAX_BUF MSG_DONTWAIT" let ?w = "after ?c w"
  have len: "length (buf c) = 9000" "buf_len c = MAX_BUF" using ok by (simp_all add: client_ok_def)
  have rd: "read_msg_udp (udpfd c) (buf c) (buf_len c) None w = Some (received_length ?r, received ?r (buf c), None, ?w)"
    using read_msg_udp_outcome [of MAX_BUF "buf c" "udpfd c" None w] len by simp
  show ?thesis
  proof (cases "received_length ?r \<le> 0")
    case True
    then show ?thesis
      by (intro exI [of _ "if received_length ?r < 0 then perror ''udp read'' ?w else ?w"]) (simp add: udp_half_def rd)
  next
    case False
    then have r: "received_length ?r = ret ?r" "0 < ret ?r" by (simp_all add: received_length_def split: if_splits)
    let ?send = "Write (tunfd c) (bytes ?r)"
    let ?w1 = "printf (''udp read %d bytes'', [ret ?r]) ?w"
    have "take (nat (ret ?r)) (received ?r (buf c)) = bytes ?r" "ret ?r \<le> MAX_BUF"
      using received_prefix(1) [OF fits] fits r(2) len(1) by (simp_all add: reply_fits_def)
    then have sd: "write_fd (tunfd c) (received ?r (buf c)) (ret ?r) ?w1 = Some (ret (replies w 1), after ?send ?w1)"
      using r(2) len by (simp add: write_fd_def sys_after)
    show ?thesis
      using r by (intro exI [of _ "if ret (replies w 1) < 0 then perror ''tun send'' (after ?send ?w1)
          else printf (''tun sent %d bytes'', [ret (replies w 1)]) (after ?send ?w1)"])
        (simp add: udp_half_def rd sd [simplified])
  qed
qed

section \<open>The endless loop\<close>

fun client_loop :: "nat \<Rightarrow> vpn_client \<Rightarrow> os \<Rightarrow> (os + vpn_client \<times> os) option" where
  "client_loop 0 c w = Some (Inr (c, w))"
| "client_loop (Suc k) c w = do {
     v \<leftarrow> client_step c w;
     case v of Inl w \<Rightarrow> Some (Inl w) | Inr (c, w) \<Rightarrow> client_loop k c w }"

text \<open>The program up to the end of its \<open>k\<close>-th iteration.\<close>

definition client_main :: "(string \<Rightarrow> u32 option) \<Rightarrow> u16 \<Rightarrow> (nlreq \<Rightarrow> int \<Rightarrow> int \<Rightarrow> u8 list \<Rightarrow> int \<times> nlreq) \<Rightarrow> nat \<Rightarrow>
    vpn_client \<Rightarrow> os \<Rightarrow> (os + vpn_client \<times> os) option" where
  "client_main aton junk addattr k c w = (let (c, w) = init_vpn_client aton junk addattr c w in client_loop k c w)"

lemma client_ok_received [simp]: "client_ok (c\<lparr>buf := received r (buf c)\<rparr>) = client_ok c"
  by (simp add: client_ok_def)

lemma client_step_safe:
  assumes ok: "client_ok c" and fits: "\<And>j. reply_fits MAX_BUF (replies w j)"
  shows "\<exists>v. client_step c w = Some v \<and>
    (\<forall>c' w'. v = Inr (c', w') \<longrightarrow> client_ok c' \<and> (\<forall>j. reply_fits MAX_BUF (replies w' j)))"
proof -
  obtain w1 cs where t: "tun_half c w = Some (
      if ret (replies w 0) < 0 then
        if err (replies w 0) = EAGAIN then Inr (c, w1) else Inl w1
      else if ret (replies w 1) < 0 then Inl w1
      else Inr (c\<lparr>buf := received (replies w 0) (buf c)\<rparr>, w1))" "ran cs w w1"
    using tun_half_outcome [OF ok fits] by blast
  have fits1: "reply_fits MAX_BUF (replies w1 j)" for j using fits t(2) by (simp add: ran_def)
  have u: "\<exists>w2. udp_half c' w1 = Some (
      if received_length (replies w1 0) < 0 then Inl w2
      else if 0 < received_length (replies w1 0) \<and> ret (replies w1 1) < 0 then Inl w2
      else Inr (c'\<lparr>buf := received (replies w1 0) (buf c')\<rparr>, w2)) \<and> (\<exists>ds. ran ds w1 w2)" if "client_ok c'" for c'
    using udp_half_outcome [OF that fits1] by blast
  have fits2: "reply_fits MAX_BUF (replies w2 j)" if "ran ds w1 w2" for ds w2 j using fits1 that by (simp add: ran_def)
  consider w' where "tun_half c w = Some (Inl w')" | c' where "tun_half c w = Some (Inr (c', w1))" "client_ok c'"
    using t(1) ok by (auto split: if_splits)
  then show ?thesis
  proof cases
    case 1
    then show ?thesis by (simp add: client_step_def)
  next
    case (2 c')
    obtain w2 ds where "udp_half c' w1 = Some (
      if received_length (replies w1 0) < 0 then Inl w2
      else if 0 < received_length (replies w1 0) \<and> ret (replies w1 1) < 0 then Inl w2
      else Inr (c'\<lparr>buf := received (replies w1 0) (buf c')\<rparr>, w2))" "ran ds w1 w2" using u [OF 2(2)] by blast
    then show ?thesis using 2 fits2 by (auto simp: client_step_def)
  qed
qed

lemma client_loop_safe:
  assumes "client_ok c" and "\<And>j. reply_fits MAX_BUF (replies w j)"
  shows "\<exists>v. client_loop k c w = Some v \<and> (\<forall>c' w'. v = Inr (c', w') \<longrightarrow> client_ok c')"
  using assms
proof (induction k arbitrary: c w)
  case (Suc k)
  obtain v where v: "client_step c w = Some v"
    "\<forall>c' w'. v = Inr (c', w') \<longrightarrow> client_ok c' \<and> (\<forall>j. reply_fits MAX_BUF (replies w' j))"
    using client_step_safe [OF Suc.prems] by blast
  show ?case
  proof (cases v)
    case (Inr p)
    obtain c' w' where p: "p = (c', w')" by fastforce
    show ?thesis using Suc.IH [of c' w'] v by (simp add: Inr p)
  qed (use v in simp)
qed simp

end
