(* ===== verification/Client_Properties.thy ===== *)
theory Client_Properties
  imports Vpn_Client
begin

text \<open>
  The properties of the socket layer, of the interface set-up and of the client program: outcomes of the receive
  functions, descriptors on every path, the messages of the set-up, and the forwarding of packets.
\<close>

section \<open>Sockets\<close>

definition ex_addr :: sockaddr_in where
  "ex_addr = \<lparr>sin_family = AF_INET, sin_port = 0x901f, sin_addr = 0x0100007f\<rparr>"

definition ex_reply :: "int \<Rightarrow> int \<Rightarrow> u8 list \<Rightarrow> u8 \<Rightarrow> reply" where
  "ex_reply n e bs kind = \<lparr>ret = n, err = e, bytes = bs, from_in = ex_addr,
     from_ll = \<lparr>sll_family = AF_PACKET, sll_protocol = 8, sll_ifindex = 2, sll_hatype = 1, sll_pkttype = kind, sll_halen = 6,
       sll_addr = replicate 8 1\<rparr>, if_flags = 0x1002, handle_fd = 9\<rparr>"

definition ex_os :: "reply list \<Rightarrow> os" where
  "ex_os rs = \<lparr>replies = (\<lambda>j. if j < length rs then rs ! j else ex_reply (-1) EAGAIN [] 0), calls = [], out = [], errno = 0,
     fds = {0, 1, 2}, fresh_fds = True\<rparr>"

text \<open>
  \<^verbatim>\<open>read_msg_udp\<close> on every outcome of \<^verbatim>\<open>recvfrom\<close>: 0 when there is no message (an empty message gives 0 too), \<open>-1\<close> on
  every other error, and else the number of bytes, which are at the start of the buffer with the rest
  of it unchanged.
\<close>

theorem read_msg_udp_outcomes:
  assumes "0 \<le> n" and "n \<le> int (length b)" and "reply_fits n (replies w 0)"
  shows "\<exists>k b' ra' w'. read_msg_udp fd b n ra w = Some (k, b', ra', w') \<and>
    calls w' = calls w @ [Recvfrom fd n MSG_DONTWAIT] \<and> length b' = length b \<and>
    (if ret (replies w 0) < 0 then k = (if err (replies w 0) = EAGAIN then 0 else -1) \<and> b' = b \<and> ra' = ra
     else k = ret (replies w 0) \<and> b' = bytes (replies w 0) @ drop (nat k) b \<and> ra' = map_option (\<lambda>_. from_in (replies w 0)) ra)"
proof -
  let ?r = "replies w 0"
  have "received ?r b = bytes ?r @ drop (nat (ret ?r)) b" if "0 \<le> ret ?r"
    using received_prefix [OF assms(3) that assms(2)] append_take_drop_id [of "nat (ret ?r)" "received ?r b"] by simp
  moreover have "received ?r b = b" if "ret ?r < 0" using that by (simp add: received_def)
  ultimately show ?thesis
    using read_msg_udp_outcome [OF assms(1,2), of fd ra w] length_received [of ?r b]
    by (auto simp: received_length_def not_less)
qed

theorem read_msg_udp_outcomes_witness:
  "\<exists>w'. read_msg_udp 3 [9, 9, 9, 9] 4 None (ex_os [ex_reply 2 0 [1, 2] 0]) = Some (2, [1, 2, 9, 9], None, w')"
  using read_msg_udp_outcomes [of 4 "[9, 9, 9, 9]" "ex_os [ex_reply 2 0 [1, 2] 0]" 3 None]
  by (auto simp: ex_os_def ex_reply_def reply_fits_def numeral_eq_Suc)

text \<open>
  C33. \<^verbatim>\<open>get_ip_packet\<close> ends as soon as the raw socket has a packet for this host, or nothing: after \<open>k\<close> packets that
  are for other hosts it makes exactly one more call, and returns the next packet, 0 if there is none and \<open>-1\<close> on an error.
\<close>

theorem get_ip_packet_returns:
  assumes "0 \<le> n" and "n \<le> int (length b)" and "\<And>j. j < k \<Longrightarrow> skipped (replies w j)" and "\<not> skipped (replies w k)"
    and "reply_fits n (replies w k)" and "sll_ok (from_ll (replies w k))"
  shows "\<exists>m b' l' w'. get_ip_packet fd b n ll w = Some (m, b', l', w') \<and> length b' = length b \<and>
    calls w' = calls w @ replicate (Suc k) (Recvfrom fd n MSG_DONTWAIT) \<and>
    (if ret (replies w k) < 0 then m = (if err (replies w k) = EAGAIN then 0 else -1)
     else m = ret (replies w k) \<and> take (nat m) b' = bytes (replies w k))"
proof -
  obtain b' l' w' where g: "get_ip_packet fd b n ll w = Some (received_length (replies w k), b', l', w')" "length b' = length b"
    "ran (replicate (Suc k) (Recvfrom fd n MSG_DONTWAIT)) w w'"
    and b': "0 \<le> ret (replies w k) \<longrightarrow> (\<exists>b0. length b0 = length b \<and> b' = received (replies w k) b0)"
    using get_ip_packet_ran [OF assms(1-4,6)] by blast
  have "take (nat (ret (replies w k))) b' = bytes (replies w k)" if pos: "0 \<le> ret (replies w k)"
  proof -
    obtain b0 where b0: "length b0 = length b" "b' = received (replies w k) b0" using b' pos by blast
    have "n \<le> int (length b0)" using assms(2) b0(1) by simp
    then show ?thesis using received_prefix(1) [OF assms(5) pos] b0(2) by blast
  qed
  then show ?thesis
    using g by (auto simp: ran_def received_length_def not_less simp del: replicate_Suc)
qed

theorem get_ip_packet_returns_witness:
  "\<exists>b' l' w'. get_ip_packet 4 [9, 9, 9] 3 None (ex_os [ex_reply 2 0 [1, 2] 3, ex_reply 1 0 [7] 0]) = Some (1, b', l', w') \<and>
    take (nat 1) b' = [7]"
proof -
  let ?w = "ex_os [ex_reply 2 0 [1, 2] 3, ex_reply 1 0 [7] 0]"
  have skip: "\<And>j. j < 1 \<Longrightarrow> skipped (replies ?w j)" "\<not> skipped (replies ?w 1)" "reply_fits 3 (replies ?w 1)"
    "sll_ok (from_ll (replies ?w 1))"
    "ret (replies ?w 1) = 1" "bytes (replies ?w 1) = [7]"
    by (simp_all add: ex_os_def ex_reply_def skipped_def reply_fits_def sll_ok_def)
  from get_ip_packet_returns [of 3 "[9, 9, 9]", OF _ _ skip(1-4), of 4 None] show ?thesis
    unfolding skip(5,6) by auto
qed

text \<open>
  Descriptors of the two server sockets: on success exactly the returned descriptor is new. On failure the raw
  socket leaves none open, while the UDP socket is left open when \<^verbatim>\<open>bind\<close> fails.
\<close>

theorem server_sockets_descriptors:
  assumes "fresh_fds w" and "fresh_fds (snd (get_vpn_raw_socket w))"
  shows "fds (snd (get_vpn_raw_socket w))
      = (if 0 \<le> fst (get_vpn_raw_socket w) then insert (fst (get_vpn_raw_socket w)) (fds w) else fds w) \<and>
    fds (snd (get_udp_socket_server port w))
      = (if 0 \<le> ret (replies w 0) then insert (ret (replies w 0)) (fds w) else fds w) \<and>
    fst (get_udp_socket_server port w)
      = (if ret (replies w 0) \<noteq> -1 \<and> ret (replies w 1) = 0 then ret (replies w 0) else -1)"
  using assms by (auto simp: get_vpn_raw_socket_def get_udp_socket_server_def sys_after after_fds Let_def split: if_splits)

theorem server_sockets_descriptors_witness:
  "fst (get_udp_socket_server 8080 (ex_os [ex_reply 3 0 [] 0, ex_reply (-1) 98 [] 0])) = -1 \<and>
    fds (snd (get_udp_socket_server 8080 (ex_os [ex_reply 3 0 [] 0, ex_reply (-1) 98 [] 0]))) = {0, 1, 2, 3} \<and>
    fds (snd (get_vpn_raw_socket (ex_os [ex_reply 3 0 [] 0, ex_reply (-1) 98 [] 0]))) = {0, 1, 2}"
proof -
  let ?w = "ex_os [ex_reply 3 0 [] 0, ex_reply (-1) 98 [] 0]"
  have w: "fresh_fds ?w" "fresh_fds (snd (get_vpn_raw_socket ?w))" "fst (get_vpn_raw_socket ?w) = -1"
    by (simp_all add: ex_os_def ex_reply_def get_vpn_raw_socket_def sys_after after_fds)
  have r: "ret (replies ?w 0) = 3" "ret (replies ?w 1) = -1" "fds ?w = {0, 1, 2}" by (simp_all add: ex_os_def ex_reply_def)
  show ?thesis using server_sockets_descriptors [OF w(1,2), of 8080] unfolding r w(3) by auto
qed

section \<open>The tun device\<close>

lemma up_flag:
  fixes f :: u16
  shows "((scast f XOR IFF_UP) AND IFF_UP \<noteq> 0) = (\<not> bit f 0)"
    and "ucast (scast (ucast (scast f AND NOT IFF_UP) :: u16) OR (IFF_UP AND IFF_UP)) = f OR 1"
proof -
  have b: "bit (scast f :: u32) n = bit f n" if "n < 16" for n
    using that by (simp add: bit_simps)
  have "(scast f XOR IFF_UP) AND IFF_UP = (if bit f 0 then 0 else 1)"
    by (rule bit_word_eqI) (auto simp: bit_simps b)
  then show "((scast f XOR IFF_UP) AND IFF_UP \<noteq> 0) = (\<not> bit f 0)" by simp
  show "ucast (scast (ucast (scast f AND NOT IFF_UP) :: u16) OR (IFF_UP AND IFF_UP)) = f OR 1"
    by (rule bit_word_eqI) (auto simp: bit_simps)
qed

text \<open>
  Bringing an interface up changes the flag \<^verbatim>\<open>IFF_UP\<close> only, and writes the flags back only when it was down: the 16 bit
  field survives the sign extension to the 32 bit masks and back. When the kernel refuses, the control socket is not closed.
\<close>

theorem set_int_up_calls:
  assumes "0 \<le> ret (replies w 0)" and "ret (replies w 1) = 0"
  shows "let fd = ret (replies w 0); f = if_flags (replies w 1); name = take IFNAMSIZ dev;
      ask = [Socket AF_INET SOCK_DGRAM 0, Ioctl_SIOCGIFFLAGS fd name]; r = set_int_up dev w
    in if bit f 0 then fst r = 0 \<and> calls (snd r) = calls w @ ask @ [Close fd]
       else if ret (replies w 2) = 0
       then fst r = 0 \<and> calls (snd r) = calls w @ ask @ [Ioctl_SIOCSIFFLAGS fd name (f OR 1), Close fd]
       else fst r = -1 \<and> calls (snd r) = calls w @ ask @ [Ioctl_SIOCSIFFLAGS fd name (f OR 1)]"
proof -
  have ctl: "get_ctl_fd w = (ret (replies w 0), after (Socket AF_INET SOCK_DGRAM 0) w)"
    using assms(1) by (simp add: get_ctl_fd_def sys_after)
  have n: "replies w 1 = replies w (Suc 0)" "replies w 2 = replies w (Suc (Suc 0))" by (simp_all add: numeral_2_eq_2)
  obtain up f where f: "bit (if_flags (replies w (Suc 0))) 0 = up" "if_flags (replies w (Suc 0)) OR 1 = f" by blast
  obtain fd where fd: "ret (replies w 0) = fd" "\<not> fd < 0" using assms(1) by auto
  have ok: "ret (replies w (Suc 0)) = 0" using assms(2) by simp
  note run = set_int_up_def do_chflags_def ctl Let_def prod.case sys_after up_flag after_effects n f fd ok
  note steps = fst_conv snd_conv after_effects if_True if_False simp_thms fd append_assoc append_Cons append_Nil
  consider up | "up = False" "ret (replies w (Suc (Suc 0))) = 0" | "up = False" "ret (replies w (Suc (Suc 0))) \<noteq> 0" by blast
  then show ?thesis
  proof cases
    case 1
    then have "up = True" by simp
    show ?thesis unfolding run \<open>up = True\<close> by (simp only: steps)
  next
    case 2
    show ?thesis unfolding run 2 by (simp only: steps)
  next
    case 3
    then have "(ret (replies w (Suc (Suc 0))) = 0) = False" by simp
    then show ?thesis unfolding run 3(1) by (simp only: steps)
  qed
qed

theorem set_int_up_calls_witness:
  "calls (snd (set_int_up ''tun0'' (ex_os [ex_reply 3 0 [] 0, ex_reply 0 0 [] 0, ex_reply 0 0 [] 0])))
    = [Socket AF_INET SOCK_DGRAM 0, Ioctl_SIOCGIFFLAGS 3 ''tun0'', Ioctl_SIOCSIFFLAGS 3 ''tun0'' 0x1003, Close 3]"
proof -
  let ?w = "ex_os [ex_reply 3 0 [] 0, ex_reply 0 0 [] 0, ex_reply 0 0 [] 0]"
  have r: "ret (replies ?w 0) = 3" "ret (replies ?w 1) = 0" "ret (replies ?w 2) = 0" "if_flags (replies ?w 1) = 0x1002"
    "calls ?w = []"
    by (simp_all add: ex_os_def ex_reply_def)
  have f: "\<not> bit (0x1002 :: u16) 0" "(0x1002 :: u16) OR 1 = 0x1003" by simp_all
  show ?thesis
    using set_int_up_calls [of ?w "''tun0''"] unfolding r Let_def f by simp
qed

text \<open>
  C34. The descriptors open after setting up the tun device, netlink sockets included. When it succeeds exactly the returned descriptor is
  new. When it fails it returns \<open>-1\<close>, the device and every netlink socket are closed again, and exactly one descriptor is
  left if the device was opened, a control socket was opened and the device could not be brought up: the control socket \<open>c\<close>,
  which \<^verbatim>\<open>do_chflags\<close> forgets; on every other failing path nothing is left.
\<close>

theorem setup_tun_descriptors:
  fixes junk w
  defines "w1 \<equiv> snd (add_tun junk w)"
  defines "c \<equiv> fst (get_ctl_fd w1)"
  assumes "setup_tun junk addattr w = (fd, w')" and "fresh_fds w'"
  shows "if 0 \<le> fd then fd \<notin> fds w \<and> fds w' = insert fd (fds w)
    else fd = -1 \<and> (if 0 \<le> fst (add_tun junk w) \<and> fst (set_int_up ''benker-vpn-tun'' w1) \<noteq> 0 \<and> 0 \<le> c
      then c \<notin> fds w \<and> fds w' = insert c (fds w) else fds w' = fds w)"
  using setup_tun_fds [OF assms(3,4)] unfolding forgotten_def ctl_left_def Let_def case_prod_beta c_def w1_def
  by (auto split: if_splits)

text \<open>
  The second \<^verbatim>\<open>ioctl\<close> of \<^verbatim>\<open>do_chflags\<close> fails: descriptor 4 stays open. When the address is refused instead, nothing stays
  open.
\<close>

definition ex_refused :: "reply list" where
  "ex_refused = [ex_reply 3 0 [] 0, ex_reply 0 0 [] 0, ex_reply 4 0 [] 0, ex_reply 0 0 [] 0, ex_reply (-1) 1 [] 0]"

definition ex_no_address :: "reply list" where
  "ex_no_address = [ex_reply 3 0 [] 0, ex_reply 0 0 [] 0, ex_reply 4 0 [] 0, ex_reply 0 0 [] 0, ex_reply 0 0 [] 0,
     ex_reply 0 0 [] 0, ex_reply 0 0 [] 0, ex_reply 5 0 [] 0, ex_reply (-1) 1 [] 0]"

theorem setup_tun_descriptors_witness:
  "(\<exists>w'. setup_tun 0 (\<lambda>req _ _ _. (0, req)) (ex_os ex_refused) = (-1, w') \<and> fds w' = insert 4 {0, 1, 2}) \<and>
    (\<exists>w'. setup_tun 0 (\<lambda>req _ _ _. (0, req)) (ex_os ex_no_address) = (-1, w') \<and> fds w' = {0, 1, 2})"
proof (intro conjI)
  let ?add = "\<lambda>req _ _ _. (0 :: int, req)" and ?dev = "''benker-vpn-tun''"
  have f: "fds (ex_os rs) = {0, 1, 2}" for rs by (simp add: ex_os_def)
  have n: "\<not> 0 \<le> (-1 :: int)" by simp
  obtain w' where w': "setup_tun 0 ?add (ex_os ex_refused) = (fst (setup_tun 0 ?add (ex_os ex_refused)), w')"
    "w' = snd (setup_tun 0 ?add (ex_os ex_refused))" by simp
  have v: "fst (setup_tun 0 ?add (ex_os ex_refused)) = -1" "fresh_fds (snd (setup_tun 0 ?add (ex_os ex_refused)))"
    "0 \<le> fst (add_tun 0 (ex_os ex_refused)) \<and> fst (set_int_up ?dev (snd (add_tun 0 (ex_os ex_refused)))) \<noteq> 0 \<and>
      0 \<le> fst (get_ctl_fd (snd (add_tun 0 (ex_os ex_refused))))"
    "fst (get_ctl_fd (snd (add_tun 0 (ex_os ex_refused)))) = 4"
    by code_simp+
  show "\<exists>w'. setup_tun 0 ?add (ex_os ex_refused) = (-1, w') \<and> fds w' = insert 4 {0, 1, 2}"
    using setup_tun_descriptors [OF w'(1)] w' v(2) unfolding v(1) f using v(3) n unfolding v(4) by metis
next
  let ?add = "\<lambda>req _ _ _. (0 :: int, req)" and ?dev = "''benker-vpn-tun''"
  have f: "fds (ex_os rs) = {0, 1, 2}" for rs by (simp add: ex_os_def)
  have n: "\<not> 0 \<le> (-1 :: int)" by simp
  obtain w' where w': "setup_tun 0 ?add (ex_os ex_no_address) = (fst (setup_tun 0 ?add (ex_os ex_no_address)), w')"
    "w' = snd (setup_tun 0 ?add (ex_os ex_no_address))" by simp
  have v: "fst (setup_tun 0 ?add (ex_os ex_no_address)) = -1" "fresh_fds (snd (setup_tun 0 ?add (ex_os ex_no_address)))"
    "fst (set_int_up ?dev (snd (add_tun 0 (ex_os ex_no_address)))) = 0"
    by code_simp+
  show "\<exists>w'. setup_tun 0 ?add (ex_os ex_no_address) = (-1, w') \<and> fds w' = {0, 1, 2}"
    using setup_tun_descriptors [OF w'(1)] w' v(2) unfolding v(1) f using v(3) n by metis
qed

section \<open>The client program\<close>

lemma client_step_forwards:
  assumes "client_ok c" and "reply_fits MAX_BUF (replies w 0)" and "reply_fits MAX_BUF (replies w 2)"
    and "0 \<le> ret (replies w 0)" and "0 \<le> ret (replies w 1)" and "0 < ret (replies w 2)" and "0 \<le> ret (replies w 3)"
  shows "\<exists>c' w'. client_step c w = Some (Inr (c', w')) \<and> client_ok c' \<and>
    udpfd c' = udpfd c \<and> tunfd c' = tunfd c \<and> raddr c' = raddr c \<and>
    calls w' = calls w @ [Read (tunfd c) MAX_BUF, Sendto_in (udpfd c) (bytes (replies w 0)) MSG_CONFIRM (Some (raddr c)),
      Recvfrom (udpfd c) MAX_BUF MSG_DONTWAIT, Write (tunfd c) (bytes (replies w 2))]"
proof -
  let ?c = "c\<lparr>buf := received (replies w 0) (buf c)\<rparr>"
  obtain w1 where t: "tun_half c w = Some (Inr (?c, w1))"
    "ran [Read (tunfd c) MAX_BUF, Sendto_in (udpfd c) (bytes (replies w 0)) MSG_CONFIRM (Some (raddr c))] w w1"
    using tun_half_outcome [OF assms(1,2)] assms(4,5) by auto
  have r: "replies w1 0 = replies w 2" "replies w1 1 = replies w 3"
    using t(2) by (simp_all add: ran_def numeral_2_eq_2 numeral_3_eq_3)
  have ok: "client_ok ?c" "reply_fits MAX_BUF (replies w1 0)" using assms(1,3) by (simp_all add: r)
  have n: "received_length (replies w 2) = ret (replies w 2)" using assms(6) by (simp add: received_length_def)
  obtain w2 where "udp_half ?c w1 = Some (Inr (?c\<lparr>buf := received (replies w 2) (buf ?c)\<rparr>, w2))"
    "ran [Recvfrom (udpfd c) MAX_BUF MSG_DONTWAIT, Write (tunfd c) (bytes (replies w 2))] w1 w2"
    using udp_half_outcome [OF ok] assms(6,7) unfolding r n by auto
  then show ?thesis
    using ran_trans [OF t(2)] t(1) assms(1) by (fastforce simp: client_step_def ran_def client_ok_def)
qed

text \<open>
  C29. The client forwards without change: an iteration in which the device has a packet and the server a message makes four
  calls, and sends exactly the bytes of the packet to the server and exactly the bytes of the message to the device.
\<close>

theorem client_forwards_unchanged:
  assumes "client_ok c" and "reply_fits MAX_BUF (replies w 0)" and "reply_fits MAX_BUF (replies w 2)"
    and "0 \<le> ret (replies w 0)" and "0 \<le> ret (replies w 1)" and "0 < ret (replies w 2)" and "0 \<le> ret (replies w 3)"
  shows "\<exists>c' w'. client_step c w = Some (Inr (c', w')) \<and> client_ok c' \<and>
    udpfd c' = udpfd c \<and> tunfd c' = tunfd c \<and> raddr c' = raddr c \<and>
    calls w' = calls w @ [Read (tunfd c) MAX_BUF, Sendto_in (udpfd c) (bytes (replies w 0)) MSG_CONFIRM (Some (raddr c)),
      Recvfrom (udpfd c) MAX_BUF MSG_DONTWAIT, Write (tunfd c) (bytes (replies w 2))]"
  using assms by (rule client_step_forwards)

definition ex_client :: vpn_client where
  "ex_client = \<lparr>buf = replicate 9000 0, buf_len = 9000, raddr = ex_addr, udpfd = 3, tunfd = 4\<rparr>"

lemma ex_client_ok: "client_ok ex_client"
  by (simp add: ex_client_def client_ok_def)

theorem client_forwards_unchanged_witness:
  "\<exists>c' w'. client_step ex_client (ex_os [ex_reply 2 0 [1, 2] 0, ex_reply 2 0 [] 0, ex_reply 3 0 [7, 8, 9] 0, ex_reply 3 0 [] 0])
      = Some (Inr (c', w')) \<and>
    calls w' = [Read 4 9000, Sendto_in 3 [1, 2] MSG_CONFIRM (Some ex_addr), Recvfrom 3 9000 MSG_DONTWAIT, Write 4 [7, 8, 9]]"
proof -
  let ?w = "ex_os [ex_reply 2 0 [1, 2] 0, ex_reply 2 0 [] 0, ex_reply 3 0 [7, 8, 9] 0, ex_reply 3 0 [] 0]"
  have r: "replies ?w 0 = ex_reply 2 0 [1, 2] 0" "replies ?w 1 = ex_reply 2 0 [] 0" "replies ?w 2 = ex_reply 3 0 [7, 8, 9] 0"
    "replies ?w 3 = ex_reply 3 0 [] 0" "calls ?w = []"
    by (simp_all add: ex_os_def)
  have p: "reply_fits MAX_BUF (replies ?w 0)" "reply_fits MAX_BUF (replies ?w 2)" "0 \<le> ret (replies ?w 0)" "0 \<le> ret (replies ?w 1)"
    "0 < ret (replies ?w 2)" "0 \<le> ret (replies ?w 3)"
    unfolding r by (simp_all add: ex_reply_def reply_fits_def)
  have b: "bytes (ex_reply 2 0 [1, 2] 0) = [1, 2]" "bytes (ex_reply 3 0 [7, 8, 9] 0) = [7, 8, 9]" by (simp_all add: ex_reply_def)
  have c: "udpfd ex_client = 3" "tunfd ex_client = 4" "raddr ex_client = ex_addr" by (simp_all add: ex_client_def)
  show ?thesis
    using client_forwards_unchanged [OF ex_client_ok p] unfolding r b c append_Nil by blast
qed

text \<open>
  C30. The client never leaves the defined behaviour of C: from any contents of the stack, for any number of iterations,
  whatever the device and the server deliver, as long as no message is longer than the buffer. It goes on even when
  neither of its sockets could be opened.
\<close>

theorem client_main_safe:
  assumes "length (buf c) = 9000" and "\<And>j. reply_fits MAX_BUF (replies (snd (init_vpn_client aton junk addattr c w)) j)"
  shows "\<exists>v. client_main aton junk addattr k c w = Some v \<and> (\<forall>c' w'. v = Inr (c', w') \<longrightarrow> client_ok c')"
proof -
  obtain c1 w1 where i: "init_vpn_client aton junk addattr c w = (c1, w1)" by fastforce
  then have "client_ok c1"
    using assms(1) by (auto simp: init_vpn_client_def client_ok_def Let_def split: prod.splits)
  then show ?thesis
    using client_loop_safe [of c1 w1] assms(2) by (simp add: client_main_def i)
qed

text \<open>Every call fails: the client has the descriptors \<open>-1\<close> and leaves the loop at its first read.\<close>

theorem client_main_safe_witness:
  "\<exists>v. client_main (\<lambda>_. Some 0x0100007f) 0 (\<lambda>req _ _ _. (0, req)) 3 ex_client (ex_os []) = Some v"
proof -
  let ?add = "\<lambda>req _ _ _. (0 :: int, req)"
  have fits: "reply_fits MAX_BUF (replies (ex_os []) j)" for j by (simp add: ex_os_def ex_reply_def reply_fits_def)
  have fail: "fst (setup_tun junk add w) = -1 \<and> replies (snd (setup_tun junk add w)) = replies w"
    if "replies w = (\<lambda>j. r)" "ret r = -1" for junk add w r
    using that by (simp add: setup_tun_def add_tun_def sys_after Let_def)
  have r: "replies (ex_os []) = (\<lambda>j. ex_reply (-1) EAGAIN [] 0)" "ret (ex_reply (-1) EAGAIN [] 0) = -1"
    by (simp_all add: ex_os_def ex_reply_def)
  have "replies (snd (init_vpn_client (\<lambda>_. Some 0x0100007f) 0 ?add ex_client (ex_os []))) = replies (ex_os [])"
    using fail [of "after (Socket AF_INET SOCK_DGRAM 0) (ex_os [])" "ex_reply (-1) EAGAIN [] 0" 0 ?add]
    by (simp add: init_vpn_client_def get_udp_socket_client_def sys_after r case_prod_beta Let_def)
  then have "reply_fits MAX_BUF (replies (snd (init_vpn_client (\<lambda>_. Some 0x0100007f) 0 ?add ex_client (ex_os []))) j)" for j
    using fits by simp
  moreover have "length (buf ex_client) = 9000" by (simp add: ex_client_def)
  ultimately show ?thesis using client_main_safe by blast
qed

end
