(* ===== verification/Trial.thy ===== *)
theory Trial
  imports Sockets Ip_Command Table_Sweep
begin

text \<open>
  The parts of the trial programs \<^verbatim>\<open>src/src/server/main_trial.c\<close> and \<^verbatim>\<open>src/src/client/main_trial.c\<close> that use no packet
  handler: the decoder of hexadecimal packet dumps, the allocation of a tun device, the life cycle of a
  session table, and the receive loop.
\<close>

section \<open>Packet dumps\<close>

text \<open>A C string is a list of characters; its terminating null byte can be read, nothing behind it can.\<close>

definition str_at :: "string \<Rightarrow> nat \<Rightarrow> char option" where
  "str_at s i = (if i < length s then Some (s ! i) else if i = length s then Some (CHR 0x00) else None)"

text \<open>The switch of \<^verbatim>\<open>decode_to_bytes\<close>: what a character adds to the result; any other character adds nothing.\<close>

definition digit :: "char \<Rightarrow> u8" where
  "digit c = (case map_of (zip ''0123456789abcdef'' [0, 1, 2, 3, 4, 5, 6, 7, 8, 9, 10, 11, 12, 13, 14, 15]) c of
     Some v \<Rightarrow> v | None \<Rightarrow> 0)"

function decode_loop :: "string \<Rightarrow> nat \<Rightarrow> nat \<Rightarrow> u8 \<Rightarrow> u8 option" where
  "decode_loop s p i result =
     (if i < 2 then do {
        c \<leftarrow> str_at s p;
        let result = result + digit c;
        let result = (if i + 1 = 1 then push_bit 4 result else result);
        decode_loop s (p + 1) (i + 1) result }
      else Some result)"
  by pat_completeness auto
termination
  by (relation "measure (\<lambda>(s, p, i, r). 2 - i)") auto

declare decode_loop.simps [simp del]

definition decode_to_bytes :: "string \<Rightarrow> nat \<Rightarrow> u8 option" where
  "decode_to_bytes s p = decode_loop s p 0 0"

text \<open>The loop around it, which the trial repeats for each packet: \<open>i\<close> bytes are decoded.\<close>

function decode_packet :: "string \<Rightarrow> nat \<Rightarrow> nat \<Rightarrow> buf \<Rightarrow> buf option" where
  "decode_packet s p i b =
     (if i < length s div 2 then do {
        v \<leftarrow> decode_to_bytes s p;
        b \<leftarrow> st8 b i v;
        decode_packet s (p + 2) (i + 1) b }
      else Some b)"
  by pat_completeness auto
termination
  by (relation "measure (\<lambda>(s, p, i, b). length s div 2 - i)") auto

declare decode_packet.simps [simp del]

text \<open>The reference: a byte as \<^verbatim>\<open>printf("%02x")\<close> prints it, and a dump of bytes as the server prints it.\<close>

definition hex_digit :: "nat \<Rightarrow> char" where
  "hex_digit n = ''0123456789abcdef'' ! n"

definition hex_byte :: "u8 \<Rightarrow> string" where
  "hex_byte v = [hex_digit (unat v div 16), hex_digit (unat v mod 16)]"

definition hex_dump :: "buf \<Rightarrow> string" where
  "hex_dump bs = concat (map hex_byte bs)"

lemma digit_hex: "n < 16 \<Longrightarrow> digit (hex_digit n) = of_nat n"
proof -
  have "\<forall>n \<in> {..<16}. digit (hex_digit n) = of_nat n" by code_simp
  then show "n < 16 \<Longrightarrow> ?thesis" by simp
qed

lemma length_hex_dump [simp]: "length (hex_dump bs) = 2 * length bs"
  by (induction bs) (simp_all add: hex_dump_def hex_byte_def)

lemma decode_to_bytes_value:
  assumes "p + 1 < length s"
  shows "decode_to_bytes s p = Some (push_bit 4 (digit (s ! p)) + digit (s ! (p + 1)))"
  using assms by (simp add: decode_to_bytes_def decode_loop.simps [of s] str_at_def numeral_2_eq_2)

lemma decode_hex_byte:
  fixes v :: u8
  shows "push_bit 4 (digit (hex_digit (unat v div 16))) + digit (hex_digit (unat v mod 16)) = v"
proof -
  have lt: "unat v div 16 < 16" using unat_u8_bound [of v] by (simp add: div_less_iff_less_mult)
  have "unat (push_bit 4 (of_nat (unat v div 16)) + of_nat (unat v mod 16) :: u8) = unat v"
    using lt unat_u8_bound [of v] mult_div_mod_eq [of 16 "unat v"]
    by (simp add: push_bit_eq_mult unat_word_ariths unat_of_nat)
  then show ?thesis
    using lt by (simp add: digit_hex word_unat_eq_iff)
qed

lemma hex_dump_nth:
  assumes "i < length bs"
  shows "hex_dump bs ! (2 * i) = hex_digit (unat (bs ! i) div 16)"
    "hex_dump bs ! (2 * i + 1) = hex_digit (unat (bs ! i) mod 16)"
  using assms
proof (induction bs arbitrary: i)
  case (Cons x bs)
  have c: "hex_dump (x # bs) = hex_byte x @ hex_dump bs" by (simp add: hex_dump_def)
  { case 1 then show ?case using Cons.IH(1) by (cases i) (simp_all add: c hex_byte_def) }
  { case 2 then show ?case using Cons.IH(2) by (cases i) (simp_all add: c hex_byte_def) }
qed simp_all

lemma decode_packet_step:
  assumes "i \<le> length bs" and "length bs \<le> length b" and "take i b = take i bs"
  shows "decode_packet (hex_dump bs) (2 * i) i b = Some (bs @ drop (length bs) b)"
  using assms
proof (induction "length bs - i" arbitrary: i b)
  case 0
  then show ?case
    by (subst decode_packet.simps) (simp, metis append_take_drop_id le_antisym)
next
  case (Suc k)
  then have i: "i < length bs" by simp
  then have v: "decode_to_bytes (hex_dump bs) (2 * i) = Some (bs ! i)"
    using decode_to_bytes_value [of "2 * i" "hex_dump bs"] hex_dump_nth [OF i] decode_hex_byte by simp
  have b: "st8 b i (bs ! i) = Some (b[i := bs ! i])" using i Suc.prems by (simp add: st8_Some)
  have "take (i + 1) (b[i := bs ! i]) = take (i + 1) bs"
    using i Suc.prems by (simp add: take_Suc_conv_app_nth)
  then have "decode_packet (hex_dump bs) (2 * (i + 1)) (i + 1) (b[i := bs ! i]) = Some (bs @ drop (length bs) (b[i := bs ! i]))"
    using Suc i by (intro Suc.hyps(1)) simp_all
  then show ?case
    using i by (subst decode_packet.simps) (simp add: v b)
qed

section \<open>A tun device\<close>

text \<open>
  \<open>named\<close> is what \<^verbatim>\<open>TUNSETIFF\<close> leaves in \<^verbatim>\<open>ifr_name\<close> for a requested name. \<open>dev\<close> is the string in the caller's
  array of \<open>cap\<close> characters, which \<^verbatim>\<open>strcpy\<close> may overrun.
\<close>

definition tun_alloc :: "(string \<Rightarrow> string) \<Rightarrow> string \<Rightarrow> nat \<Rightarrow> os \<Rightarrow> (int \<times> string \<times> os) option" where
  "tun_alloc named dev cap w = (
     let (r, w) = sys (Open ''/dev/net/tun'' 2) w; fd = ret r
     in if fd < 0 then Some (-1, dev, w)
        else let name = (if dev \<noteq> [] then take IFNAMSIZ dev else []);
                 (r, w) = sys (Ioctl_TUNSETIFF fd name IFF_TUN) w
        in if ret r < 0 then let (_, w) = sys (Close fd) w in Some (ret r, dev, w)
        else if length (named name) < cap then Some (fd, named name, w) else None)"

text \<open>It leaves a descriptor open exactly when it returns it.\<close>

lemma tun_alloc_fds:
  assumes "tun_alloc named dev cap w = Some (fd, dev', w')" and "fresh_fds w'"
  shows "fds w' = (if 0 \<le> fd then insert fd (fds w) else fds w) \<and> (0 \<le> fd \<longrightarrow> length dev' < cap)"
  using assms by (auto simp: tun_alloc_def sys_simps split: if_splits)

section \<open>The life of a session table\<close>

text \<open>\<^verbatim>\<open>main4\<close>: ten sessions are added to a fresh table, which is printed and deleted. \<open>counts\<close> are the values of the
  uninitialised counter of \<^verbatim>\<open>add_tcp_session\<close>.\<close>

function main4_adds :: "(nat \<Rightarrow> int) \<Rightarrow> nat \<Rightarrow> heap \<Rightarrow> session_hash_table \<Rightarrow> os \<Rightarrow>
    (heap \<times> session_hash_table \<times> os) option" where
  "main4_adds counts i h t w =
     (if i < 10 then do {
        (session, h, t) \<leftarrow> add_tcp_session (counts i) h t (of_nat i) (of_nat i) (int i);
        case session of
          None \<Rightarrow> Some (h, t, printf (''No available port'', []) w)
        | Some _ \<Rightarrow> main4_adds counts (i + 1) h t w }
      else Some (h, t, w))"
  by pat_completeness auto
termination
  by (relation "measure (\<lambda>(counts, i, h, t, w). 10 - i)") auto

declare main4_adds.simps [simp del]

definition main4 :: "(nat \<Rightarrow> int) \<Rightarrow> heap \<Rightarrow> os \<Rightarrow> (int \<times> heap \<times> os) option" where
  "main4 counts h w = do {
     let t = init_hash_table 100 10000 10010;
     (h, t, w) \<leftarrow> main4_adds counts 0 h t w;
     let w = snd (sys (Sleep 2) w);
     (out, h) \<leftarrow> print_session_hash_table h t;
     let w = fold printf out w;
     (h, _) \<leftarrow> delete_hash_table h t;
     Some (0, h, w) }"

lemma main4_adds_rep:
  assumes "table_rep h t cc sc" and "owned h cc sc" and "mod_num t \<noteq> 0" and "\<And>j. counts j < 2 ^ 31 - 1"
  shows "\<exists>h' t' w' cc' sc'. main4_adds counts i h t w = Some (h', t', w') \<and> table_rep h' t' cc' sc' \<and> owned h' cc' sc' \<and>
    calls w' = calls w"
  using assms
proof (induction "10 - i" arbitrary: i h t w cc sc)
  case 0
  then show ?case by (subst main4_adds.simps) auto
next
  case (Suc k)
  then have i: "i < 10" by simp
  obtain r h1 t1 where run: "add_tcp_session (counts i) h t (of_nat i) (of_nat i) (int i) = Some (r, h1, t1)"
    using add_tcp_session_total [OF Suc.prems(1,3) Suc.prems(4) [of i]] by fastforce
  obtain cc1 sc1 where rep1: "table_rep h1 t1 cc1 sc1" "owned h1 cc1 sc1" "mod_num t1 \<noteq> 0"
    using Suc.prems(1) run
  proof (cases rule: add_tcp_session_elim)
    case (no_port n)
    then show thesis using that [of cc sc] Suc.prems(1-3) by simp
  qed (use that Suc.prems in auto)
  show ?case
  proof (cases r)
    case None
    then show ?thesis using i run rep1 by (subst main4_adds.simps) auto
  next
    case (Some s)
    have "k = 10 - (i + 1)" using Suc.hyps(2) by simp
    from Suc.hyps(1) [OF this rep1 Suc.prems(4), of w] show ?thesis
      using i run Some by (subst main4_adds.simps) simp
  qed
qed

lemma table_rep_ticks: "table_rep ((tick ^^ k) h) t cc sc = table_rep h t cc sc"
  by (induction k) simp_all

lemma owned_ticks: "owned ((tick ^^ k) h) cc sc = owned h cc sc"
  by (simp add: owned_def tick_power)

text \<open>Printing and deleting a table that owns the heap leaves nothing on it.\<close>

lemma print_and_delete:
  assumes rep: "table_rep h t cc sc" and own: "owned h cc sc"
  shows "\<exists>out h1 h2 t2. print_session_hash_table h t = Some (out, h1) \<and> delete_hash_table h1 t = Some (h2, t2) \<and>
    nodes h2 = Map.empty \<and> sessions h2 = Map.empty"
proof -
  obtain out k where p: "print_session_hash_table h t = Some (out, (tick ^^ k) h)"
    using print_session_hash_table_rep [OF rep] by blast
  have "table_rep ((tick ^^ k) h) t cc sc" using rep by (simp only: table_rep_ticks)
  note d = delete_hash_table_rep [OF this]
  have dom: "dom (nodes h) = cells (concat cc) \<union> cells (concat sc)" "dom (sessions h) = cell_sessions cc"
    using own by (simp_all only: owned_def)
  let ?h = "free_cells ((tick ^^ k) h) (cells (concat cc) \<union> cells (concat sc)) (cell_sessions cc)"
  have "nodes ?h = Map.empty" "sessions ?h = Map.empty"
    unfolding dom [symmetric] by (auto simp: free_cells_def tick_power restrict_map_def fun_eq_iff)
  then show ?thesis using p d by blast
qed

lemma main4_outcome:
  assumes "nodes h = Map.empty" and "sessions h = Map.empty" and "\<And>j. counts j < 2 ^ 31 - 1"
  shows "\<exists>h' w'. main4 counts h w = Some (0, h', w') \<and> nodes h' = Map.empty \<and> sessions h' = Map.empty \<and>
    calls w' = calls w @ [Sleep 2]"
proof -
  let ?t = "init_hash_table 100 10000 10010"
  have rep: "table_rep h ?t (replicate (nat 100) []) (replicate (nat 100) [])"
    using assms(1,2) by (intro init_hash_table_rep) simp_all
  have "owned h (replicate (nat 100) []) (replicate (nat 100) [])" using assms(1,2) by (simp add: owned_def)
  moreover have "mod_num ?t \<noteq> 0" by (simp add: init_hash_table_def)
  ultimately obtain h1 t1 w1 cc sc where a: "main4_adds counts 0 h ?t w = Some (h1, t1, w1)" "table_rep h1 t1 cc sc"
    "owned h1 cc sc" "calls w1 = calls w"
    using main4_adds_rep [OF rep] assms(3) by blast
  obtain out h2 h3 t3 where p: "print_session_hash_table h1 t1 = Some (out, h2)" "delete_hash_table h2 t1 = Some (h3, t3)"
    "nodes h3 = Map.empty" "sessions h3 = Map.empty"
    using print_and_delete [OF a(2,3)] by blast
  have "main4 counts h w = Some (0, h3, fold printf out (after (Sleep 2) w1))"
    unfolding main4_def Let_def a(1) bind.bind_lunit prod.case after_def [symmetric] p(1,2) ..
  moreover have "calls (fold printf out (after (Sleep 2) w1)) = calls w @ [Sleep 2]"
    using a(4) by (simp add: fold_printf)
  ultimately show ?thesis using p(3,4) by blast
qed

section \<open>The client's receive loop\<close>

abbreviation TRIAL_BUF :: int where "TRIAL_BUF \<equiv> 3000"

text \<open>
  The loop closes its socket after a message of more than ten bytes, and then reads from the closed descriptor until
  that fails. Addresses are printed as numbers here. \<open>secs\<close> is how long it sleeps before each message: \<^verbatim>\<open>main2\<close> of the server's
  trial file runs the same loop with another time.
\<close>

partial_function (option) trial_client_loop :: "int \<Rightarrow> int \<Rightarrow> buf \<Rightarrow> sockaddr_in \<Rightarrow> os \<Rightarrow> os option" where
  "trial_client_loop secs fd b ra w = (
     let (_, w) = sys (Sleep secs) w
     in do {
       (total_read, b, ra', w) \<leftarrow> read_msg_udp fd b TRIAL_BUF (Some ra) w;
       if 0 \<le> total_read then
         let ra = the ra';
             w = fold printf [(''dst ip: %s'', [uint (sin_addr ra)]), (''dst port: %d'', [uint (ntohs (sin_port ra))]),
                   (''msg read in bytes: %d'', [total_read]), ([], [])] w;
             w = (if total_read > 10 then snd (sys (Close fd) w) else w)
         in trial_client_loop secs fd b ra w
       else Some (perror ''read less than 0'' w) })"

declare trial_client_loop.simps [code]

definition trial_client :: "u16 \<Rightarrow> (nlreq \<Rightarrow> int \<Rightarrow> int \<Rightarrow> buf \<Rightarrow> int \<times> nlreq) \<Rightarrow> buf \<Rightarrow> os \<Rightarrow> (int \<times> os) option" where
  "trial_client junk addattr b w = (
     let (r, w) = setup_tun junk addattr w
     in if r \<noteq> 0 then Some (-1, printf (''fail to setup tun'', []) w)
        else let (fd, w) = get_udp_socket_server 8080 w; ra = \<lparr>sin_family = 0, sin_port = 0, sin_addr = 0\<rparr>
        in do { w \<leftarrow> trial_client_loop 2 fd b ra w; Some (0, w) })"

end
