(* ===== verification/Trial_Server.thy ===== *)
theory Trial_Server
  imports Trial Handler_Properties
begin

text \<open>
  The trial programs of \<^verbatim>\<open>src/src/server/main_trial.c\<close> that drive the packet handlers: a recorded TCP session (\<^verbatim>\<open>main5\<close>), a
  loop over the packets of a tun device (\<^verbatim>\<open>main\<close>), the sender of resets (\<^verbatim>\<open>main3\<close>) and the UDP receiver (\<^verbatim>\<open>main2\<close>). The file was
  written for handlers without the address arguments of \<^verbatim>\<open>packet_handler.h\<close>; the values that its calls
  lack are the parameters \<open>ip\<close> (the address of the server) and \<open>cip\<close> (what \<^verbatim>\<open>*client_ip\<close> holds) of the model.
\<close>

declare add_2_eq_Suc [simp del] add_2_eq_Suc' [simp del]

section \<open>A recorded session\<close>

text \<open>The local variables of \<^verbatim>\<open>main5\<close>, the heap and the system.\<close>

record trial_state =
  tbuf :: buf
  trst :: int
  tcip :: u32
  thp :: heap
  ttab :: session_hash_table
  tos :: os

definition main5_packets :: "string list" where
  "main5_packets = [
     ''4510003ce73b400040066479c0a80102ac43810980a00050c6510d3d00000000a002faf0f41e0000020405b40402080a3b0fda6a0000000001030307'',
     ''4500003400004000370654cdac438109c0a80102005080a01a8f34f6c6510d3e8012ffffdc3d000002040578010104020103030a'',
     ''45100028e73c40004006648cc0a80102ac43810980a00050c6510d3e1a8f34f7501001f61ae10000'',
     ''4510002de73d400040066486c0a80102ac43810980a00050c6510d3e1a8f34f7501801f614e10000fff4fffd06'',
     ''450000283159400037062380ac438109c0a80102005080a01a8f34f7c6510d43501000401c920000'',
     ''45000164315a400037062243ac438109c0a80102005080a01a8f34f7c6510d435018004026fb0000485454502f312e31203430302042616420526571756573740d0a5365727665723a20636c6f7564666c6172650d0a446174653a2053756e2c203130204a616e20323032312031333a34363a343720474d540d0a436f6e74656e742d547970653a20746578742f68746d6c0d0a436f6e74656e742d4c656e6774683a203135350d0a436f6e6e656374696f6e3a20636c6f73650d0a43462d5241593a202d0d0a0d0a3c68746d6c3e0d0a3c686561643e3c7469746c653e3430302042616420526571756573743c2f7469746c653e3c2f686561643e0d0a3c626f64793e0d0a3c63656e7465723e3c68313e3430302042616420526571756573743c2f68313e3c2f63656e7465723e0d0a3c68723e3c63656e7465723e636c6f7564666c6172653c2f63656e7465723e0d0a3c2f626f64793e0d0a3c2f68746d6c3e0d0a'',
     ''45100028e73e40004006648ac0a80102ac43810980a00050c6510d431a8f3633501001f419a20000'',
     ''45000028315b40003706237eac438109c0a80102005080a01a8f3633c6510d43501100401b550000'',
     ''45100028e73f400040066489c0a80102ac43810980a00050c6510d431a8f3634501101f5199f0000'',
     ''45000028315c40003706237dac438109c0a80102005080a01a8f3634c6510d44501000401b540000'']"

text \<open>One packet: it is decoded into the buffer and handled; \<open>msg\<close> is printed when the handler rejects it.\<close>

definition main5_client :: "u32 \<Rightarrow> int \<Rightarrow> string \<Rightarrow> printf_call \<Rightarrow> trial_state \<Rightarrow> trial_state option" where
  "main5_client ip count pkt msg \<sigma> = do {
     b \<leftarrow> decode_packet pkt 0 0 (tbuf \<sigma>);
     (v, rst, b, h, t) \<leftarrow> handle_client_packet count (thp \<sigma>) (ttab \<sigma>) b TRIAL_BUF ip (trst \<sigma>);
     Some \<lparr>tbuf = b, trst = rst, tcip = tcip \<sigma>, thp = h, ttab = t,
       tos = (if v \<noteq> VALID_SESSION then printf msg (tos \<sigma>) else tos \<sigma>)\<rparr> }"

definition main5_world :: "string \<Rightarrow> printf_call \<Rightarrow> trial_state \<Rightarrow> trial_state option" where
  "main5_world pkt msg \<sigma> = do {
     b \<leftarrow> decode_packet pkt 0 0 (tbuf \<sigma>);
     ms \<leftarrow> world_messages (thp \<sigma>) (ttab \<sigma>) b TRIAL_BUF;
     let w = fold printf ms (tos \<sigma>);
     (cip, v, rst, b, h, t) \<leftarrow> handle_world_packet (thp \<sigma>) (ttab \<sigma>) b TRIAL_BUF (trst \<sigma>) (tcip \<sigma>);
     Some \<lparr>tbuf = b, trst = rst, tcip = cip, thp = h, ttab = t,
       tos = (if v \<noteq> VALID_SESSION then printf msg w else w)\<rparr> }"

text \<open>The ten packets; \<open>counts\<close> are the values of the uninitialised counter of \<^verbatim>\<open>add_tcp_session\<close>.\<close>

definition main5_session :: "u32 \<Rightarrow> (nat \<Rightarrow> int) \<Rightarrow> trial_state \<Rightarrow> trial_state option" where
  "main5_session ip counts \<sigma> = do {
     \<sigma> \<leftarrow> main5_client ip (counts 0) (main5_packets ! 0) (''invalid session for 1st SYN'', []) \<sigma>;
     \<sigma> \<leftarrow> main5_world (main5_packets ! 1) (''invalid session for 2nd SYN'', []) \<sigma>;
     \<sigma> \<leftarrow> main5_client ip (counts 1) (main5_packets ! 2) (''invalid session for 2nd SYN ACK'', []) \<sigma>;
     \<sigma> \<leftarrow> main5_client ip (counts 2) (main5_packets ! 3) (''invalid session for normal data [%d]'', [3]) \<sigma>;
     \<sigma> \<leftarrow> main5_world (main5_packets ! 4) (''invalid session for normal data [%d]'', [4]) \<sigma>;
     \<sigma> \<leftarrow> main5_world (main5_packets ! 5) (''invalid session for normal data [%d]'', [5]) \<sigma>;
     \<sigma> \<leftarrow> main5_client ip (counts 3) (main5_packets ! 6) (''invalid session for normal data [%d]'', [6]) \<sigma>;
     \<sigma> \<leftarrow> main5_world (main5_packets ! 7) (''invalid session for 1st FIN'', []) \<sigma>;
     \<sigma> \<leftarrow> main5_client ip (counts 4) (main5_packets ! 8) (''invalid session for 2nd FIN'', []) \<sigma>;
     main5_world (main5_packets ! 9) (''invalid session for final ACK'', []) \<sigma> }"

definition main5 :: "u32 \<Rightarrow> u32 \<Rightarrow> (nat \<Rightarrow> int) \<Rightarrow> buf \<Rightarrow> int \<Rightarrow> heap \<Rightarrow> os \<Rightarrow> (int \<times> heap \<times> os) option" where
  "main5 ip cip counts b rst h w = do {
     let t = init_hash_table 100 32928 33000;
     \<sigma> \<leftarrow> main5_session ip counts \<lparr>tbuf = b, trst = rst, tcip = cip, thp = h, ttab = t, tos = w\<rparr>;
     (out, h) \<leftarrow> print_session_hash_table (thp \<sigma>) (ttab \<sigma>);
     let w = fold printf out (tos \<sigma>);
     (h, _) \<leftarrow> delete_hash_table h (ttab \<sigma>);
     Some (0, h, w) }"

section \<open>Packets of a tun device\<close>

text \<open>
  Each packet of the device comes behind a header of four bytes, which the handler does not see. A packet of two or three bytes gets a negative
  length.
\<close>

partial_function (option) trial_server_loop :: "u32 \<Rightarrow> (nat \<Rightarrow> int) \<Rightarrow> int \<Rightarrow> trial_state \<Rightarrow> trial_state option" where
  "trial_server_loop ip counts fd \<sigma> = (
     let (r, w) = sys (Read fd 2048) (tos \<sigma>); b = received r (tbuf \<sigma>); n = ret r
     in if n < 2 then Some (\<sigma>\<lparr>tbuf := b, tos := w\<rparr>)
        else if n \<le> int (length b) then do {
          let n = n - 4;
          let payload = drop 4 b;
          let w = fold printf ([(''len [%d]'', [n])] @ map (\<lambda>x. (''%02x'', [uint x])) (take (nat n) payload)) w;
          (v, rst, payload, h, t) \<leftarrow> handle_client_packet (counts 0) (thp \<sigma>) (ttab \<sigma>) payload n ip (trst \<sigma>);
          let w = printf (if v = INVALID_SESSION then (''session invalid'', []) else (''session is valid'', [])) w;
          let w = printf ([], []) w;
          (out, h) \<leftarrow> print_session_hash_table h t;
          trial_server_loop ip (\<lambda>j. counts (Suc j)) fd
            \<lparr>tbuf = take 4 b @ payload, trst = rst, tcip = tcip \<sigma>, thp = h, ttab = t, tos = fold printf out w\<rparr> }
        else None)"

declare trial_server_loop.simps [code]

definition trial_server :: "(string \<Rightarrow> string) \<Rightarrow> u32 \<Rightarrow> (nat \<Rightarrow> int) \<Rightarrow> buf \<Rightarrow> int \<Rightarrow> heap \<Rightarrow> os \<Rightarrow> os option" where
  "trial_server named ip counts b rst h w = do {
     (fd, dev, w) \<leftarrow> tun_alloc named ''tun0'' 5 w;
     let w = (if fd \<le> 0 then perror ''fail create tun'' w else w);
     let t = init_hash_table 10 10000 10002;
     \<sigma> \<leftarrow> trial_server_loop ip counts fd \<lparr>tbuf = b, trst = rst, tcip = 0, thp = h, ttab = t, tos = w\<rparr>;
     Some (snd (sys (Close fd) (tos \<sigma>))) }"

section \<open>Resets on the link layer\<close>

text \<open>
  \<^verbatim>\<open>main3\<close> calls the handler with NULL for the table: a packet that passes the validation is looked up through the null
  pointer, any other becomes a reset.
\<close>

definition handle_client_null :: "buf \<Rightarrow> int \<Rightarrow> (verdict \<times> int \<times> buf) option" where
  "handle_client_null b buffer_len = do {
     v \<leftarrow> validate_ip_tcp b buffer_len;
     case v of
       INVALID_IP_TCP \<Rightarrow> do { (n, b) \<leftarrow> fillin_reset b; Some (INVALID_SESSION, n, b) }
     | VALID_IP_TCP _ _ \<Rightarrow> None }"

text \<open>
  A frame of \<open>n\<close> bytes: destination, source and type, then the IP packet. The length handed to the handler is that of the
  frame.
\<close>

definition main3_frame :: "int \<Rightarrow> int \<Rightarrow> sockaddr_ll \<Rightarrow> int \<Rightarrow> buf \<Rightarrow> os \<Rightarrow> (sockaddr_ll \<times> int \<times> buf \<times> os) option" where
  "main3_frame sock n ll_addr temp b w = do {
     proto \<leftarrow> ld16 b 12;
     if htons proto = ETH_P_IP then do {
       (v, temp, p) \<leftarrow> handle_client_null (drop 14 b) n;
       let b = take 14 b @ p;
       if v = INVALID_SESSION then do {
         tempChar \<leftarrow> memcpy (replicate 6 0) 0 b 6 6;
         b \<leftarrow> memcpy b 6 b 0 6;
         b \<leftarrow> memcpy b 0 tempChar 0 6;
         addr \<leftarrow> memcpy (sll_addr ll_addr) 0 b 0 6;
         let ll_addr = ll_addr\<lparr>sll_addr := addr\<rparr>;
         let w = printf (''going to send %lu bytes'', [14 + temp]) w;
         if 0 \<le> 14 + temp \<and> 14 + temp \<le> int (length b) then
           let (r, w) = sys (Sendto_ll sock (take (nat (14 + temp)) b) 0 ll_addr) w
           in Some (ll_addr, temp, b, printf (''sent %d'', [ret r]) w)
         else None }
       else Some (ll_addr, temp, b, w) }
     else Some (ll_addr, temp, b, w) }"

partial_function (option) main3_loop :: "int \<Rightarrow> sockaddr_ll \<Rightarrow> int \<Rightarrow> buf \<Rightarrow> os \<Rightarrow> (int \<times> os) option" where
  "main3_loop sock ll_addr temp b w = (
     let (r, w) = sys (Recvfrom sock TRIAL_BUF 0) w; b = received r b
     in if ret r = -1 then Some (1, printf (''frame size -1'', []) w)
        else do {
          (ll_addr, temp, b, w) \<leftarrow> main3_frame sock (ret r) ll_addr temp b w;
          main3_loop sock ll_addr temp b w })"

declare main3_loop.simps [code]

definition main3 :: "int \<Rightarrow> buf \<Rightarrow> os \<Rightarrow> (int \<times> os) option" where
  "main3 temp b w = (
     let ll_addr = \<lparr>sll_family = AF_PACKET, sll_protocol = ETH_P_IP, sll_ifindex = 2, sll_hatype = 0, sll_pkttype = 0,
           sll_halen = 6, sll_addr = replicate 8 0\<rparr>;
         (r, w) = sys (Socket AF_PACKET SOCK_RAW (uint (htons ETH_P_IP))) w
     in if ret r = -1 then Some (1, perror ''Fail to create socket'' w)
        else main3_loop (ret r) ll_addr temp b w)"

section \<open>A UDP receiver\<close>

text \<open>\<^verbatim>\<open>main2\<close> passes a pointer where \<^verbatim>\<open>get_udp_socket_server\<close> takes a port; \<open>p\<close> is that pointer as a number.\<close>

definition main2 :: "int \<Rightarrow> buf \<Rightarrow> os \<Rightarrow> (int \<times> os) option" where
  "main2 p b w = (
     let (fd, w) = get_udp_socket_server p w; ra = \<lparr>sin_family = 0, sin_port = 0, sin_addr = 0\<rparr>
     in do { w \<leftarrow> trial_client_loop 10 fd b ra w; Some (0, w) })"

section \<open>Facts\<close>

lemma validate_negative:
  assumes "n < 0" and "- (2 ^ 31) \<le> n" and "120 \<le> length b"
  shows "validate_ip_tcp b n = Some INVALID_IP_TCP"
proof -
  have w: "\<not> of_int n < (of_nat k :: 64 word)" if "k \<le> 80" for k
  proof -
    have "n mod 2 ^ 64 = (n + 2 ^ 64) mod 2 ^ 64" by simp
    also have "\<dots> = n + 2 ^ 64" using assms(1,2) by (intro mod_pos_pos_trivial) simp_all
    finally have "uint (of_int n :: 64 word) = n + 2 ^ 64" by (simp add: uint_word_of_int)
    moreover have "uint (of_nat k :: 64 word) = int k" using that by (simp add: uint_nat unat_of_nat)
    ultimately show ?thesis using that assms(2) by (simp add: word_less_def)
  qed
  obtain v where v: "ip_ihl b 0 = Some v" "v < 16" using assms(3) by (cases b) (simp_all add: ip_ihl_Some)
  have "\<not> of_int n < (of_nat (v * 4) + of_nat sizeof_tcphdr :: 64 word)"
    using w [of "v * 4 + 20"] v(2) by simp
  moreover have "\<not> of_int n < (of_nat (sizeof_iphdr + sizeof_tcphdr) :: 64 word)" using w [of 40] by simp
  moreover have "ld8 b (0 + 9) = Some (b ! 9)" "ld16 b (0 + 2) = Some (le16 (b ! 2) (b ! 3))"
    using assms(3) ld16_Some [of 2 b] by (simp_all add: ld8_def numeral_3_eq_3)
  moreover have "n < uint (ntohs (le16 (b ! 2) (b ! 3)))" using assms(1) by (rule less_le_trans) simp
  ultimately show ?thesis
    unfolding validate_ip_tcp_def v(1) by (simp add: Let_def)
qed

text \<open>The handler with a length of any sign.\<close>

lemma handle_client_any_sign:
  assumes inv: "table_inv h t" and "mod_num t \<noteq> 0" "count < 2 ^ 31 - 1"
    and n: "- (2 ^ 31) \<le> n" "n < 2 ^ 31" "n \<le> int (length b)" and len: "120 \<le> length b"
  shows "\<exists>v r b' h' t'. handle_client_packet count h t b n vpn rst = Some (v, r, b', h', t') \<and> table_inv h' t' \<and>
    mod_num t' = mod_num t \<and> length b' = length b"
proof (cases "0 \<le> n")
  case True
  then show ?thesis using handle_client_any [OF assms(1-3) _ n(2,3) len, of vpn rst] by fastforce
next
  case False
  then have "validate_ip_tcp b n = Some INVALID_IP_TCP" using validate_negative n(1) len by simp
  moreover have "40 \<le> length b" using len by simp
  ultimately show ?thesis
    using reset_packet_total [of b h t] fillin_reset_correct [of b] inv handle_client_no_packet by auto
qed

text \<open>
  The loop over the device stays within the defined behaviour until a read returns less than two bytes, and then returns.
\<close>

lemma trial_server_loop_returns:
  assumes "ret (replies (tos \<sigma>) k) < 2" and "\<And>j. ret (replies (tos \<sigma>) j) \<le> 2048" and "length (tbuf \<sigma>) = 2048"
    and "table_inv (thp \<sigma>) (ttab \<sigma>)" and "mod_num (ttab \<sigma>) \<noteq> 0" and "\<And>j. counts j < 2 ^ 31 - 1"
  shows "\<exists>\<sigma>'. trial_server_loop ip counts fd \<sigma> = Some \<sigma>' \<and> table_inv (thp \<sigma>') (ttab \<sigma>')"
  using assms
proof (induction k arbitrary: \<sigma> counts)
  case 0
  then show ?case by (subst trial_server_loop.simps) (simp add: sys_after Let_def)
next
  case (Suc k)
  let ?r = "replies (tos \<sigma>) 0"
  let ?b = "received ?r (tbuf \<sigma>)"
  show ?case
  proof (cases "ret ?r < 2")
    case True
    then show ?thesis using Suc.prems(4) by (subst trial_server_loop.simps) (simp add: sys_after Let_def)
  next
    case False
    have n: "- (2 ^ 31) \<le> ret ?r - 4" "ret ?r - 4 < 2 ^ 31" "ret ?r - 4 \<le> int (length (drop 4 ?b))" "120 \<le> length (drop 4 ?b)"
      "ret ?r \<le> 2048"
      using Suc.prems(2) [of 0] Suc.prems(3) False by simp_all
    obtain v r p h t where run: "handle_client_packet (counts 0) (thp \<sigma>) (ttab \<sigma>) (drop 4 ?b) (ret ?r - 4) ip (trst \<sigma>)
        = Some (v, r, p, h, t)" and h: "table_inv h t" "mod_num t = mod_num (ttab \<sigma>)" "length p = 2044"
      using handle_client_any_sign [OF Suc.prems(4,5) Suc.prems(6) [of 0] n(1-4), where vpn = ip and rst = "trst \<sigma>"] Suc.prems(3) by auto
    obtain ls j where ls: "print_session_hash_table h t = Some (ls, (tick ^^ j) h)"
      using print_session_hash_table_total [OF h(1)] by blast
    let ?w = "after (Read fd 2048) (tos \<sigma>)"
    obtain w where w: "w = fold printf ([(''len [%d]'', [ret ?r - 4])] @
        map (\<lambda>x. (''%02x'', [uint x])) (take (nat (ret ?r - 4)) (drop 4 ?b))) ?w" by blast
    obtain w' where w': "w' = fold printf ls (printf ([], []) (printf (if v = INVALID_SESSION then (''session invalid'', [])
        else (''session is valid'', [])) w))" by blast
    let ?\<sigma> = "\<lparr>tbuf = take 4 ?b @ p, trst = r, tcip = tcip \<sigma>, thp = (tick ^^ j) h, ttab = t, tos = w'\<rparr>"
    have rs: "replies w' = (\<lambda>n. replies (tos \<sigma>) (Suc n))" by (simp add: w w' fold_printf)
    have "table_inv ((tick ^^ j) h) t" using h(1) by (induction j) simp_all
    then obtain \<sigma>' where "trial_server_loop ip (\<lambda>j. counts (Suc j)) fd ?\<sigma> = Some \<sigma>'" "table_inv (thp \<sigma>') (ttab \<sigma>')"
      using Suc.IH [of ?\<sigma> "\<lambda>j. counts (Suc j)"] Suc.prems h rs by auto
    moreover have "trial_server_loop ip counts fd \<sigma> = trial_server_loop ip (\<lambda>j. counts (Suc j)) fd ?\<sigma>"
      using False n(5) Suc.prems(3) unfolding w' w
      by (subst trial_server_loop.simps) (simp add: sys_after Let_def run ls)
    ultimately show ?thesis by metis
  qed
qed

text \<open>A rejected IP frame is answered with a reset of 40 bytes to the address it came from.\<close>

lemma main3_frame_reset:
  assumes "length b = 3000" and "length (sll_addr ll_addr) = 8" and "ld16 b 12 = Some proto" "htons proto = ETH_P_IP"
    and "validate_ip_tcp (drop 14 b) n = Some INVALID_IP_TCP"
  shows "\<exists>q b' w'. main3_frame sock n ll_addr temp b w
      = Some (ll_addr\<lparr>sll_addr := take 6 (drop 6 b) @ drop 6 (sll_addr ll_addr)\<rparr>, 40, b', w') \<and> length b' = 3000 \<and>
    calls w' = calls w @ [Sendto_ll sock q 0 (ll_addr\<lparr>sll_addr := take 6 (drop 6 b) @ drop 6 (sll_addr ll_addr)\<rparr>)] \<and>
    length q = 54 \<and> take 6 q = take 6 (drop 6 b) \<and> take 6 (drop 6 q) = take 6 b \<and> take 2 (drop 12 q) = take 2 (drop 12 b) \<and>
    fillin_reset (drop 14 b) = Some (40, drop 14 b')"
proof -
  have "40 \<le> length (drop 14 b)" using assms(1) by simp
  then obtain p where p: "fillin_reset (drop 14 b) = Some (40, p)" "length p = 2986"
    using fillin_reset_correct assms(1) by fastforce
  have null: "handle_client_null (drop 14 b) n = Some (INVALID_SESSION, 40, p)"
    by (simp add: handle_client_null_def assms(5) p(1))
  obtain d s t where b: "take 14 b = d @ s @ t" "take 6 b = d" "take 6 (drop 6 b) = s" "take 2 (drop 12 b) = t"
    and len: "length d = 6" "length s = 6" "length t = 2"
  proof
    have "take 14 b = take 6 b @ take 8 (drop 6 b)" using take_add [of 6 8 b] by simp
    also have "take 8 (drop 6 b) = take 6 (drop 6 b) @ take 2 (drop 12 b)" using take_add [of 6 2 "drop 6 b"] by simp
    finally show "take 14 b = take 6 b @ take 6 (drop 6 b) @ take 2 (drop 12 b)" .
  qed (use assms(1) in simp_all)
  let ?ll = "ll_addr\<lparr>sll_addr := s @ drop 6 (sll_addr ll_addr)\<rparr>" and ?q = "s @ d @ t @ take 40 p"
  let ?w = "after (Sendto_ll sock ?q 0 ?ll) (printf (''going to send %lu bytes'', [54]) w)"
  have copies: "memcpy (replicate 6 0) 0 ((d @ s @ t) @ p) 6 6 = Some s"
    "memcpy ((d @ s @ t) @ p) 6 ((d @ s @ t) @ p) 0 6 = Some (d @ d @ t @ p)"
    "memcpy (d @ d @ t @ p) 0 s 0 6 = Some (s @ d @ t @ p)"
    "memcpy (sll_addr ll_addr) 0 (s @ d @ t @ p) 0 6 = Some (s @ drop 6 (sll_addr ll_addr))"
    using len assms(2) by (simp_all add: memcpy_def)
  have send: "take 54 (s @ d @ t @ p) = ?q" "54 \<le> int (length (s @ d @ t @ p))" using len p(2) by simp_all
  have "main3_frame sock n ll_addr temp b w = Some (?ll, 40, s @ d @ t @ p, printf (''sent %d'', [ret (replies w 0)]) ?w)"
    unfolding main3_frame_def assms(3) bind.bind_lunit assms(4) if_P [OF refl] null prod.case Let_def b(1) copies sys_after
    using send by simp
  moreover have "length (s @ d @ t @ p) = 3000" "length ?q = 54" "take 6 ?q = s" "take 6 (drop 6 ?q) = d" "take 2 (drop 12 ?q) = t"
    "drop 14 (s @ d @ t @ p) = p"
    using len p(2) by simp_all
  ultimately show ?thesis
    unfolding b(2-4) by (intro exI [of _ ?q] exI conjI) (assumption | simp add: p(1))+
qed

end
