(* ===== verification/Recorded_Session.thy ===== *)
theory Recorded_Session
  imports Trial_Server
begin

text \<open>
  The recorded session of \<^verbatim>\<open>main5\<close> run through the handlers: every packet is accepted, and the session
  gets from the handshake to the end of both directions.
\<close>

declare add_2_eq_Suc [simp del] add_2_eq_Suc' [simp del]

section \<open>The packets\<close>

fun unhex :: "string \<Rightarrow> buf" where
  "unhex (c # d # r) = (push_bit 4 (digit c) + digit d) # unhex r"
| "unhex _ = []"

definition recorded :: "nat \<Rightarrow> buf" where
  "recorded i = unhex (main5_packets ! i)"

lemma recorded_dump: "i < 10 \<Longrightarrow> hex_dump (recorded i) = main5_packets ! i"
proof -
  have "list_all (\<lambda>i. hex_dump (recorded i) = main5_packets ! i) [0..<10]" by code_simp
  then show "i < 10 \<Longrightarrow> ?thesis" by (simp add: list_all_iff)
qed

lemma recorded_tcp:
  "tcp_packet (recorded 0) 60 5 10 60" "tcp_packet (recorded 1) 52 5 8 52" "tcp_packet (recorded 2) 40 5 5 40"
  "tcp_packet (recorded 3) 45 5 5 45" "tcp_packet (recorded 4) 40 5 5 40" "tcp_packet (recorded 5) 356 5 5 356"
  "tcp_packet (recorded 6) 40 5 5 40" "tcp_packet (recorded 7) 40 5 5 40" "tcp_packet (recorded 8) 40 5 5 40"
  "tcp_packet (recorded 9) 40 5 5 40"
  by code_simp+

lemma recorded_bytes:
  "length (recorded 0) = 60"
  "length (recorded 1) = 52"
  "length (recorded 2) = 40"
  "length (recorded 3) = 45"
  "length (recorded 4) = 40"
  "length (recorded 5) = 356"
  "length (recorded 6) = 40"
  "length (recorded 7) = 40"
  "length (recorded 8) = 40"
  "length (recorded 9) = 40"
  by code_simp+

lemma recorded_length:
  "int (length (recorded 0)) = 60"
  "int (length (recorded 1)) = 52"
  "int (length (recorded 2)) = 40"
  "int (length (recorded 3)) = 45"
  "int (length (recorded 4)) = 40"
  "int (length (recorded 5)) = 356"
  "int (length (recorded 6)) = 40"
  "int (length (recorded 7)) = 40"
  "int (length (recorded 8)) = 40"
  "int (length (recorded 9)) = 40"
  by (simp_all only: recorded_bytes of_nat_numeral)

text \<open>The client 192.168.1.2, port 32928, which the server gives the port 32928 too.\<close>

lemma recorded_ends:
  "src_ip (recorded 0) = 0xc0a80102" "src_port (recorded 0) 5 = 32928"
  "src_ip (recorded 2) = 0xc0a80102" "src_port (recorded 2) 5 = 32928"
  "src_ip (recorded 3) = 0xc0a80102" "src_port (recorded 3) 5 = 32928"
  "src_ip (recorded 6) = 0xc0a80102" "src_port (recorded 6) 5 = 32928"
  "src_ip (recorded 8) = 0xc0a80102" "src_port (recorded 8) 5 = 32928"
  "dst_port (recorded 1) 5 = 32928"
  "dst_port (recorded 4) 5 = 32928"
  "dst_port (recorded 5) 5 = 32928"
  "dst_port (recorded 7) 5 = 32928"
  "dst_port (recorded 9) 5 = 32928"
  by code_simp+

definition recorded_segment :: "bool \<Rightarrow> bool \<Rightarrow> bool \<Rightarrow> u32 \<Rightarrow> u32 \<Rightarrow> segment" where
  "recorded_segment s a f n m = \<lparr>syn = s, ack = a, fin = f, seq = n, ack_seq = m\<rparr>"

lemma recorded_flags:
  "read_segment (recorded 0) 20 = Some (recorded_segment True False False 0xc6510d3d 0)"
  "read_segment (recorded 1) 20 = Some (recorded_segment True True False 0x1a8f34f6 0xc6510d3e)"
  "read_segment (recorded 2) 20 = Some (recorded_segment False True False 0xc6510d3e 0x1a8f34f7)"
  "read_segment (recorded 3) 20 = Some (recorded_segment False True False 0xc6510d3e 0x1a8f34f7)"
  "read_segment (recorded 4) 20 = Some (recorded_segment False True False 0x1a8f34f7 0xc6510d43)"
  "read_segment (recorded 5) 20 = Some (recorded_segment False True False 0x1a8f34f7 0xc6510d43)"
  "read_segment (recorded 6) 20 = Some (recorded_segment False True False 0xc6510d43 0x1a8f3633)"
  "read_segment (recorded 7) 20 = Some (recorded_segment False True True 0x1a8f3633 0xc6510d43)"
  "read_segment (recorded 8) 20 = Some (recorded_segment False True True 0xc6510d43 0x1a8f3634)"
  "read_segment (recorded 9) 20 = Some (recorded_segment False True False 0x1a8f3634 0xc6510d44)"
  by code_simp+

section \<open>One packet\<close>

lemma read_segment_take:
  "p + 20 \<le> n \<Longrightarrow> n \<le> length b \<Longrightarrow> read_segment (take n b) p = read_segment b p"
  by (simp add: read_segment_def tcp_flag_Some ld32_take)

text \<open>A packet at the start of the buffer.\<close>

lemma placed:
  assumes pkt: "tcp_packet p m 5 doff tot" and m: "int (length p) = m" "m \<le> 3000" and "length b = 3000"
  obtains b0 where "decode_packet (hex_dump p) 0 0 b = Some b0" "length b0 = 3000" "tcp_packet b0 TRIAL_BUF 5 doff tot"
    "src_ip b0 = src_ip p" "src_port b0 5 = src_port p 5" "dst_port b0 5 = dst_port p 5"
    "read_segment b0 20 = read_segment p 20"
proof -
  let ?b = "p @ drop (length p) b" and ?n = "length p"
  have n: "?n \<le> 3000" using m by linarith
  have t: "take ?n ?b = p" "length ?b = 3000" using n assms(4) by simp_all
  have "40 \<le> ?n" using pkt packet_lengths(3) by (fastforce simp: tcp_packet_def)
  then have "read_segment (take ?n ?b) 20 = read_segment ?b 20" using t(2) n by (intro read_segment_take) simp_all
  moreover have "decode_packet (hex_dump p) 0 0 b = Some ?b"
    using decode_packet_step [of 0 p b] n assms(4) by simp
  moreover have "tcp_packet (take ?n ?b) (int ?n) 5 doff tot" using pkt t(1) m(1) by simp
  from tcp_packet_take [OF this, of TRIAL_BUF]
  have "tcp_packet ?b TRIAL_BUF 5 doff tot" "src_ip ?b = src_ip p" "src_port ?b 5 = src_port p 5" "dst_port ?b 5 = dst_port p 5"
    using t n by simp_all
  ultimately show thesis using that [of ?b] t by simp
qed

text \<open>The session \<open>x\<close> at \<open>s\<close> lives, in a well-formed table that owns the heap, and the clock does not reach its end.\<close>

definition session_runs :: "trial_state \<Rightarrow> addr \<Rightarrow> tcp_session \<Rightarrow> bool" where
  "session_runs \<sigma> s x \<longleftrightarrow> length (tbuf \<sigma>) = 3000 \<and> sessions (thp \<sigma>) s = Some x \<and> (\<forall>j. times (thp \<sigma>) j \<le> expire x) \<and>
     (\<exists>cc sc. table_rep (thp \<sigma>) (ttab \<sigma>) cc sc \<and> owned (thp \<sigma>) cc sc \<and> s \<in> cell_sessions cc)"

lemma session_runs_lookup:
  assumes "session_runs \<sigma> s x"
  shows "get_tcp_session_by_client (thp \<sigma>) (ttab \<sigma>) (client_ip x) (client_port x) = Some (Some s)"
    "get_tcp_session_by_server (thp \<sigma>) (ttab \<sigma>) (server_port x) = Some (Some s)"
    "sessions (thp \<sigma>) s = Some x" "time_NULL (thp \<sigma>) \<le> expire x" "table_inv (thp \<sigma>) (ttab \<sigma>)"
proof -
  obtain cc sc where r: "table_rep (thp \<sigma>) (ttab \<sigma>) cc sc" "s \<in> cell_sessions cc" and x: "sessions (thp \<sigma>) s = Some x"
    using assms by (auto simp: session_runs_def)
  show "get_tcp_session_by_client (thp \<sigma>) (ttab \<sigma>) (client_ip x) (client_port x) = Some (Some s)"
    "get_tcp_session_by_server (thp \<sigma>) (ttab \<sigma>) (server_port x) = Some (Some s)"
    using r(2) x by (simp_all add: get_by_client_iff [OF r(1)] get_by_server_iff [OF r(1)] client_key_def del: set_concat)
  show "sessions (thp \<sigma>) s = Some x" "time_NULL (thp \<sigma>) \<le> expire x" "table_inv (thp \<sigma>) (ttab \<sigma>)"
    using assms r(1) by (auto simp: session_runs_def time_NULL_def table_inv_def)
qed

lemma session_runs_next:
  assumes run: "session_runs \<sigma> s x" and y: "same_keys y x" "expire y = expire x" and "length b = 3000"
  shows "session_runs \<lparr>tbuf = b, trst = r, tcip = c, thp = put_session (tick (thp \<sigma>)) s y, ttab = ttab \<sigma>, tos = w\<rparr> s y"
proof -
  obtain cc sc where r: "table_rep (thp \<sigma>) (ttab \<sigma>) cc sc" "owned (thp \<sigma>) cc sc" "s \<in> cell_sessions cc"
    and x: "sessions (tick (thp \<sigma>)) s = Some x"
    using run by (auto simp: session_runs_def tick_def)
  have "table_rep (put_session (tick (thp \<sigma>)) s y) (ttab \<sigma>) cc sc" "owned (put_session (tick (thp \<sigma>)) s y) cc sc"
    using table_rep_put_session [OF _ x y(1)] owned_put_session [OF _ x] r by simp_all
  then show ?thesis
    using r(3) run y(2) assms(4) by (auto simp: session_runs_def put_session_def tick_def)
qed

lemma main5_client_step:
  assumes run: "session_runs \<sigma> s x" and dump: "hex_dump p = pkt"
    and pkt: "tcp_packet p m 5 doff tot" "int (length p) = m" "m \<le> 3000"
    and key: "src_ip p = client_ip x" "src_port p 5 = client_port x" and g: "read_segment p 20 = Some g"
  shows "\<exists>\<sigma>'. main5_client ip count pkt msg \<sigma> = Some \<sigma>' \<and> session_runs \<sigma>' s (client_flags g x) \<and> out (tos \<sigma>') = out (tos \<sigma>) \<and>
    calls (tos \<sigma>') = calls (tos \<sigma>)"
proof -
  have len: "length (tbuf \<sigma>) = 3000" using run by (simp add: session_runs_def)
  obtain b0 where b0: "decode_packet pkt 0 0 (tbuf \<sigma>) = Some b0" "length b0 = 3000" "tcp_packet b0 TRIAL_BUF 5 doff tot"
    "src_ip b0 = client_ip x" "src_port b0 5 = client_port x" "read_segment b0 20 = Some g"
    using placed [OF pkt len] unfolding dump key g by metis
  note look = session_runs_lookup [OF run]
  obtain b' where b': "handle_client_packet count (thp \<sigma>) (ttab \<sigma>) b0 TRIAL_BUF ip (trst \<sigma>)
      = Some (VALID_SESSION, trst \<sigma>, b', put_session (tick (thp \<sigma>)) s (client_flags g x), ttab \<sigma>)" "length b' = 3000"
    using handle_client_known [OF look(5) b0(3) _ look(3,4), of ip count "trst \<sigma>"] look(1)
      tcp_packet_rewrite(1) [OF b0(3), of ip "server_port x"] b0(2,4-6) by auto
  show ?thesis
    using b0(1) b'(1) session_runs_next [OF run flags_keep(1,3) b'(2)] by (simp add: main5_client_def)
qed

lemma main5_world_step:
  assumes run: "session_runs \<sigma> s x" and dump: "hex_dump p = pkt"
    and pkt: "tcp_packet p m 5 doff tot" "int (length p) = m" "m \<le> 3000"
    and key: "dst_port p 5 = server_port x" and g: "read_segment p 20 = Some g"
  shows "\<exists>\<sigma>'. main5_world pkt msg \<sigma> = Some \<sigma>' \<and> session_runs \<sigma>' s (world_flags g x) \<and>
    out (tos \<sigma>') = out (tos \<sigma>) @ [(''Debug searching world, tcp->dest %d'', [uint (server_port x)])] \<and>
    calls (tos \<sigma>') = calls (tos \<sigma>)"
proof -
  have len: "length (tbuf \<sigma>) = 3000" using run by (simp add: session_runs_def)
  obtain b0 where b0: "decode_packet pkt 0 0 (tbuf \<sigma>) = Some b0" "length b0 = 3000" "tcp_packet b0 TRIAL_BUF 5 doff tot"
    "dst_port b0 5 = server_port x" "read_segment b0 20 = Some g"
    using placed [OF pkt len] unfolding dump key g by metis
  note look = session_runs_lookup [OF run]
  have s: "get_tcp_session_by_server (thp \<sigma>) (ttab \<sigma>) (dst_port b0 5) = Some (Some s)" using look(2) b0(4) by simp
  obtain b' where b': "handle_world_packet (thp \<sigma>) (ttab \<sigma>) b0 TRIAL_BUF (trst \<sigma>) (tcip \<sigma>)
      = Some (client_ip x, VALID_SESSION, trst \<sigma>, b', put_session (tick (thp \<sigma>)) s (world_flags g x), ttab \<sigma>)" "length b' = 3000"
    using handle_world_known [OF b0(3) s look(3,4), of "trst \<sigma>" "tcip \<sigma>"]
      tcp_packet_rewrite(2) [OF b0(3), of "client_ip x" "client_port x"] b0(2,5) by auto
  show ?thesis
    using b0(1) b'(1) world_messages_known [OF b0(3) s look(3,4)] b0(4) session_runs_next [OF run flags_keep(2,4) b'(2)]
    by (simp add: main5_world_def)
qed

text \<open>The first packet creates the session.\<close>

lemma main5_first:
  assumes empty: "nodes h = Map.empty" "sessions h = Map.empty" and b: "length b = 3000" and time: "\<And>j. times h j \<le> times h 0 + 10"
  shows "\<exists>\<sigma>' s. main5_client ip count (main5_packets ! 0) msg
      \<lparr>tbuf = b, trst = rst, tcip = cip, thp = h, ttab = init_hash_table 100 32928 33000, tos = w\<rparr> = Some \<sigma>' \<and>
    session_runs \<sigma>' s ((new_session 0xc0a80102 32928 32928 (times h 0 + 10))\<lparr>client_last_state_seq := 0xc6510d3d\<rparr>) \<and>
    out (tos \<sigma>') = out w \<and> calls (tos \<sigma>') = calls w"
proof -
  let ?t = "init_hash_table 100 32928 33000"
  have rep: "table_rep h ?t (replicate (nat 100) []) (replicate (nat 100) [])"
    using empty by (intro init_hash_table_rep) simp_all
  have own: "owned h (replicate (nat 100) []) (replicate (nat 100) [])" using empty by (simp add: owned_def)
  have none: "get_tcp_session_by_client h ?t i p = Some None" "get_tcp_session_by_server h ?t q = Some None" for i p q
    unfolding no_session_iff [OF rep] by simp_all
  have t: "mod_num ?t \<noteq> 0" "next_port ?t = 32928" by (simp_all add: init_hash_table_def next_port_def)
  obtain b0 where b0: "decode_packet (main5_packets ! 0) 0 0 b = Some b0" "length b0 = 3000" "tcp_packet b0 TRIAL_BUF 5 10 60"
    "src_ip b0 = 0xc0a80102" "src_port b0 5 = 32928" "read_segment b0 20 = Some (recorded_segment True False False 0xc6510d3d 0)"
    using placed [of "recorded 0" 60 10 60 b] recorded_tcp(1) recorded_length(1) recorded_ends(1,2) recorded_flags(1)
      recorded_dump [of 0] b by auto
  let ?x = "new_session 0xc0a80102 32928 32928 (times h 0 + 10)"
  have x: "client_flags (recorded_segment True False False 0xc6510d3d 0) ?x = ?x\<lparr>client_last_state_seq := 0xc6510d3d\<rparr>"
    by (simp add: client_flags_def recorded_segment_def new_session_def zero_session_def)
  have syn: "syn (the (read_segment b0 (4 * 5)))" using b0(6) by (simp add: recorded_segment_def)
  obtain b' h' t' cc' sc' where run: "handle_client_packet count h ?t b0 TRIAL_BUF ip rst = Some (VALID_SESSION, rst, b', h', t')"
    and r: "length b' = 3000" "table_rep h' t' cc' sc'" "owned h' cc' sc'" "brk h \<in> cell_sessions cc'"
      "sessions h' (brk h) = Some (?x\<lparr>client_last_state_seq := 0xc6510d3d\<rparr>)" "times h' = (\<lambda>k. times h (k + 2))"
    using handle_client_new [OF rep own b0(3) syn t(1) none time, of count ip rst] b0(2,4-6) t(2) x
    by (auto simp del: set_concat)
  have "expire (?x\<lparr>client_last_state_seq := 0xc6510d3d\<rparr>) = times h 0 + 10" by (simp add: new_session_def)
  then show ?thesis
    using b0(1) run r time by (auto simp: main5_client_def session_runs_def simp del: set_concat)
qed

section \<open>The whole session\<close>

text \<open>What the handlers change in a session.\<close>

definition track :: "tcp_session \<Rightarrow> u8 \<times> u8 \<times> u8 \<times> u32 \<times> u32" where
  "track x = (syn_state x, client_fin_state x, server_fin_state x, client_last_state_seq x, server_last_state_seq x)"

lemma client_keeps: "same_keys x y \<Longrightarrow> same_keys (client_flags g x) y"
  using flags_keep(1) [of g x] by (simp add: same_keys_def)

lemma world_keeps: "same_keys x y \<Longrightarrow> same_keys (world_flags g x) y"
  using flags_keep(2) [of g x] by (simp add: same_keys_def)

lemma new_keys:
  assumes "same_keys x (new_session 0xc0a80102 32928 32928 e)"
  shows "client_ip x = 0xc0a80102" "client_port x = 32928" "server_port x = 32928"
  using assms by (simp_all add: same_keys_def new_session_def)

lemma main5_session_run:
  assumes empty: "nodes h = Map.empty" "sessions h = Map.empty" and b: "length b = 3000" and time: "\<And>j. times h j \<le> times h 0 + 10"
  shows "\<exists>\<sigma> s x. main5_session ip counts
      \<lparr>tbuf = b, trst = rst, tcip = cip, thp = h, ttab = init_hash_table 100 32928 33000, tos = w\<rparr> = Some \<sigma> \<and>
    session_runs \<sigma> s x \<and> same_keys x (new_session 0xc0a80102 32928 32928 (times h 0 + 10)) \<and>
    track x = (3, 2, 2, 0xc6510d43, 0x1a8f3633) \<and>
    out (tos \<sigma>) = out w @ replicate 5 (''Debug searching world, tcp->dest %d'', [32928]) \<and> calls (tos \<sigma>) = calls w"
proof -
  let ?new = "new_session 0xc0a80102 32928 32928 (times h 0 + 10)" and ?m = "(''Debug searching world, tcp->dest %d'', [32928])"
  obtain x0 where x0: "x0 = ?new\<lparr>client_last_state_seq := 0xc6510d3d\<rparr>" by blast
  have t0: "track x0 = (0, 0, 0, 0xc6510d3d, 0)" and k0: "same_keys x0 ?new"
    by (simp_all add: x0 track_def new_session_def zero_session_def same_keys_def)
  obtain \<sigma>0 s where s0: "main5_client ip (counts 0) (main5_packets ! 0) (''invalid session for 1st SYN'', [])
      \<lparr>tbuf = b, trst = rst, tcip = cip, thp = h, ttab = init_hash_table 100 32928 33000, tos = w\<rparr> = Some \<sigma>0"
    "session_runs \<sigma>0 s x0" "out (tos \<sigma>0) = out w" "calls (tos \<sigma>0) = calls w"
    using main5_first [OF assms] unfolding x0 by blast
  obtain x1 where x1: "world_flags (recorded_segment True True False 0x1a8f34f6 0xc6510d3e) x0 = x1" by blast
  have t1: "track x1 = (2, 0, 0, 0xc6510d3d, 0x1a8f34f6)" using t0 unfolding x1 [symmetric] by (simp add: track_def flags_defs recorded_segment_def)
  have k1: "same_keys x1 ?new" unfolding x1 [symmetric] by (rule world_keeps [OF k0])
  obtain \<sigma>1 where s1: "main5_world (main5_packets ! 1) (''invalid session for 2nd SYN'', []) \<sigma>0 = Some \<sigma>1" "session_runs \<sigma>1 s x1"
    "out (tos \<sigma>1) = out (tos \<sigma>0) @ [?m]" "calls (tos \<sigma>1) = calls (tos \<sigma>0)"
    using main5_world_step [OF s0(2) recorded_dump recorded_tcp(2) recorded_length(2) _ _ recorded_flags(2), unfolded x1]
      recorded_ends(11) new_keys [OF k0] by force
  obtain x2 where x2: "client_flags (recorded_segment False True False 0xc6510d3e 0x1a8f34f7) x1 = x2" by blast
  have t2: "track x2 = (3, 0, 0, 0xc6510d3d, 0x1a8f34f6)" using t1 unfolding x2 [symmetric] by (simp add: track_def flags_defs recorded_segment_def)
  have k2: "same_keys x2 ?new" unfolding x2 [symmetric] by (rule client_keeps [OF k1])
  obtain \<sigma>2 where s2: "main5_client ip (counts 1) (main5_packets ! 2) (''invalid session for 2nd SYN ACK'', []) \<sigma>1 = Some \<sigma>2" "session_runs \<sigma>2 s x2"
    "out (tos \<sigma>2) = out (tos \<sigma>1)" "calls (tos \<sigma>2) = calls (tos \<sigma>1)"
    using main5_client_step [OF s1(2) recorded_dump recorded_tcp(3) recorded_length(3) _ _ _ recorded_flags(3), unfolded x2]
      recorded_ends(3,4) new_keys [OF k1] by force
  obtain x3 where x3: "client_flags (recorded_segment False True False 0xc6510d3e 0x1a8f34f7) x2 = x3" by blast
  have t3: "track x3 = (3, 0, 0, 0xc6510d3d, 0x1a8f34f6)" using t2 unfolding x3 [symmetric] by (simp add: track_def flags_defs recorded_segment_def)
  have k3: "same_keys x3 ?new" unfolding x3 [symmetric] by (rule client_keeps [OF k2])
  obtain \<sigma>3 where s3: "main5_client ip (counts 2) (main5_packets ! 3) (''invalid session for normal data [%d]'', [3]) \<sigma>2 = Some \<sigma>3" "session_runs \<sigma>3 s x3"
    "out (tos \<sigma>3) = out (tos \<sigma>2)" "calls (tos \<sigma>3) = calls (tos \<sigma>2)"
    using main5_client_step [OF s2(2) recorded_dump recorded_tcp(4) recorded_length(4) _ _ _ recorded_flags(4), unfolded x3]
      recorded_ends(5,6) new_keys [OF k2] by force
  obtain x4 where x4: "world_flags (recorded_segment False True False 0x1a8f34f7 0xc6510d43) x3 = x4" by blast
  have t4: "track x4 = (3, 0, 0, 0xc6510d3d, 0x1a8f34f6)" using t3 unfolding x4 [symmetric] by (simp add: track_def flags_defs recorded_segment_def)
  have k4: "same_keys x4 ?new" unfolding x4 [symmetric] by (rule world_keeps [OF k3])
  obtain \<sigma>4 where s4: "main5_world (main5_packets ! 4) (''invalid session for normal data [%d]'', [4]) \<sigma>3 = Some \<sigma>4" "session_runs \<sigma>4 s x4"
    "out (tos \<sigma>4) = out (tos \<sigma>3) @ [?m]" "calls (tos \<sigma>4) = calls (tos \<sigma>3)"
    using main5_world_step [OF s3(2) recorded_dump recorded_tcp(5) recorded_length(5) _ _ recorded_flags(5), unfolded x4]
      recorded_ends(12) new_keys [OF k3] by force
  obtain x5 where x5: "world_flags (recorded_segment False True False 0x1a8f34f7 0xc6510d43) x4 = x5" by blast
  have t5: "track x5 = (3, 0, 0, 0xc6510d3d, 0x1a8f34f6)" using t4 unfolding x5 [symmetric] by (simp add: track_def flags_defs recorded_segment_def)
  have k5: "same_keys x5 ?new" unfolding x5 [symmetric] by (rule world_keeps [OF k4])
  obtain \<sigma>5 where s5: "main5_world (main5_packets ! 5) (''invalid session for normal data [%d]'', [5]) \<sigma>4 = Some \<sigma>5" "session_runs \<sigma>5 s x5"
    "out (tos \<sigma>5) = out (tos \<sigma>4) @ [?m]" "calls (tos \<sigma>5) = calls (tos \<sigma>4)"
    using main5_world_step [OF s4(2) recorded_dump recorded_tcp(6) recorded_length(6) _ _ recorded_flags(6), unfolded x5]
      recorded_ends(13) new_keys [OF k4] by force
  obtain x6 where x6: "client_flags (recorded_segment False True False 0xc6510d43 0x1a8f3633) x5 = x6" by blast
  have t6: "track x6 = (3, 0, 0, 0xc6510d3d, 0x1a8f34f6)" using t5 unfolding x6 [symmetric] by (simp add: track_def flags_defs recorded_segment_def)
  have k6: "same_keys x6 ?new" unfolding x6 [symmetric] by (rule client_keeps [OF k5])
  obtain \<sigma>6 where s6: "main5_client ip (counts 3) (main5_packets ! 6) (''invalid session for normal data [%d]'', [6]) \<sigma>5 = Some \<sigma>6" "session_runs \<sigma>6 s x6"
    "out (tos \<sigma>6) = out (tos \<sigma>5)" "calls (tos \<sigma>6) = calls (tos \<sigma>5)"
    using main5_client_step [OF s5(2) recorded_dump recorded_tcp(7) recorded_length(7) _ _ _ recorded_flags(7), unfolded x6]
      recorded_ends(7,8) new_keys [OF k5] by force
  obtain x7 where x7: "world_flags (recorded_segment False True True 0x1a8f3633 0xc6510d43) x6 = x7" by blast
  have t7: "track x7 = (3, 1, 0, 0xc6510d3d, 0x1a8f3633)" using t6 unfolding x7 [symmetric] by (simp add: track_def flags_defs recorded_segment_def)
  have k7: "same_keys x7 ?new" unfolding x7 [symmetric] by (rule world_keeps [OF k6])
  obtain \<sigma>7 where s7: "main5_world (main5_packets ! 7) (''invalid session for 1st FIN'', []) \<sigma>6 = Some \<sigma>7" "session_runs \<sigma>7 s x7"
    "out (tos \<sigma>7) = out (tos \<sigma>6) @ [?m]" "calls (tos \<sigma>7) = calls (tos \<sigma>6)"
    using main5_world_step [OF s6(2) recorded_dump recorded_tcp(8) recorded_length(8) _ _ recorded_flags(8), unfolded x7]
      recorded_ends(14) new_keys [OF k6] by force
  obtain x8 where x8: "client_flags (recorded_segment False True True 0xc6510d43 0x1a8f3634) x7 = x8" by blast
  have t8: "track x8 = (3, 2, 1, 0xc6510d43, 0x1a8f3633)" using t7 unfolding x8 [symmetric] by (simp add: track_def flags_defs recorded_segment_def)
  have k8: "same_keys x8 ?new" unfolding x8 [symmetric] by (rule client_keeps [OF k7])
  obtain \<sigma>8 where s8: "main5_client ip (counts 4) (main5_packets ! 8) (''invalid session for 2nd FIN'', []) \<sigma>7 = Some \<sigma>8" "session_runs \<sigma>8 s x8"
    "out (tos \<sigma>8) = out (tos \<sigma>7)" "calls (tos \<sigma>8) = calls (tos \<sigma>7)"
    using main5_client_step [OF s7(2) recorded_dump recorded_tcp(9) recorded_length(9) _ _ _ recorded_flags(9), unfolded x8]
      recorded_ends(9,10) new_keys [OF k7] by force
  obtain x9 where x9: "world_flags (recorded_segment False True False 0x1a8f3634 0xc6510d44) x8 = x9" by blast
  have t9: "track x9 = (3, 2, 2, 0xc6510d43, 0x1a8f3633)" using t8 unfolding x9 [symmetric] by (simp add: track_def flags_defs recorded_segment_def)
  have k9: "same_keys x9 ?new" unfolding x9 [symmetric] by (rule world_keeps [OF k8])
  obtain \<sigma>9 where s9: "main5_world (main5_packets ! 9) (''invalid session for final ACK'', []) \<sigma>8 = Some \<sigma>9" "session_runs \<sigma>9 s x9"
    "out (tos \<sigma>9) = out (tos \<sigma>8) @ [?m]" "calls (tos \<sigma>9) = calls (tos \<sigma>8)"
    using main5_world_step [OF s8(2) recorded_dump recorded_tcp(10) recorded_length(10) _ _ recorded_flags(10), unfolded x9]
      recorded_ends(15) new_keys [OF k8] by force
  have "main5_session ip counts
      \<lparr>tbuf = b, trst = rst, tcip = cip, thp = h, ttab = init_hash_table 100 32928 33000, tos = w\<rparr> = Some \<sigma>9"
    unfolding main5_session_def by (simp only: bind.bind_lunit s0(1) s1(1) s2(1) s3(1) s4(1) s5(1) s6(1) s7(1) s8(1) s9(1))
  moreover have "out (tos \<sigma>9) = out w @ replicate 5 ?m" "calls (tos \<sigma>9) = calls w"
    by (simp_all add: s0(3,4) s1(3,4) s2(3,4) s3(3,4) s4(3,4) s5(3,4) s6(3,4) s7(3,4) s8(3,4) s9(3,4) numeral_eq_Suc)
  ultimately show ?thesis using s9(2) k9 t9 by blast
qed

lemma main5_outcome:
  assumes "nodes h = Map.empty" "sessions h = Map.empty" and "length b = 3000" and "\<And>j. times h j \<le> times h 0 + 10"
  shows "\<exists>\<sigma> s x h' w'. main5_session ip counts
      \<lparr>tbuf = b, trst = rst, tcip = cip, thp = h, ttab = init_hash_table 100 32928 33000, tos = w\<rparr> = Some \<sigma> \<and>
    get_tcp_session_by_client (thp \<sigma>) (ttab \<sigma>) 0xc0a80102 32928 = Some (Some s) \<and> sessions (thp \<sigma>) s = Some x \<and>
    (syn_state x, client_fin_state x, server_fin_state x) = (3, 2, 2) \<and>
    out (tos \<sigma>) = out w @ replicate 5 (''Debug searching world, tcp->dest %d'', [32928]) \<and>
    main5 ip cip counts b rst h w = Some (0, h', w') \<and> nodes h' = Map.empty \<and> sessions h' = Map.empty \<and> calls w' = calls w"
proof -
  obtain \<sigma> s x where run: "main5_session ip counts
      \<lparr>tbuf = b, trst = rst, tcip = cip, thp = h, ttab = init_hash_table 100 32928 33000, tos = w\<rparr> = Some \<sigma>"
    and r: "session_runs \<sigma> s x" "same_keys x (new_session 0xc0a80102 32928 32928 (times h 0 + 10))"
      "track x = (3, 2, 2, 0xc6510d43, 0x1a8f3633)"
    and o: "out (tos \<sigma>) = out w @ replicate 5 (''Debug searching world, tcp->dest %d'', [32928])" "calls (tos \<sigma>) = calls w"
    using main5_session_run [OF assms] by blast
  obtain cc sc where "table_rep (thp \<sigma>) (ttab \<sigma>) cc sc" "owned (thp \<sigma>) cc sc" using r(1) by (auto simp: session_runs_def)
  then obtain ls h1 h2 t2 where d: "print_session_hash_table (thp \<sigma>) (ttab \<sigma>) = Some (ls, h1)" "delete_hash_table h1 (ttab \<sigma>) = Some (h2, t2)"
    "nodes h2 = Map.empty" "sessions h2 = Map.empty"
    using print_and_delete by blast
  have "main5 ip cip counts b rst h w = Some (0, h2, fold printf ls (tos \<sigma>))"
    unfolding main5_def Let_def run bind.bind_lunit d(1,2) prod.case ..
  moreover have "calls (fold printf ls (tos \<sigma>)) = calls w" using o(2) by (simp add: fold_printf)
  moreover have "(syn_state x, client_fin_state x, server_fin_state x) = (3, 2, 2)" using r(3) by (simp add: track_def)
  moreover have "get_tcp_session_by_client (thp \<sigma>) (ttab \<sigma>) 0xc0a80102 32928 = Some (Some s)"
    using session_runs_lookup(1) [OF r(1)] new_keys [OF r(2)] by simp
  ultimately show ?thesis using run o(1) d(3,4) session_runs_lookup(3) [OF r(1)] by blast
qed

end
