(* ===== verification/Poc.thy ===== *)
theory Poc
  imports Sockets Ip_Command
begin

text \<open>
  The proofs of concept under \<^verbatim>\<open>src/POC\<close> from which the program grew: the interface set-up of \<^verbatim>\<open>IP_COMMAND/main.c\<close>,
  the tap device of \<^verbatim>\<open>TUNTAP/main.c\<close> and the UDP server of \<^verbatim>\<open>UDP/server-src/main.c\<close>. The library took its
  set-up functions from the first; the lemmas compare the two.
\<close>

section \<open>Interface set-up\<close>

definition poc_get_ctl_fd :: "os \<Rightarrow> int \<times> os" where
  "poc_get_ctl_fd w = (
     let (r, w) = sys (Socket AF_INET SOCK_DGRAM 0) w
     in if 0 \<le> ret r then (ret r, w)
        else let s_errno = errno w; (r, w) = sys (Socket AF_PACKET SOCK_DGRAM 0) w
        in if 0 \<le> ret r then (ret r, w)
        else let (r, w) = sys (Socket AF_INET6 SOCK_DGRAM 0) w
        in if 0 \<le> ret r then (ret r, w)
        else (-1, perror ''Cannot create control socket'' (w\<lparr>errno := s_errno\<rparr>)))"

definition poc_do_chflags :: "string \<Rightarrow> u32 \<Rightarrow> u32 \<Rightarrow> os \<Rightarrow> int \<times> os" where
  "poc_do_chflags dev flags msk w = (
     let name = take IFNAMSIZ dev; (fd, w) = poc_get_ctl_fd w
     in if fd < 0 then (-1, w)
        else let (r, w) = sys (Ioctl_SIOCGIFFLAGS fd name) w
        in if ret r \<noteq> 0 then let (_, w) = sys (Close fd) (perror ''SIOCGIFFLAGS'' w) in (-1, w)
        else let f = if_flags r
        in if ((scast f XOR flags) AND msk) \<noteq> 0
           then let f = ucast (scast f AND NOT msk) :: u16;
                    f = ucast (scast f OR (msk AND flags));
                    (r, w) = sys (Ioctl_SIOCSIFFLAGS fd name f) w;
                    w = (if ret r \<noteq> 0 then perror ''SIOCSIFFLAGS'' w else w);
                    (_, w) = sys (Close fd) w
                in (ret r, w)
           else let (_, w) = sys (Close fd) w in (ret r, w))"

definition poc_add_tun :: "u16 \<Rightarrow> os \<Rightarrow> int \<times> os" where
  "poc_add_tun junk w = (
     let f = junk OR (IFF_NO_PI OR IFF_TUN);
         name = take IFNAMSIZ TUN_NAME;
         f = f OR IFF_TUN_EXCL;
         (r, w) = sys (Open ''/dev/net/tun'' 2) w;
         fd = ret r
     in if fd < 0 then (-1, perror ''open'' w)
        else let (r, w) = sys (Ioctl_TUNSETIFF fd name f) w
        in if ret r \<noteq> 0
           then let w = perror ''ioctl(TUNSETIFF)'' w; (_, w) = sys (Close fd) w in (-1, w)
           else (fd, w))"

definition poc_set_int_up :: "string \<Rightarrow> os \<Rightarrow> int \<times> os" where
  "poc_set_int_up dev w = poc_do_chflags dev IFF_UP IFF_UP w"

definition poc_set_default_route :: "(nlreq \<Rightarrow> int \<Rightarrow> int \<Rightarrow> buf \<Rightarrow> int \<times> nlreq) \<Rightarrow> os \<Rightarrow> int \<times> os" where
  "poc_set_default_route addattr w = (
     let (r, w) = sys Rtnl_open w; rth = handle_fd r
     in if ret r < 0 then (-1, w)
        else let req = \<lparr>nlmsg_len = 28, nlmsg_flags = 0x601, nlmsg_type = 24,
                   nlmsg_body = Rtmsg \<lparr>rtm_family = AF_INET, rtm_dst_len = 0, rtm_table = 254, rtm_protocol = 3,
                     rtm_scope = 0, rtm_type = 1\<rparr>, nlmsg_payload = []\<rparr>;
                 (_, req) = addattr req 4124 5 [10, 0, 0, 1];
                 (r, w) = sys (Rtnl_talk rth req) w;
                 (_, w) = sys (Rtnl_close rth) w
             in (ret r, w))"

definition poc_set_default_ip_addr :: "(nlreq \<Rightarrow> int \<Rightarrow> int \<Rightarrow> buf \<Rightarrow> int \<times> nlreq) \<Rightarrow> os \<Rightarrow> int \<times> os" where
  "poc_set_default_ip_addr addattr w = (
     let (r, w) = sys Rtnl_open w; rth = handle_fd r
     in if ret r < 0 then (-1, w)
        else let (i, w) = sys (If_nametoindex ''benker-vpn-tun'') w;
                 req = \<lparr>nlmsg_len = 24, nlmsg_flags = 0x601, nlmsg_type = 20,
                   nlmsg_body = Ifaddrmsg \<lparr>ifa_family = AF_INET, ifa_prefixlen = 24, ifa_scope = 0,
                     ifa_index = ret i\<rparr>, nlmsg_payload = []\<rparr>;
                 (_, req) = addattr req 280 2 [10, 0, 0, 1];
                 (_, req) = addattr req 280 1 [10, 0, 0, 1];
                 (r, w) = sys (Rtnl_talk rth req) w;
                 (_, w) = sys (Rtnl_close rth) w
             in (ret r, w))"

text \<open>
  The loop that prints every packet of the device; its buffer holds \<open>n\<close> bytes. The buffer is an array of \<^verbatim>\<open>char\<close>, so a
  byte from \<open>0x80\<close> on is printed as a negative number.
\<close>

partial_function (option) poc_print_packets :: "int \<Rightarrow> buf \<Rightarrow> int \<Rightarrow> os \<Rightarrow> os option" where
  "poc_print_packets fd b n w = (
     let (r, w) = sys (Read fd n) w; b = received r b
     in if ret r < 0 then Some (printf (''n < 0'', []) w)
        else if ret r \<le> int (length b)
        then poc_print_packets fd b n (fold printf ([(''len [%d]'', [ret r])] @
               map (\<lambda>x. (''%02x'', [sint x])) (take (nat (ret r)) b) @ [([], [])]) w)
        else None)"

declare poc_print_packets.simps [code]

text \<open>\<open>Inl\<close> is \<^verbatim>\<open>exit(-1)\<close>.\<close>

definition poc_ip_command :: "u16 \<Rightarrow> (nlreq \<Rightarrow> int \<Rightarrow> int \<Rightarrow> buf \<Rightarrow> int \<times> nlreq) \<Rightarrow> buf \<Rightarrow> os \<Rightarrow> (os + os) option" where
  "poc_ip_command junk addattr b w = (
     let (tun_fd, w) = poc_add_tun junk w
     in if tun_fd < 0 then Some (Inl (printf (''fail to add tun'', []) w))
        else let (r, w) = poc_set_int_up TUN_NAME w
        in if r < 0 then Some (Inl (printf (''fail to set dev up'', []) w))
        else let (r, w) = poc_set_default_ip_addr addattr w; w = printf (''default ip addr %d'', [r]) w;
                 (r, w) = poc_set_default_route addattr w; w = printf (''default route %d'', [r]) w
             in map_option Inr (poc_print_packets tun_fd b 4096 w))"

section \<open>A tap device\<close>

abbreviation IFF_TAP :: u16 where "IFF_TAP \<equiv> 2"

text \<open>\<open>named\<close> is what \<^verbatim>\<open>TUNSETIFF\<close> leaves in \<^verbatim>\<open>ifr_name\<close>; \<open>cap\<close> is the size of the caller's array.\<close>

definition tap_alloc :: "(string \<Rightarrow> string) \<Rightarrow> string \<Rightarrow> nat \<Rightarrow> os \<Rightarrow> (int \<times> string \<times> os) option" where
  "tap_alloc named dev cap w = (
     let (r, w) = sys (Open ''/dev/net/tun'' 2) w; fd = ret r
     in if fd < 0 then Some (-1, dev, w)
        else let name = (if dev \<noteq> [] then take IFNAMSIZ dev else []);
                 (r, w) = sys (Ioctl_TUNSETIFF fd name IFF_TAP) w
        in if ret r < 0 then let (_, w) = sys (Close fd) w in Some (ret r, dev, w)
        else if length (named name) < cap then Some (fd, named name, w) else None)"

partial_function (option) tap_print_packets :: "int \<Rightarrow> buf \<Rightarrow> os \<Rightarrow> os option" where
  "tap_print_packets fd b w = (
     let (r, w) = sys (Read fd 2048) w; b = received r b
     in if ret r < 0 then Some w
        else if ret r \<le> int (length b)
        then tap_print_packets fd b (fold printf ([(''len [%d]'', [ret r])] @
               map (\<lambda>x. (''%02x'', [uint x])) (take (nat (ret r)) b) @ [([], [])]) w)
        else None)"

declare tap_print_packets.simps [code]

definition tap_main :: "(string \<Rightarrow> string) \<Rightarrow> buf \<Rightarrow> os \<Rightarrow> os option" where
  "tap_main named b w = do {
     (fd, dev, w) \<leftarrow> tap_alloc named ''tap0'' 5 w;
     let w = (if fd \<le> 0 then perror ''fail create tap'' w else w);
     w \<leftarrow> tap_print_packets fd b w;
     Some (snd (sys (Close fd) w)) }"

section \<open>A UDP server\<close>

text \<open>
  One message is received, terminated with a null byte and answered; \<open>BUFSIZE\<close> is 2048. The results of \<^verbatim>\<open>exit\<close> and \<^verbatim>\<open>return\<close> are
  the status of the program. Characters of the message are printed as numbers.
\<close>

abbreviation MSG_WAITALL :: int where "MSG_WAITALL \<equiv> 0x100"

definition udp_hello :: buf where
  "udp_hello = map (\<lambda>c. word_of_nat (of_char c)) ''Hello from server''"

definition poc_udp_server :: "buf \<Rightarrow> os \<Rightarrow> (int \<times> os) option" where
  "poc_udp_server b w = (
     let (r, w) = sys (Socket AF_INET SOCK_DGRAM 0) w; sockfd = ret r
     in if sockfd < 0 then Some (1, perror ''socket creation failed'' w)
        else let servaddr = \<lparr>sin_family = AF_INET, sin_port = htons 8080, sin_addr = 0\<rparr>;
                 (r, w) = sys (Bind_in sockfd servaddr) w
        in if ret r < 0 then Some (1, perror ''bind failed'' w)
        else let (r, w) = sys (Recvfrom sockfd 2048 MSG_WAITALL) w; n = ret r; b = received r b
        in if n < 0 then None
        else do {
          b \<leftarrow> st8 b (nat n) 0;
          let w = printf (''Client : %s '', map uint (takeWhile (\<lambda>x. x \<noteq> 0) b)) w;
          let (_, w) = sys (Sendto_in sockfd udp_hello MSG_CONFIRM (Some (from_in r))) w;
          Some (0, printf (''reply sent'', []) w) })"

section \<open>Library and proof of concept\<close>

text \<open>
  The control socket: the same calls and the same result, plus a message when there is none.
\<close>

lemma poc_get_ctl_fd_eq:
  "poc_get_ctl_fd w = (let (fd, w) = get_ctl_fd w in (fd, if fd < 0 then perror ''Cannot create control socket'' w else w))"
  by (simp add: poc_get_ctl_fd_def get_ctl_fd_def sys_after Let_def)

lemma poc_set_default_eq:
  "poc_set_default_route = set_default_route" "poc_set_default_ip_addr = set_default_ip_addr"
  by (simp_all add: fun_eq_iff poc_set_default_route_def set_default_route_def poc_set_default_ip_addr_def
      set_default_ip_addr_def)

text \<open>The proof of concept never leaves its control socket open.\<close>

lemma poc_do_chflags_fds:
  assumes "fresh_fds (snd (poc_do_chflags dev flags msk w))"
  shows "fds (snd (poc_do_chflags dev flags msk w)) = fds w"
proof -
  obtain fd w1 where ctl: "get_ctl_fd w = (fd, w1)" by fastforce
  show ?thesis
  proof (cases "fd < 0")
    case True
    then show ?thesis
      using assms get_ctl_fd_fds [OF ctl] by (simp add: poc_do_chflags_def poc_get_ctl_fd_eq ctl Let_def)
  next
    case False
    then have "fresh_fds w1 \<and> fds (snd (poc_do_chflags dev flags msk w)) = fds w1 - {fd}"
      using assms by (auto simp: poc_do_chflags_def poc_get_ctl_fd_eq ctl sys_simps split: if_splits)
    then show ?thesis using get_ctl_fd_fds [OF ctl] False by (auto split: if_splits)
  qed
qed

lemma do_chflags_poc:
  shows "(fst (do_chflags dev flags msk w) = 0) = (fst (poc_do_chflags dev flags msk w) = 0)"
    and "calls (snd (poc_do_chflags dev flags msk w)) =
      calls (snd (do_chflags dev flags msk w)) @
      (if fst (do_chflags dev flags msk w) \<noteq> 0 \<and> 0 \<le> fst (get_ctl_fd w) then [Close (fst (get_ctl_fd w))] else [])"
    and "fresh_fds (snd (poc_do_chflags dev flags msk w)) \<longleftrightarrow> fresh_fds (snd (do_chflags dev flags msk w))"
proof -
  obtain fd w1 where ctl: "get_ctl_fd w = (fd, w1)" by fastforce
  note defs = do_chflags_def poc_do_chflags_def poc_get_ctl_fd_eq ctl sys_after Let_def
  show "(fst (do_chflags dev flags msk w) = 0) = (fst (poc_do_chflags dev flags msk w) = 0)"
    by (simp add: defs)
  show "calls (snd (poc_do_chflags dev flags msk w)) =
      calls (snd (do_chflags dev flags msk w)) @
      (if fst (do_chflags dev flags msk w) \<noteq> 0 \<and> 0 \<le> fst (get_ctl_fd w) then [Close (fst (get_ctl_fd w))] else [])"
    by (simp add: defs)
  show "fresh_fds (snd (poc_do_chflags dev flags msk w)) \<longleftrightarrow> fresh_fds (snd (do_chflags dev flags msk w))"
    by (simp add: defs after_fds)
qed

end
