(* ===== verification/Poc_Checksum.thy ===== *)
theory Poc_Checksum
  imports Checksum
begin

text \<open>
  The checksum functions of the proof of concept \<^verbatim>\<open>src/POC/RAWSOCK/main.c\<close>, which the library took over, and the
  lemmas that both compute the same.
\<close>

declare add_2_eq_Suc [simp del] add_2_eq_Suc' [simp del]

function rawsock_pairs :: "buf \<Rightarrow> nat \<Rightarrow> int \<Rightarrow> u32 \<Rightarrow> (nat \<times> int \<times> u32) option" where
  "rawsock_pairs buffer i bytes acc =
     (if 1 < bytes then do {
        x \<leftarrow> ld8 buffer i;
        let acc = acc + push_bit 8 (ucast x);
        y \<leftarrow> ld8 buffer (i + 1);
        let acc = acc + ucast y;
        rawsock_pairs buffer (i + 2) (bytes - 2) acc }
      else Some (i, bytes, acc))"
  by pat_completeness auto
termination
  by (relation "measure (\<lambda>(b, i, bytes, acc). nat bytes)") auto

declare rawsock_pairs.simps [simp del]

text \<open>The endless loop that breaks when the sum fits 16 bits.\<close>

partial_function (option) rawsock_fold :: "u32 \<Rightarrow> u32 option" where
  "rawsock_fold acc = (if acc \<le> 0xffff then Some acc else rawsock_fold (drop_bit 16 acc + ucast (ucast acc :: u16)))"

declare rawsock_fold.simps [code]

definition rawsock_summing :: "buf \<Rightarrow> nat \<Rightarrow> int \<Rightarrow> u32 \<Rightarrow> u16 option" where
  "rawsock_summing buffer p bytes acc = do {
     (i, bytes, acc) \<leftarrow> rawsock_pairs buffer p bytes acc;
     acc \<leftarrow> (if bytes = 1 then do { x \<leftarrow> ld8 buffer i; Some (acc + push_bit 8 (ucast x)) } else Some acc);
     acc \<leftarrow> rawsock_fold acc;
     Some (ucast acc) }"

definition rawsock_ip_csum :: "buf \<Rightarrow> nat \<Rightarrow> u16 option" where
  "rawsock_ip_csum b ip_header = do {
     ihl \<leftarrow> ip_ihl b ip_header;
     acc \<leftarrow> rawsock_summing b ip_header (int (ihl * 4)) 0;
     Some (NOT acc) }"

text \<open>The second component is what is printed.\<close>

definition rawsock_tcp_csum :: "buf \<Rightarrow> nat \<Rightarrow> nat \<Rightarrow> nat option \<Rightarrow> (u16 \<times> printf_call) option" where
  "rawsock_tcp_csum b ip_header tcp_header tcp_data = do {
     let pseudo_header = replicate 12 0;
     tot_len \<leftarrow> ip_tot_len b ip_header;
     ihl \<leftarrow> ip_ihl b ip_header;
     doff \<leftarrow> tcp_doff b tcp_header;
     let tcp_data_bytes = uint (ntohs tot_len) - int (ihl * 4) - int (doff * 4);
     let msg = (''tcp data bytes: %d'', [tcp_data_bytes]);
     pseudo_header \<leftarrow> memcpy pseudo_header 0 b (ip_header + 12) 4;
     pseudo_header \<leftarrow> memcpy pseudo_header 4 b (ip_header + 16) 4;
     pseudo_header \<leftarrow> st8 pseudo_header 9 IPPROTO_TCP;
     pseudo_header \<leftarrow> st16 pseudo_header 10 (htons (of_int (int (doff * 4) + tcp_data_bytes)));
     acc \<leftarrow> rawsock_summing pseudo_header 0 12 0;
     acc \<leftarrow> rawsock_summing b tcp_header (int (doff * 4)) (ucast acc);
     acc \<leftarrow> (if tcp_data_bytes > 0
            then do { d \<leftarrow> tcp_data; rawsock_summing b d tcp_data_bytes (ucast acc) }
            else Some acc);
     Some (NOT acc, msg) }"

lemma rawsock_pairs_eq: "rawsock_pairs b i bytes acc = summing_pairs b i bytes acc"
proof (induction b i bytes acc rule: rawsock_pairs.induct)
  case (1 b i bytes acc)
  show ?case
    using 1 by (subst rawsock_pairs.simps, subst summing_pairs.simps) (auto simp: Let_def split: bind_splits)
qed

lemma rawsock_fold_eq: "rawsock_fold acc = Some (summing_fold acc)"
proof (induction acc rule: summing_fold.induct)
  case (1 acc)
  show ?case
  proof (cases "acc \<le> 0xffff")
    case False
    then show ?thesis
      using 1 rawsock_fold.simps [of acc] summing_fold.simps [of acc] by (simp add: fold_carry_def)
  qed (simp add: rawsock_fold.simps summing_fold.simps)
qed

lemma rawsock_summing_eq: "rawsock_summing = summing"
  by (simp add: fun_eq_iff rawsock_summing_def summing_def rawsock_pairs_eq rawsock_fold_eq)

lemma rawsock_csum_eq:
  "rawsock_ip_csum = ip_csum" "map_option fst (rawsock_tcp_csum b ip tcp d) = tcp_csum b ip tcp d"
  subgoal by (simp add: fun_eq_iff rawsock_ip_csum_def ip_csum_def rawsock_summing_eq)
  subgoal
    unfolding rawsock_tcp_csum_def tcp_csum_def rawsock_summing_eq Let_def
    by (auto split: bind_splits)
  done

text \<open>What is printed is the number of bytes behind the two headers.\<close>

lemma rawsock_tcp_csum_msg:
  assumes "tcp_csum b ip tcp d = Some c" and "ip_tot_len b ip = Some tot" "ip_ihl b ip = Some ihl" "tcp_doff b tcp = Some doff"
  shows "rawsock_tcp_csum b ip tcp d
    = Some (c, (''tcp data bytes: %d'', [uint (ntohs tot) - int (ihl * 4) - int (doff * 4)]))"
proof -
  obtain r where r: "rawsock_tcp_csum b ip tcp d = Some r" "fst r = c"
    using rawsock_csum_eq(2) [of b ip tcp d] assms(1) by auto
  moreover have "snd r = (''tcp data bytes: %d'', [uint (ntohs tot) - int (ihl * 4) - int (doff * 4)])"
    using r(1) assms(2-4) by (auto simp: rawsock_tcp_csum_def Let_def bind_eq_Some_conv)
  ultimately show ?thesis by (cases r) simp
qed

end
