(* ===== verification/Poc_Rawsock.thy ===== *)
theory Poc_Rawsock
  imports Protocol_Headers Sockets Poc_Checksum
begin

text \<open>
  The proof of concept \<^verbatim>\<open>src/POC/RAWSOCK/main.c\<close>: an Ethernet frame with an IP and a TCP header is built in place and
  sent on a raw socket. Its checksum functions are in \<open>Poc_Checksum\<close>. The parsers of the C library for the addresses are the parameters \<open>ether_aton\<close> and \<open>inet_addr\<close>.
\<close>

declare add_2_eq_Suc [simp del] add_2_eq_Suc' [simp del]

section \<open>The frame\<close>

text \<open>Bit fields the library does not write: the version of an IP header and the reserved bits of a TCP header.\<close>

definition set_ip_version :: "buf \<Rightarrow> nat \<Rightarrow> nat \<Rightarrow> buf option" where
  "set_ip_version b p v = do { x \<leftarrow> ld8 b p; st8 b p ((x AND 15) OR push_bit 4 (of_nat v)) }"

definition set_tcp_res1 :: "buf \<Rightarrow> nat \<Rightarrow> nat \<Rightarrow> buf option" where
  "set_tcp_res1 b p v = do { x \<leftarrow> ld8 b (p + 12); st8 b (p + 12) ((x AND 240) OR (of_nat v AND 15)) }"

definition rawsock_ip :: "u32 \<Rightarrow> u32 \<Rightarrow> buf \<Rightarrow> nat \<Rightarrow> buf option" where
  "rawsock_ip src dst b p = do {
     b \<leftarrow> set_ip_version b p 4;
     b \<leftarrow> set_ip_ihl b p 5;
     b \<leftarrow> st8 b (p + 1) 0;
     b \<leftarrow> set_ip_tot_len b p (htons 41);
     b \<leftarrow> set_ip_id b p (htons 0x65dc);
     b \<leftarrow> set_ip_frag_off b p (htons 0x4000);
     b \<leftarrow> set_ip_ttl b p 64;
     b \<leftarrow> st8 b (p + 9) 6;
     b \<leftarrow> set_ip_check b p 0;
     b \<leftarrow> set_ip_saddr b p src;
     b \<leftarrow> set_ip_daddr b p dst;
     c \<leftarrow> rawsock_ip_csum b p;
     set_ip_check b p (htons c) }"

definition rawsock_tcp :: "buf \<Rightarrow> nat \<Rightarrow> buf option" where
  "rawsock_tcp b p = do {
     b \<leftarrow> set_tcp_source b p (htons 8080);
     b \<leftarrow> set_tcp_dest b p (htons 80);
     b \<leftarrow> set_tcp_seq b p (htonl 123);
     b \<leftarrow> set_tcp_ack_seq b p (htonl 0);
     b \<leftarrow> set_tcp_doff b p 5;
     b \<leftarrow> set_tcp_flag 7 b p False;
     b \<leftarrow> set_tcp_flag 6 b p False;
     b \<leftarrow> set_tcp_flag 5 b p False;
     b \<leftarrow> set_tcp_flag 4 b p False;
     b \<leftarrow> set_tcp_flag 3 b p False;
     b \<leftarrow> set_tcp_flag 2 b p False;
     b \<leftarrow> set_tcp_flag 1 b p False;
     b \<leftarrow> set_tcp_flag 0 b p False;
     b \<leftarrow> set_tcp_res1 b p 0;
     b \<leftarrow> st16 b (p + 14) (htons 24754);
     b \<leftarrow> set_tcp_check b p 0;
     st16 b (p + 18) 0 }"

text \<open>
  The buffer starts with what the stack held. The data pointer of the TCP checksum is \<^verbatim>\<open>buffer+40\<close>, as if there were
  no Ethernet header of 14 bytes in front.
\<close>

definition rawsock_frame :: "buf \<Rightarrow> buf \<Rightarrow> u32 \<Rightarrow> u32 \<Rightarrow> buf \<Rightarrow> (buf \<times> printf_call) option" where
  "rawsock_frame smac dmac src dst b = do {
     b \<leftarrow> st8 b 40 65;
     b \<leftarrow> st16 b 12 (htons ETH_P_IP);
     b \<leftarrow> memcpy b 6 smac 0 6;
     b \<leftarrow> memcpy b 0 dmac 0 6;
     b \<leftarrow> rawsock_ip src dst b 14;
     ihl \<leftarrow> ip_ihl b 14;
     let tcp = 14 + ihl * 4;
     b \<leftarrow> rawsock_tcp b tcp;
     (c, msg) \<leftarrow> rawsock_tcp_csum b 14 tcp (Some 40);
     b \<leftarrow> set_tcp_check b tcp (htons c);
     Some (b, msg) }"

text \<open>The program up to its \<^verbatim>\<open>return 0\<close>; the rest of \<^verbatim>\<open>main\<close> is unreachable. \<open>Inl\<close> is \<^verbatim>\<open>exit(1)\<close>.\<close>

definition rawsock_main :: "(string \<Rightarrow> buf option) \<Rightarrow> (string \<Rightarrow> u32) \<Rightarrow> buf \<Rightarrow> os \<Rightarrow> (os + os) option" where
  "rawsock_main ether_aton inet_addr b w = (
     let (r, w) = sys (Socket AF_PACKET SOCK_RAW (uint (htons ETH_P_IP))) w; sock = ret r
     in if sock = -1 then Some (Inl (perror ''Fail to create socket'' w))
        else case ether_aton ''52:54:0:a:19:ff'' of
          None \<Rightarrow> Some (Inl (printf (''invalid src mac addr'', []) w))
        | Some smac \<Rightarrow> (case ether_aton ''52:54:0:48:1c:20'' of
            None \<Rightarrow> Some (Inl (printf (''invalid dst mac addr'', []) w))
          | Some dmac \<Rightarrow> do {
              (b, msg) \<leftarrow> rawsock_frame smac dmac (inet_addr ''192.168.122.234'') (inet_addr ''172.67.129.9'') b;
              let w = printf msg w;
              let ll_addr = \<lparr>sll_family = AF_PACKET, sll_protocol = ETH_P_IP, sll_ifindex = 2, sll_hatype = 0,
                sll_pkttype = 0, sll_halen = 6, sll_addr = take 6 b @ [0, 0]\<rparr>;
              let (r, w) = sys (Sendto_ll sock (take 57 b) 0 ll_addr) w;
              let w = printf (''total sent [%d]'', [ret r]) w;
              let w = fold printf ([(''header: '', [])] @ map (\<lambda>x. (''%02x '', [uint x])) (take 57 b) @ [([], [])]) w;
              Some (Inr w) }))"

section \<open>What the headers hold\<close>

lemma unset_flags:
  "unset_bit 0 (unset_bit 1 (unset_bit 2 (unset_bit 3 (unset_bit 4 (unset_bit 5 (unset_bit 6 (unset_bit 7 (x :: u8)))))))) = 0"
  by (rule bit_word_eqI) (auto simp: bit_simps less_Suc_eq numeral_eq_Suc)

lemma nibbles:
  fixes x :: u8
  shows "(((x AND 15) OR push_bit 4 (of_nat 4)) AND 240) OR (of_nat 5 AND 15) = 0x45"
    and "(((x AND 15) OR push_bit 4 (of_nat 5)) AND 240) OR (of_nat 0 AND 15) = 0x50"
proof -
  have "(x AND 15) AND 240 = 0" by (simp add: and.assoc)
  then show "(((x AND 15) OR push_bit 4 (of_nat 4)) AND 240) OR (of_nat 5 AND 15) = 0x45"
    "(((x AND 15) OR push_bit 4 (of_nat 5)) AND 240) OR (of_nat 0 AND 15) = 0x50"
    by (simp_all add: bit.conj_disj_distrib2)
qed

lemma rawsock_ip_fields:
  assumes "length b = 4096"
  obtains b' where "rawsock_ip src dst b 14 = Some b'" "length b' = 4096" "b' ! 14 = 0x45" "b' ! 16 = 0" "b' ! 17 = 41"
    "\<And>i. 34 \<le> i \<Longrightarrow> b' ! i = b ! i"
proof -
  let ?b = "b[14 := 0x45, 15 := 0, 16 := 0, 17 := 41, 18 := 0x65, 19 := 0xdc, 20 := 0x40, 21 := 0, 22 := 64, 23 := 6,
    24 := 0, 25 := 0, 26 := octet 0 src, 27 := octet 1 src, 28 := octet 2 src, 29 := octet 3 src,
    30 := octet 0 dst, 31 := octet 1 dst, 32 := octet 2 dst, 33 := octet 3 dst]"
  have oct: "octet (Suc 0) (41 :: u16) = 0" "octet 0 (41 :: u16) = 41" "octet (Suc 0) (0x65dc :: u16) = 0x65"
    "octet 0 (0x65dc :: u16) = 0xdc" "octet (Suc 0) (0x4000 :: u16) = 0x40" "octet 0 (0x4000 :: u16) = 0" by code_simp+
  obtain c where c: "ip_csum ?b 14 = Some c" using ip_csum_defined [of 14 ?b] assms by auto
  have "rawsock_ip src dst b 14 = Some (?b[24 := octet 1 c, 25 := octet 0 c])"
    using assms
    by (simp add: rawsock_ip_def rawsock_csum_eq(1) set_ip_version_def set_ip_ihl_def ld8_Some st8_Some st16_Some st32_Some oct
        nibbles [simplified] c [simplified])
  then show thesis
    by (rule that) (simp_all add: assms)
qed

lemma rawsock_tcp_fields:
  assumes "length b = 4096"
  obtains b' where "rawsock_tcp b 34 = Some b'" "length b' = 4096" "b' ! 46 = 0x50" "b' ! 40 = 0" "b' ! 50 = 0" "b' ! 51 = 0"
    "\<And>i. i < 34 \<or> 54 \<le> i \<Longrightarrow> b' ! i = b ! i"
proof -
  let ?b = "b[34 := 0x1f, 35 := 0x90, 36 := 0, 37 := 80, 38 := 0, 39 := 0, 40 := 0, 41 := 123, 42 := 0, 43 := 0, 44 := 0, 45 := 0,
    46 := (b ! 46 AND 15) OR 80, 47 := 0, 46 := 0x50, 48 := 0x60, 49 := 0xb2, 50 := 0, 51 := 0, 52 := 0, 53 := 0]"
  have oct: "octet (Suc 0) (8080 :: u16) = 0x1f" "octet 0 (8080 :: u16) = 0x90" "octet (Suc 0) (80 :: u16) = 0"
    "octet 0 (80 :: u16) = 80" "octet (Suc 0) (24754 :: u16) = 0x60" "octet 0 (24754 :: u16) = 0xb2"
    "octet 3 (123 :: u32) = 0" "octet 2 (123 :: u32) = 0" "octet (Suc 0) (123 :: u32) = 0" "octet 0 (123 :: u32) = 123"
    "octet 0 (htonl 0) = 0" "octet (Suc 0) (htonl 0) = 0" "octet 2 (htonl 0) = 0" "octet 3 (htonl 0) = 0"
    by code_simp+
  have "rawsock_tcp b 34 = Some ?b"
    using assms
    by (simp add: rawsock_tcp_def set_tcp_doff_def set_tcp_flag_def set_tcp_res1_def ld8_Some st8_Some st16_Some st32_Some oct
        unset_flags [simplified] nibbles [simplified])
  then show thesis
    by (rule that) (auto simp: assms)
qed

section \<open>The checksum that is sent\<close>

lemma oc16_odd_byte:
  assumes "oc16 m = 65535" and "v < 256"
  shows "oc16 (m + 256 * v) = 65535 \<longleftrightarrow> v = 0"
proof -
  have m: "m \<noteq> 0" "(m - 1) mod 65535 = 65534" using assms(1) by (auto simp: oc16_def split: if_splits)
  then have "m + 256 * v - 1 = m - 1 + 256 * v" by simp
  then have "(m + 256 * v - 1) mod 65535 = (65534 + 256 * v) mod 65535"
    using mod_add_left_eq [of "m - 1" 65535 "256 * v"] m(2) by simp
  moreover have "(65534 + 256 * v) mod 65535 = 65534 \<longleftrightarrow> v = 0"
  proof (cases "v = 0")
    case False
    then have "(65534 + 256 * v) mod 65535 = 256 * v - 1"
      using assms(2) le_mod_geq [of 65535 "65534 + 256 * v"] by simp
    moreover have "256 * v - 1 \<noteq> 65534" by presburger
    ultimately show ?thesis using False by simp
  qed simp
  ultimately show ?thesis using m(1) by (simp add: oc16_def)
qed

lemma rawsock_frame_checksum:
  assumes len: "length b = 4096" "length smac = 6" "length dmac = 6"
  shows "\<exists>f. rawsock_frame smac dmac src dst b = Some (f, (''tcp data bytes: %d'', [1])) \<and> length f = 4096 \<and> f ! 54 = b ! 54 \<and>
    (oc16 (tcp_segment_sum f 14 34 21) = 65535 \<longleftrightarrow> b ! 54 = 0)"
proof -
  obtain b1 where b1: "(do { b \<leftarrow> st8 b 40 65; b \<leftarrow> st16 b 12 (htons ETH_P_IP); b \<leftarrow> memcpy b 6 smac 0 6; memcpy b 0 dmac 0 6 }) = Some b1"
    "length b1 = 4096" "b1 ! 54 = b ! 54"
    using len by (auto simp: st8_Some st16_Some memcpy_def nth_append)
  obtain b2 where b2: "rawsock_ip src dst b1 14 = Some b2" "length b2 = 4096" "b2 ! 14 = 0x45" "b2 ! 16 = 0" "b2 ! 17 = 41"
    and b2_tail: "\<And>i. 34 \<le> i \<Longrightarrow> b2 ! i = b1 ! i"
    using rawsock_ip_fields [OF b1(2), of src dst] by blast
  obtain b3 where b3: "rawsock_tcp b2 34 = Some b3" "length b3 = 4096" "b3 ! 46 = 0x50" "b3 ! 40 = 0" "b3 ! 50 = 0" "b3 ! 51 = 0"
    and same: "\<And>i. i < 34 \<or> 54 \<le> i \<Longrightarrow> b3 ! i = b2 ! i"
    using rawsock_tcp_fields [OF b2(2)] by blast
  have hdr: "ip_tot_len b3 14 = Some (le16 0 41)" "ip_ihl b3 14 = Some 5" "tcp_doff b3 34 = Some 5" "ip_ihl b2 14 = Some 5"
    using b2 b3 same [of 14] same [of 16] same [of 17] by (simp_all add: ld16_Some ip_ihl_Some tcp_doff_Some)
  have t: "unat (ntohs (le16 0 41)) = 41" by (simp add: unat_le16)
  let ?S = "sum16 (take 8 (drop 26 b3)) + 6 + 21 + sum16 (take 20 (drop 34 b3))"
  have zero: "take 1 (drop 40 b3) = [0]" using b3(2,4) by (simp add: take_Suc_conv_app_nth)
  obtain S where S: "S = ?S" by blast
  obtain c where c: "c = (NOT (of_nat (oc16 S)) :: u16)" by blast
  have csum: "tcp_csum b3 14 34 (Some 40) = Some c"
    unfolding c S using tcp_csum_at [OF hdr(1-3) _ _ _ _ refl, where n = 21 and q = 40] b3(2) t zero by simp
  have msg: "rawsock_tcp_csum b3 14 34 (Some 40) = Some (c, (''tcp data bytes: %d'', [1]))"
  proof -
    have "uint (ntohs (le16 0 41)) = 41" unfolding uint_nat t by simp
    then have "uint (ntohs (le16 0 41)) - int (5 * 4) - int (5 * 4) = 1" by simp
    then show ?thesis using rawsock_tcp_csum_msg [OF csum hdr(1-3)] by simp
  qed
  obtain f where f: "f = b3[50 := octet 1 c, 51 := octet 0 c]" by blast
  have run: "rawsock_frame smac dmac src dst b = Some (f, (''tcp data bytes: %d'', [1]))"
  proof -
    have "rawsock_frame smac dmac src dst b = do {
        b \<leftarrow> (do { b \<leftarrow> st8 b 40 65; b \<leftarrow> st16 b 12 (htons ETH_P_IP); b \<leftarrow> memcpy b 6 smac 0 6; memcpy b 0 dmac 0 6 });
        b \<leftarrow> rawsock_ip src dst b 14; ihl \<leftarrow> ip_ihl b 14; b \<leftarrow> rawsock_tcp b (14 + ihl * 4);
        (c, msg) \<leftarrow> rawsock_tcp_csum b 14 (14 + ihl * 4) (Some 40); b \<leftarrow> st16 b (14 + ihl * 4 + 16) (htons c); Some (b, msg) }"
      by (simp add: rawsock_frame_def Let_def)
    moreover have "14 + 5 * 4 = (34 :: nat)" "34 + 16 = (50 :: nat)" by simp_all
    moreover have "st16 b3 50 (htons c) = Some f" using b3(2) by (simp add: st16_Some f)
    ultimately show ?thesis by (simp only: b1(1) b2(1) b3(1) hdr(4) msg bind.bind_lunit prod.case)
  qed
  have len_f: "length f = 4096" and tail: "f ! 54 = b ! 54"
    using same [of 54] b2_tail [of 54] b1(3) b3(2) by (simp_all add: f)
  have "take 21 (drop 34 f) = take 20 (drop 34 f) @ [b ! 54]"
    using len_f tail take_Suc_conv_app_nth [of 20 "drop 34 f"] by simp
  moreover have "sum16 (take 20 (drop 34 f)) = sum16 (take 20 (drop 34 b3)) + unat c"
    using sum16_patch [of 16 20 34 b3 c] b3 by (simp add: f)
  ultimately have d: "sum16 (take 21 (drop 34 f)) = sum16 (take 20 (drop 34 b3)) + unat c + 256 * unat (b ! 54)"
    using len_f by (simp add: sum16_append)
  have a: "take 8 (drop 26 f) = take 8 (drop 26 b3)" using b3(2) by (intro take_drop_nth_eq) (auto simp: f)
  have "tcp_segment_sum f 14 34 21 = S + unat c + 256 * unat (b ! 54)"
    unfolding tcp_segment_sum_def d S using a by simp
  then have "oc16 (tcp_segment_sum f 14 34 21) = 65535 \<longleftrightarrow> unat (b ! 54) = 0"
    using oc16_odd_byte [OF oc16_NOT unat_u8_bound, of S "b ! 54"] unfolding c by simp
  then show ?thesis
    using run tail len_f by (simp add: unat_eq_0)
qed

end
