(* ===== verification/Trial_Properties.thy ===== *)
theory Trial_Properties
  imports Recorded_Session Poc Poc_Rawsock
begin

text \<open>
  The properties of the trial programs and of the proofs of concept.
\<close>

section \<open>Packet dumps\<close>

text \<open>
  C39. Decoding a hexadecimal dump gives back the bytes: for every byte string that fits the buffer, the decoder applied to
  its dump, as \<^verbatim>\<open>printf("%02x")\<close> prints it, stores exactly these bytes at the start of the buffer and changes nothing behind them.
\<close>

theorem decode_packet_hex_dump:
  assumes "length bs \<le> length b"
  shows "decode_packet (hex_dump bs) 0 0 b = Some (bs @ drop (length bs) b)"
  using decode_packet_step [of 0 bs b] assms by simp

theorem decode_packet_hex_dump_witness:
  "hex_dump [0x45, 0x10, 0xac] = ''4510ac'' \<and> decode_packet ''4510ac'' 0 0 [1, 2, 3, 4] = Some [0x45, 0x10, 0xac, 4]"
proof -
  have "hex_dump [0x45, 0x10, 0xac] = ''4510ac''" by code_simp
  then show ?thesis using decode_packet_hex_dump [of "[0x45, 0x10, 0xac]" "[1, 2, 3, 4]"] by simp
qed

section \<open>The life of a session table\<close>


definition trial_os :: "int list \<Rightarrow> os" where
  "trial_os rs = \<lparr>replies = (\<lambda>j. \<lparr>ret = (if j < length rs then rs ! j else -1), err = 11, bytes = [],
     from_in = \<lparr>sin_family = 2, sin_port = 0, sin_addr = 0\<rparr>,
     from_ll = \<lparr>sll_family = 17, sll_protocol = 0, sll_ifindex = 0, sll_hatype = 0, sll_pkttype = 0, sll_halen = 0,
       sll_addr = replicate 8 0\<rparr>, if_flags = 0, handle_fd = 9\<rparr>), calls = [], out = [], errno = 0, fds = {0, 1, 2}, fresh_fds = True\<rparr>"

definition trial_heap :: heap where
  "trial_heap = \<lparr>nodes = \<lambda>_. None, sessions = \<lambda>_. None, brk = 0, times = \<lambda>n. int n\<rparr>"


section \<open>A recorded session\<close>

text \<open>
  C36. The recorded TCP session of the trial program is accepted packet by packet: with any address of the server, any
  uninitialised counters and any old contents of the buffer, as long as the clock does not advance by more than ten seconds, none of the
  ten packets is rejected (the only output is the handler's search message for the five packets of the world), the
  session ends with the handshake and both closings complete, and after printing and deleting the table the heap is empty.
\<close>

theorem main5_accepts_recorded_session:
  assumes "nodes h = Map.empty" and "sessions h = Map.empty" and "length b = 3000" and "\<And>j. times h j \<le> times h 0 + 10"
  shows "\<exists>\<sigma> s x h' w'. main5_session ip counts
      \<lparr>tbuf = b, trst = rst, tcip = cip, thp = h, ttab = init_hash_table 100 32928 33000, tos = w\<rparr> = Some \<sigma> \<and>
    get_tcp_session_by_client (thp \<sigma>) (ttab \<sigma>) 0xc0a80102 32928 = Some (Some s) \<and> sessions (thp \<sigma>) s = Some x \<and>
    (syn_state x, client_fin_state x, server_fin_state x) = (3, 2, 2) \<and>
    out (tos \<sigma>) = out w @ replicate 5 (''Debug searching world, tcp->dest %d'', [32928]) \<and>
    main5 ip cip counts b rst h w = Some (0, h', w') \<and> nodes h' = Map.empty \<and> sessions h' = Map.empty \<and> calls w' = calls w"
  using main5_outcome [OF assms] .

theorem main5_accepts_recorded_session_witness:
  "\<exists>h' w'. main5 0x01020304 0 (\<lambda>_. 5) (replicate 3000 255) 0 (trial_heap\<lparr>times := \<lambda>_. 7\<rparr>) (trial_os []) = Some (0, h', w') \<and>
    nodes h' = Map.empty \<and> sessions h' = Map.empty \<and> calls w' = []"
proof -
  obtain h where h: "trial_heap\<lparr>times := \<lambda>_. 7\<rparr> = h" by blast
  have e: "nodes h = Map.empty" "sessions h = Map.empty" "\<And>j. times h j \<le> times h 0 + 10"
    unfolding h [symmetric] by (simp_all add: trial_heap_def)
  obtain b where b: "replicate 3000 (255 :: u8) = b" by blast
  have l: "length b = 3000" unfolding b [symmetric] by (rule length_replicate)
  have c: "calls (trial_os []) = []" by (simp add: trial_os_def)
  show ?thesis
    unfolding h b using main5_accepts_recorded_session [OF e(1,2) l e(3), where ip = "0x01020304" and cip = "0"
      and counts = "\<lambda>_. 5" and rst = "0" and w = "trial_os []"] unfolding c by blast
qed

section \<open>Proofs of concept\<close>

text \<open>
  C38. What \<^verbatim>\<open>do_chflags\<close> lost on its way from the proof of concept into the library: both succeed on the same replies of the
  kernel, and make the same calls, except that when an \<^verbatim>\<open>ioctl\<close> fails the proof of concept ends with the closing of the control
  socket \<open>c\<close> and the library does not. So the proof of concept leaves the open descriptors as they were, and the library leaves exactly
  \<open>c\<close> open on these paths.
\<close>

theorem chflags_lost_close:
  fixes w
  defines "c \<equiv> fst (get_ctl_fd w)"
  assumes "fresh_fds (snd (poc_do_chflags dev flags msk w))"
  shows "(fst (do_chflags dev flags msk w) = 0) = (fst (poc_do_chflags dev flags msk w) = 0) \<and>
    fds (snd (poc_do_chflags dev flags msk w)) = fds w \<and>
    (if fst (do_chflags dev flags msk w) \<noteq> 0 \<and> 0 \<le> c
     then calls (snd (poc_do_chflags dev flags msk w)) = calls (snd (do_chflags dev flags msk w)) @ [Close c] \<and>
       c \<notin> fds w \<and> fds (snd (do_chflags dev flags msk w)) = insert c (fds w)
     else calls (snd (poc_do_chflags dev flags msk w)) = calls (snd (do_chflags dev flags msk w)) \<and>
       fds (snd (do_chflags dev flags msk w)) = fds w)"
proof -
  have "fresh_fds (snd (do_chflags dev flags msk w))" using assms(2) do_chflags_poc(3) by blast
  from do_chflags_fds [OF prod.collapse [symmetric] this] show ?thesis
    using do_chflags_poc(1,2) [of dev flags msk w] poc_do_chflags_fds [OF assms(2)]
    unfolding c_def ctl_left_def by (auto split: if_splits)
qed

theorem chflags_lost_close_witness:
  "calls (snd (poc_do_chflags ''tun0'' 1 1 (trial_os [3, -1]))) =
      calls (snd (do_chflags ''tun0'' 1 1 (trial_os [3, -1]))) @ [Close 3] \<and>
    fds (snd (poc_do_chflags ''tun0'' 1 1 (trial_os [3, -1]))) = {0, 1, 2} \<and>
    fds (snd (do_chflags ''tun0'' 1 1 (trial_os [3, -1]))) = insert 3 {0, 1, 2}"
proof -
  have f: "fresh_fds (snd (poc_do_chflags ''tun0'' 1 1 (trial_os [3, -1])))" by code_simp
  have c: "fst (do_chflags ''tun0'' 1 1 (trial_os [3, -1])) \<noteq> 0 \<and> 0 \<le> fst (get_ctl_fd (trial_os [3, -1]))"
    "fst (get_ctl_fd (trial_os [3, -1])) = 3"
    by code_simp+
  have w: "fds (trial_os [3, -1]) = {0, 1, 2}" by (simp add: trial_os_def)
  show ?thesis
    using chflags_lost_close [OF f] c(1) unfolding w c(2) by metis
qed

text \<open>
  The UDP server of the proofs of concept stores a null byte behind the received message. It stays inside its buffer exactly
  when the message is shorter than the buffer and the receive did not fail: a message that fills the buffer, or an error,
  writes next to it.
\<close>

theorem poc_udp_server_in_bounds:
  assumes "length b = 2048" and "0 \<le> ret (replies w 0)" and "0 \<le> ret (replies w 1)"
    and "reply_fits 2048 (replies w 2)"
  shows "(\<exists>v. poc_udp_server b w = Some v) \<longleftrightarrow> 0 \<le> ret (replies w 2) \<and> ret (replies w 2) \<noteq> 2048"
proof -
  have r: "replies w 2 = replies w (Suc (Suc 0))" "replies w 1 = replies w (Suc 0)" by (simp_all add: numeral_2_eq_2)
  have le: "ret (replies w (Suc (Suc 0))) \<le> 2048" using assms(4) unfolding r by (simp add: reply_fits_def)
  show ?thesis
  proof (cases "ret (replies w (Suc (Suc 0))) < 0")
    case True
    then show ?thesis using assms(2,3) unfolding r poc_udp_server_def Let_def sys_after by simp
  next
    case False
    then have "(nat (ret (replies w (Suc (Suc 0)))) < 2048) = (ret (replies w (Suc (Suc 0))) \<noteq> 2048)" using le by auto
    then show ?thesis
      using assms(1,2,3) False unfolding r poc_udp_server_def Let_def sys_after by (auto simp: st8_def)
  qed
qed

theorem poc_udp_server_in_bounds_witness:
  "\<exists>v. poc_udp_server (replicate 2048 1) (trial_os [3, 0, 0]) = Some v"
proof -
  have r: "ret (replies (trial_os [3, 0, 0]) 0) = 3" "ret (replies (trial_os [3, 0, 0]) 1) = 0"
    "ret (replies (trial_os [3, 0, 0]) 2) = 0" "bytes (replies (trial_os [3, 0, 0]) 2) = []"
    by (simp_all add: trial_os_def)
  show ?thesis
    using poc_udp_server_in_bounds [of "replicate 2048 1" "trial_os [3, 0, 0]"] unfolding r reply_fits_def by simp
qed

text \<open>
  C40. The frame of the raw socket proof of concept has a wrong TCP checksum unless its payload byte happens to be zero: the
  data pointer misses the Ethernet header, so the checksum covers a byte of the sequence number in place of the payload, and
  the payload, byte 54 of the buffer, is never initialised.
\<close>

theorem rawsock_frame_wrong_checksum:
  assumes "length b = 4096" and "length smac = 6" and "length dmac = 6"
  shows "\<exists>f. rawsock_frame smac dmac src dst b = Some (f, (''tcp data bytes: %d'', [1])) \<and> length f = 4096 \<and> f ! 54 = b ! 54 \<and>
    (oc16 (tcp_segment_sum f 14 34 21) = 65535 \<longleftrightarrow> b ! 54 = 0)"
  using assms by (rule rawsock_frame_checksum)

theorem rawsock_frame_wrong_checksum_witness:
  "\<exists>f. rawsock_frame (replicate 6 1) (replicate 6 2) 0x0a000001 0x0a000002 (replicate 4096 65) = Some (f, (''tcp data bytes: %d'', [1])) \<and>
    oc16 (tcp_segment_sum f 14 34 21) \<noteq> 65535"
proof -
  have "replicate 4096 (65 :: u8) ! 54 \<noteq> 0" by (simp del: replicate.simps)
  then show ?thesis
    using rawsock_frame_wrong_checksum
      [where b = "replicate 4096 65" and smac = "replicate 6 1" and dmac = "replicate 6 2" and src = "0x0a000001"
        and dst = "0x0a000002"]
    by (metis length_replicate)
qed

section \<open>The trial client\<close>

text \<open>It takes the descriptor that \<^verbatim>\<open>setup_tun\<close> returns for a failure, and leaves the device open.\<close>

lemma trial_client_gives_up:
  assumes "setup_tun junk addattr w = (fd, w')" and "0 < fd"
  shows "\<exists>w2. trial_client junk addattr b w = Some (-1, w2) \<and> fds w2 = fds w' \<and> calls w2 = calls w'"
  using assms by (simp add: trial_client_def)

end
