(* ===== verification/Tunnel.thy ===== *)
theory Tunnel
  imports Server_Properties Client_Properties
begin

text \<open>
  Client and server together: a packet of the client's device on its way through both programs to the
  raw socket, and the answer on its way back to the device. Each program has its own system; the network between them is what
  the two streams of replies have in common, the bytes one program sends being those the other receives.
\<close>

section \<open>The round trip\<close>

lemma lookup_ticks:
  assumes "table_inv h t"
  shows "get_tcp_session_by_server ((tick ^^ k) h) t p = get_tcp_session_by_server h t p"
proof (induction k)
  case (Suc k)
  obtain cc sc where "table_rep ((tick ^^ k) h) t cc sc"
    using assms table_inv_ticks [of k h t] by (auto simp: table_inv_def)
  then show ?case using Suc by simp
qed simp

lemma session_after_half:
  assumes inv: "table_inv h t" and x: "sessions h s = Some x"
    and s: "get_tcp_session_by_client h t (client_ip x) (client_port x) = Some (Some s)"
    and h': "h' = (tick ^^ k) (put_session (tick h) s (client_flags g x))"
  shows "get_tcp_session_by_server h' t (server_port x) = Some (Some s)"
    and "sessions h' s = Some (client_flags g x)" and "time_NULL h' = times h (Suc k)"
proof -
  note touch = touch_session [OF inv x flags_keep(1)]
  have "get_tcp_session_by_server h t (server_port x) = Some (Some s)"
    using table_client_server [OF inv s x] .
  then show "get_tcp_session_by_server h' t (server_port x) = Some (Some s)"
    using touch(3) lookup_ticks [OF touch(1)] by (simp add: h')
  show "sessions h' s = Some (client_flags g x)" "time_NULL h' = times h (Suc k)"
    using touch(4) by (simp_all add: h' tick_power time_NULL_def put_session_def tick_def)
qed

text \<open>
  C2. The tunnel: when the device of the client has a TCP packet of a live session, the client sends it to the server unchanged, and
  the server passes it on with its own address and the session's port as source; when the raw socket then has an answer
  to that port, after \<open>k\<close> packets for other hosts, the same iteration of the server sends the client a message that differs from the
  answer in the destination, which is now the address and port the packet came from, and in the checksums, which are valid;
  and when the client receives that message, it writes exactly these bytes to its device.
\<close>

theorem tunnel_round_trip:
  fixes c w st k
  defines "p \<equiv> replies w 0" and "d \<equiv> replies (sys_os st) 0" and "a \<equiv> replies (sys_os st) (2 + k)"
  assumes "client_ok c" and "server_ok st" and "kernel_ok (sys_os st)" and "count < 2 ^ 31 - 1"
    and device: "ret p = int (length (bytes p))" "tcp_packet (bytes p) (ret p) ihl doff tot" "0 \<le> ret (replies w 1)"
    and up: "ret d = ret p" "bytes d = bytes p" "0 \<le> ret (replies (sys_os st) 1)"
    and live: "get_tcp_session_by_client (hp st) (table (srv st)) (src_ip (bytes p)) (src_port (bytes p) ihl) = Some (Some s)"
      "sessions (hp st) s = Some x" "\<And>j. times (hp st) j \<le> expire x"
    and answer: "\<And>j. j < k \<Longrightarrow> skipped (replies (sys_os st) (2 + j))" "\<not> skipped a" "ret a = int (length (bytes a))"
      "tcp_packet (bytes a) (ret a) ihl' doff' tot'" "dst_port (bytes a) ihl' = server_port x"
      "0 \<le> ret (replies (sys_os st) (3 + k))"
  shows "\<exists>q m st'. server_step count st = Some (Inr st') \<and>
    calls (sys_os st') = calls (sys_os st) @
      [udp_recv st, Sendto_ll (rawfd (srv st)) q 0 (ll (srv st)\<lparr>sll_hatype := 0, sll_pkttype := 0\<rparr>)] @
      replicate (Suc k) (raw_recv st) @ [Sendto_in (vpn_server.udpfd (srv st)) m MSG_CONFIRM (Some (from_in d))] \<and>
    forwarded_bytes 12 0 q (bytes p) ihl doff tot (local_ip (srv st)) (server_port x) \<and>
    forwarded_bytes 16 2 m (bytes a) ihl' doff' tot' (src_ip (bytes p)) (src_port (bytes p) ihl) \<and>
    (ret (replies w 2) = int (length m) \<and> bytes (replies w 2) = m \<and> 0 \<le> ret (replies w 3) \<longrightarrow>
      (\<exists>c' w'. client_step c w = Some (Inr (c', w')) \<and> calls w' = calls w @
        [Read (tunfd c) 9000, Sendto_in (vpn_client.udpfd c) (bytes p) MSG_CONFIRM (Some (vpn_client.raddr c)),
         Recvfrom (vpn_client.udpfd c) 9000 MSG_DONTWAIT, Write (tunfd c) m]))"
proof -
  have inv: "table_inv (hp st) (table (srv st))" using assms(5) by (simp add: server_ok_def)
  have pd: "ret d = int (length (bytes d))" "tcp_packet (bytes d) (ret d) ihl doff tot" using device(1,2) up(1,2) by simp_all
  have key: "client_ip x = src_ip (bytes p)" "client_port x = src_port (bytes p) ihl"
    using table_client_sound [OF inv live(1)] live(2) by auto
  have t0: "time_NULL (hp st) \<le> expire x" using live(3) by (simp add: time_NULL_def)
  obtain q st1 n g where out: "client_half count st = Some (Inr st1)"
    "ran [udp_recv st, Sendto_ll (rawfd (srv st)) q 0 (ll (srv st)\<lparr>sll_hatype := 0, sll_pkttype := 0\<rparr>)] (sys_os st) (sys_os st1)"
    "vpn_server.raddr (srv st1) = from_in d" "vpn_server.udpfd (srv st1) = vpn_server.udpfd (srv st)"
    "rawfd (srv st1) = rawfd (srv st)" "table (srv st1) = table (srv st)"
    "hp st1 = (tick ^^ n) (put_session (tick (hp st)) s (client_flags g x))"
    "forwarded_bytes 12 0 q (bytes p) ihl doff tot (local_ip (srv st)) (server_port x)"
    using client_half_known [of st, folded d_def, OF assms(5,6) pd _ live(2) t0 up(3), where count = count]
      live(1) unfolding up(2) by blast
  have ok1: "server_ok st1" "kernel_ok (sys_os st1)"
    using client_half_safe [OF assms(5-7)] out(1) by (auto simp: goes_on_def)
  note after = session_after_half [OF inv live(2) live(1) [folded key] out(7), folded out(6)]
  have r: "replies (sys_os st1) j = replies (sys_os st) (2 + j)" for j using out(2) by (simp add: ran_def)
  have a: "replies (sys_os st1) k = a" by (simp add: r a_def)
  have keys: "client_ip (client_flags g x) = src_ip (bytes p)" "client_port (client_flags g x) = src_port (bytes p) ihl"
    using flags_keep(1) [of g x] key by (simp_all add: same_keys_def)
  have "time_NULL (hp st1) \<le> expire (client_flags g x)" using live(3) flags_keep(3) after(3) by metis
  moreover have "0 \<le> ret (replies (sys_os st1) (Suc k))" using answer(6) by (simp add: r numeral_3_eq_3)
  moreover have "j < k \<Longrightarrow> skipped (replies (sys_os st1) j)" for j using answer(1) by (simp add: r)
  ultimately obtain m st2 where home: "world_half st1 = Some (Inr st2)"
    "ran (replicate (Suc k) (raw_recv st1) @ [Sendto_in (vpn_server.udpfd (srv st1)) m MSG_CONFIRM (Some (vpn_server.raddr (srv st1)))])
      (sys_os st1) (sys_os st2)"
    "forwarded_bytes 16 2 m (bytes a) ihl' doff' tot' (src_ip (bytes p)) (src_port (bytes p) ihl)"
    using world_half_known [OF ok1, of k ihl' doff' tot' s "client_flags g x", unfolded a, OF _ answer(2-4)] after(1,2) answer(5)
    unfolding keys by metis
  have "server_step count st = Some (Inr st2)" using out(1) home(1) by (simp add: server_step_def)
  moreover have "\<exists>c' w'. client_step c w = Some (Inr (c', w')) \<and> calls w' = calls w @
        [Read (tunfd c) 9000, Sendto_in (vpn_client.udpfd c) (bytes p) MSG_CONFIRM (Some (vpn_client.raddr c)),
         Recvfrom (vpn_client.udpfd c) 9000 MSG_DONTWAIT, Write (tunfd c) m]"
    if "ret (replies w 2) = int (length m) \<and> bytes (replies w 2) = m \<and> 0 \<le> ret (replies w 3)"
  proof -
    have len: "length m = length (bytes a)" "ret a \<le> 9000" "ip_tcp_packet m ihl' doff' tot'"
      using home(3) assms(6) by (simp_all add: forwarded_bytes_def kernel_ok_def a_def)
    have "40 \<le> tot'" "tot' \<le> length m" using packet_lengths(3) [OF len(3)] len(3) by (auto simp: ip_tcp_packet_def)
    then have "0 < int (length m)" by linarith
    then have fits: "reply_fits 9000 (replies w 2)" "0 < ret (replies w 2)"
      using that len(1,2) answer(3) by (simp_all add: reply_fits_def)
    have "ret p \<le> 9000" using assms(6) up(1) unfolding kernel_ok_def d_def by metis
    then have "reply_fits 9000 (replies w 0)" "0 \<le> ret (replies w 0)" using device(1) by (simp_all add: p_def reply_fits_def)
    from client_step_forwards [OF assms(4) this(1) fits(1) this(2) device(3) fits(2)] show ?thesis
      using that unfolding p_def by blast
  qed
  ultimately show ?thesis
    using out(2,8) home(2,3) unfolding out(3-5) by (auto simp: ran_def)
qed

text \<open>A SYN of the client of the example, and the SYN-ACK of the world.\<close>

lemma ex_srv_clock: "times ex_srv_heap j = 100"
proof -
  have e: "nodes ex_heap = Map.empty" "sessions ex_heap = Map.empty" "times ex_heap n = 100" for n
    by (simp_all add: ex_heap_def)
  have "table_rep ex_heap (init_hash_table 200 40000 41000) (replicate (nat 200) []) (replicate (nat 200) [])"
    using e by (intro init_hash_table_rep) simp_all
  from this ex_srv_add show ?thesis
  proof (cases rule: add_tcp_session_elim)
    case (existing s)
    then show ?thesis using e(3) by simp
  qed (use e(3) in simp_all)
qed

theorem tunnel_round_trip_witness:
  "\<exists>q m st'. server_step 0 (ex_state [srv_reply 40 0 ex_syn, srv_reply 40 0 [], srv_reply 40 0 ex_back, srv_reply 40 0 []])
      = Some (Inr st') \<and>
    calls (sys_os st') = [Recvfrom 3 9000 MSG_DONTWAIT, Sendto_ll 4 q 0 (ex_ll\<lparr>sll_hatype := 0, sll_pkttype := 0\<rparr>),
      Recvfrom 4 9000 MSG_DONTWAIT, Sendto_in 3 m MSG_CONFIRM (Some ex_sin)] \<and>
    forwarded_bytes 12 0 q ex_syn 5 5 40 0x01020304 40000 \<and> forwarded_bytes 16 2 m ex_back 5 5 40 0x0a000005 40000"
proof -
  obtain st where st: "st = ex_state [srv_reply 40 0 ex_syn, srv_reply 40 0 [], srv_reply 40 0 ex_back, srv_reply 40 0 []]"
    by blast
  obtain w where w: "w = ex_os [ex_reply 40 0 ex_syn 0, ex_reply 40 0 [] 0]" by blast
  have r: "replies (sys_os st) 0 = srv_reply 40 0 ex_syn" "replies (sys_os st) 1 = srv_reply 40 0 []"
    "replies (sys_os st) (2 + 0) = srv_reply 40 0 ex_back" "replies (sys_os st) (3 + 0) = srv_reply 40 0 []"
    "replies w 0 = ex_reply 40 0 ex_syn 0" "replies w 1 = ex_reply 40 0 [] 0"
    by (simp_all add: st w ex_state_def srv_os_def ex_os_def)
  have ok: "server_ok st" "kernel_ok (sys_os st)"
    unfolding st by (rule ex_state_ok) (auto intro!: ex_kernel_ok simp: ex_state_def srv_reply_def)
  have b: "ret (srv_reply 40 0 bs) = 40" "bytes (srv_reply 40 0 bs) = bs" "ret (ex_reply 40 0 bs 0) = 40"
    "bytes (ex_reply 40 0 bs 0) = bs" "\<not> skipped (srv_reply 40 0 bs)" "from_in (srv_reply 40 0 bs) = ex_sin" for bs
    by (simp_all add: srv_reply_def ex_reply_def skipped_def ex_ll_def)
  have f: "hp st = ex_srv_heap" "table (srv st) = ex_srv_table" "calls (sys_os st) = []" "rawfd (srv st) = 4"
    "vpn_server.udpfd (srv st) = 3" "ll (srv st) = ex_ll" "local_ip (srv st) = 0x01020304"
    by (simp_all add: st ex_state_def ex_srv_def srv_os_def)
  have p: "tcp_packet ex_syn 40 5 5 40" "tcp_packet ex_back 40 5 5 40" "dst_port ex_back 5 = 40000" "length ex_syn = 40"
    "length ex_back = 40" "src_ip ex_syn = 0x0a000005" "src_port ex_syn 5 = 40000"
    by code_simp+
  obtain x where x: "x = new_session 0x0a000005 40000 40000 110" by blast
  have xs: "expire x = 110" "server_port x = 40000" by (simp_all add: x new_session_def)
  note s = ex_srv_session(1,3) [folded x]
  have none: "j < 0 \<Longrightarrow> skipped (replies (sys_os st) (2 + j))" for j :: nat by simp
  have h: "(40 :: int) = int (length ex_syn)" "(40 :: int) = int (length ex_back)" "(0 :: int) \<le> 40" "(0 :: int) < 2 ^ 31 - 1"
    "\<And>j. times (hp st) j \<le> expire x"
    unfolding p xs f ex_srv_clock by simp_all
  show ?thesis
    using tunnel_round_trip [where c = ex_client and w = w and st = st and k = 0 and count = 0, unfolded r b,
        OF ex_client_ok ok h(4) h(1) p(1) h(3) refl refl h(3) _ _ h(5) none _ h(2) p(2) _ h(3), of 0]
      s p(3) xs(2) b(5) [of ex_back]
    unfolding f p(6,7) st [symmetric] by (simp only: replicate_Suc replicate_0 append_Nil append_Cons xs) blast
qed

end
