(* ===== verification/Poc_C_Trial.thy ===== *)
theory Poc_C_Trial
  imports Os
begin

text \<open>
  The experiment \<^verbatim>\<open>src/POC/C_TRIAL/CTrial.c\<close>: an array of structures is written to after it was freed, so the program has no
  defined behaviour.
\<close>

record person =
  age :: int
  height :: int
  next_person :: "nat option"

text \<open>The two kinds of blocks of the program on its store, and the address handed out next.\<close>

record c_store =
  people :: "nat \<rightharpoonup> person list"
  pointers :: "nat \<rightharpoonup> int option list"
  fresh :: nat

definition calloc_people :: "nat \<Rightarrow> c_store \<Rightarrow> nat \<times> c_store" where
  "calloc_people n s = (fresh s, s\<lparr>people := (people s)(fresh s \<mapsto> replicate n \<lparr>age = 0, height = 0, next_person = None\<rparr>),
     fresh := Suc (fresh s)\<rparr>)"

definition free_people :: "nat \<Rightarrow> c_store \<Rightarrow> c_store option" where
  "free_people p s = (if people s p = None then None else Some (s\<lparr>people := (people s)(p := None)\<rparr>))"

text \<open>An element of the array at \<open>p\<close>, and its update.\<close>

definition person_at :: "c_store \<Rightarrow> nat \<Rightarrow> nat \<Rightarrow> person option" where
  "person_at s p i = do { ps \<leftarrow> people s p; if i < length ps then Some (ps ! i) else None }"

definition set_person :: "c_store \<Rightarrow> nat \<Rightarrow> nat \<Rightarrow> (person \<Rightarrow> person) \<Rightarrow> c_store option" where
  "set_person s p i f = do {
     ps \<leftarrow> people s p;
     if i < length ps then Some (s\<lparr>people := (people s)(p \<mapsto> ps[i := f (ps ! i)])\<rparr>) else None }"

function c_trial_fill :: "nat \<Rightarrow> nat \<Rightarrow> c_store \<Rightarrow> c_store option" where
  "c_trial_fill p i s =
     (if i < 10 then do {
        s \<leftarrow> set_person s p i (\<lambda>x. x\<lparr>age := int i\<rparr>);
        s \<leftarrow> set_person s p i (\<lambda>x. x\<lparr>height := int i + 1\<rparr>);
        c_trial_fill p (i + 1) s }
      else Some s)"
  by pat_completeness auto
termination
  by (relation "measure (\<lambda>(p, i, s). 10 - i)") auto

declare c_trial_fill.simps [simp del]

text \<open>
  The second part stores the address of a local variable, which holds 5, in an array of uninitialised pointers (\<open>junk\<close>) and
  reads it back; a pointer there is the value it points to.
\<close>

definition c_trial :: "int option list \<Rightarrow> c_store \<Rightarrow> os \<Rightarrow> os option" where
  "c_trial junk s w = do {
     let (p, s) = calloc_people 10 s;
     s \<leftarrow> free_people p s;
     s \<leftarrow> c_trial_fill p 0 s;
     x \<leftarrow> person_at s p 7;
     let w = printf (''7: %d %d'', [age x, height x]) w;
     y \<leftarrow> person_at s p 0;
     let w = (if next_person y = None then printf (''Default null'', []) w else w);
     let ptr = fresh s;
     let block = (take 10 junk)[0 := Some 5];
     let s = s\<lparr>pointers := (pointers s)(ptr \<mapsto> block), fresh := Suc ptr\<rparr>;
     ps \<leftarrow> pointers s ptr;
     v \<leftarrow> (if ps \<noteq> [] then ps ! 0 else None);
     let w = printf (''%d'', [v]) w;
     Some w }"

text \<open>The first iteration of the loop writes to the freed array.\<close>

lemma c_trial_undefined: "c_trial junk s w = None"
  by (simp add: c_trial_def calloc_people_def free_people_def c_trial_fill.simps [of _ 0] set_person_def)

text \<open>Without the call of \<^verbatim>\<open>free\<close> the loop is defined and fills the array.\<close>

lemma c_trial_fill_live:
  assumes "people s p = Some ps" and "length ps = 10" and "i \<le> 10"
  shows "\<exists>s' qs. c_trial_fill p i s = Some s' \<and> people s' p = Some qs \<and> length qs = 10 \<and>
    (\<forall>j < 10. qs ! j = (if i \<le> j then (ps ! j)\<lparr>age := int j, height := int j + 1\<rparr> else ps ! j))"
  using assms
proof (induction "10 - i" arbitrary: i s ps)
  case 0
  then show ?case by (subst c_trial_fill.simps) auto
next
  case (Suc k)
  then have i: "i < 10" by simp
  let ?x = "(ps ! i)\<lparr>age := int i, height := int i + 1\<rparr>"
  let ?s = "s\<lparr>people := (people s)(p \<mapsto> ps[i := ?x])\<rparr>"
  have step: "c_trial_fill p i s = c_trial_fill p (i + 1) ?s"
    using i Suc.prems by (subst c_trial_fill.simps) (simp add: set_person_def)
  have "k = 10 - (i + 1)" using Suc.hyps(2) by simp
  from Suc.hyps(1) [OF this, of ?s "ps[i := ?x]"] obtain s' qs where r: "c_trial_fill p (i + 1) ?s = Some s'"
    "people s' p = Some qs" "length qs = 10"
    "\<forall>j < 10. qs ! j = (if i + 1 \<le> j then (ps[i := ?x] ! j)\<lparr>age := int j, height := int j + 1\<rparr> else ps[i := ?x] ! j)"
    using i Suc.prems by auto
  have "qs ! j = (if i \<le> j then (ps ! j)\<lparr>age := int j, height := int j + 1\<rparr> else ps ! j)" if "j < 10" for j
    using r(4) that i Suc.prems(2) by (cases "j = i") (auto simp: nth_list_update)
  then show ?case using step r(1-3) by auto
qed

end
