(* ===== verification/Spec2Isabelle.thy ===== *)
theory Spec2Isabelle
  imports Header_Properties Server_Properties Client_Properties Trial_Properties Tunnel Poc_C_Trial
begin

text \<open>
  \<^bold>\<open>benker-vpn: a model of the program and its correctness\<close>

  \<^bold>\<open>The program.\<close> The client (\<^verbatim>\<open>src/src/client/main.c\<close>) takes IP packets from a tun device and sends each as the
  payload of a UDP message to the server; what comes back it writes to the device. The server (\<^verbatim>\<open>src/src/server/main.c\<close>) is
  a network address translator for TCP: a packet of the client gets the server's address and a port of the
  server as its source and leaves on a raw socket; a packet for such a port gets the client's address and port as its
  destination and goes back by UDP. Which port stands for which client is kept in the session hash table. A
  packet that belongs to no session is overwritten with a TCP reset.

  \<^bold>\<open>Theories and sources.\<close>

  \<^item> \<open>Prelude\<close>: machine integers as words, the collections \<open>cmem\<close>, \<open>wordnat\<close>, \<open>csum\<close> and \<open>heap_simps\<close>, generic lemmas.
  \<^item> \<open>Bytes\<close>: packet buffers as byte lists with bounds-checked loads and stores, the byte order functions of a
    little-endian host, the bit fields of the headers. Locales \<open>buffer_field\<close> and \<open>two_fields\<close>, interpreted on the loads and
    stores of 1, 2 and 4 bytes.
  \<^item> \<open>Checksum\<close>: \<^verbatim>\<open>summing\<close>, \<^verbatim>\<open>ip_csum\<close>, \<^verbatim>\<open>tcp_csum\<close> of \<^verbatim>\<open>lib/protocol_headers.c\<close>, and the one's complement sum of
    RFC 1071 as their specification.
  \<^item> \<open>Protocol_Headers\<close>: the rest of that file: \<^verbatim>\<open>validate_ip_tcp\<close>, the functions \<^verbatim>\<open>replace_\<close>..., \<^verbatim>\<open>fillin_reset\<close>. The locale
    \<open>header_rewrite\<close> proves the contract of a rewrite once; it is interpreted on the source and the destination functions.
  \<^item> \<open>Session_List\<close>, \<open>Session_Table\<close>, \<open>Nat_Table\<close>, \<open>Table_Sweep\<close>: \<^verbatim>\<open>lib/session_struct.c\<close> on an explicit heap: sessions,
    lists, the table and its invariant \<open>table_inv\<close>; the search for a port; the abstraction of the table to a map from end points
    to sessions; the sweeps that clean, delete and print. The locales \<open>nat_table\<close> and \<open>nat_allocator\<close> are the interface the
    handlers use; they are interpreted on the table.
  \<^item> \<open>Packet_Handler\<close>: \<^verbatim>\<open>lib/packet_handler.c\<close>, both handlers, the messages they print, and the state machine of a session as the step relation
    \<open>session_step\<close> with its reachable states.
  \<^item> \<open>Os\<close>: system calls. What the kernel answers is the stream \<open>replies\<close>; the calls made, the output, \<^verbatim>\<open>errno\<close> and the
    set of open descriptors, netlink sockets included, are recorded.
  \<^item> \<open>Sockets\<close>: \<^verbatim>\<open>lib/udp.c\<close> and \<^verbatim>\<open>lib/vpn_raw_sock.c\<close>. \<open>Ip_Command\<close>: \<^verbatim>\<open>lib/ip_command.c\<close>.
  \<^item> \<open>Vpn_Server\<close>, \<open>Vpn_Client\<close>: the two programs, one definition for each half of the loop.
  \<^item> \<open>Tunnel\<close>: both programs together; the network is what the two streams of replies have in common.
  \<^item> \<open>Trial\<close>, \<open>Trial_Server\<close>: \<^verbatim>\<open>client/main_trial.c\<close> and \<^verbatim>\<open>server/main_trial.c\<close>; \<open>Recorded_Session\<close> runs the TCP session that is
    recorded in the latter.
  \<^item> \<open>Poc\<close>, \<open>Poc_Checksum\<close>, \<open>Poc_Rawsock\<close>, \<open>Poc_C_Trial\<close>: the programs under \<^verbatim>\<open>src/POC\<close> for interface set-up, tap device, UDP,
    raw sockets (with its checksum functions) and freed memory.
  \<^item> \<open>Examples\<close>: concrete packets and tables. \<open>Header_Properties\<close>, \<open>Table_Properties\<close>, \<open>Handler_Properties\<close>,
    \<open>Server_Properties\<close>, \<open>Client_Properties\<close>, \<open>Trial_Properties\<close>: the properties, each with its instance.

  \<^bold>\<open>Conventions.\<close> \<open>None\<close> is undefined behaviour of C (an access outside an object, a NULL or dangling pointer, a
  division by zero, a signed overflow) or, for a \<open>partial_function\<close>, a loop that never ends; so \<open>f x = Some y\<close> says that the
  code returns \<open>y\<close> and that every step of it was defined. \<open>Inl\<close> is leaving the program with \<^verbatim>\<open>exit\<close>. A pointer into a packet is
  an offset, a pointer to a node or session is an address of the heap or NULL; the two arrays of a table are values of the table, and a freed
  array is one without elements. Widths are those of the C types: fields of
  headers and sessions are words, \<^verbatim>\<open>int\<close> is \<open>int\<close> with overflow checked where it can occur. Uninitialised
  variables whose value matters are parameters: the counter of \<^verbatim>\<open>add_tcp_session\<close> (\<open>count\<close>), the flags of \<^verbatim>\<open>add_tun\<close>
  (\<open>junk\<close>), the contents of buffers. The clock is a stream of times, one for each call of \<^verbatim>\<open>time\<close>.

  \<^bold>\<open>What is shown.\<close>

  \<^item> Headers: the checksum loop is RFC 1071 as long as its 32 bit accumulator does not overflow, and reads exactly the bytes it is told
    to; validation accepts exactly the described buffers; rewriting keeps all other bytes and leaves valid checksums; a reset needs
    40 bytes, has valid checksums and goes back to the sender if the packet has no IP options, and what happens if it has.
  \<^item> Table: every operation keeps the invariant; adding and cleaning implement the map operations, cleaning as long as no session ends
    between two of its readings of the clock, and what it breaks when one does; the search for a port ends
    and when it succeeds; both arrays agree; deleting frees every cell, every session and both arrays exactly once.
  \<^item> Handlers: what is forwarded and what is reset; memory safety on any bytes; the invariant over any sequence of packets;
    that no sequence of packets prolongs or replaces a session;
    the states of a session, the handshake (and the sequence number for which it never completes) and the close; a packet and its answer as a
    round trip.
  \<^item> Programs: the server and the client are memory safe for any number of iterations, for every value of their uninitialised variables but
    one (the largest \<^verbatim>\<open>int\<close> as the counter of \<^verbatim>\<open>add_tcp_session\<close>); what they send; what they drop;
    the descriptors open on each path of the set-up. A packet of the client's device and the answer to it pass through both
    programs (\<open>Tunnel\<close>).
  \<^item> Trial programs and proofs of concept: the dump decoder is inverse to printing; a recorded TCP session is accepted packet by
    packet; a table's life leaves no memory; the library's set-up and checksums against the ones they were taken from; the buffer
    overflow of the UDP server; the wrong checksum of the raw frame; the use of freed memory.

  \<^bold>\<open>Bounds.\<close> The endless loops of the two programs are cut after \<open>k\<close> iterations, and the theorems hold for every \<open>k\<close>; no result
  depends on a bound being large enough. The other loops have termination proofs, or are partial functions whose return is proved
  (for \<^verbatim>\<open>get_ip_packet\<close> under the hypothesis that the raw socket does not deliver foreign packets for ever, for
  the list loops from the shape of the lists).

  \<^bold>\<open>Parameters and hypotheses.\<close> The kernel's replies; \<^verbatim>\<open>inet_aton\<close>, \<^verbatim>\<open>inet_addr\<close>, \<^verbatim>\<open>ether_aton_r\<close>; \<^verbatim>\<open>addattr_l\<close> of libnetlink; the name that
  \<^verbatim>\<open>TUNSETIFF\<close> stores. Hypotheses on them are documented behaviour: a message fits the given size (\<open>reply_fits\<close>), a link layer
  address has at most 8 bytes (true of Ethernet; a longer one is read out of bounds, lemma \<open>get_ip_packet_long_address\<close>), a new descriptor is not an open one (\<open>fresh_fds\<close>). The length argument that \<^verbatim>\<open>get_ip_packet\<close>
  leaves uninitialised shows in the model only in that the stored address is an arbitrary reply. Memory is never exhausted and addresses
  are not reused; \<^verbatim>\<open>double\<close> differences of times are exact.

  The handlers of \<^verbatim>\<open>server/main_trial.c\<close> are called without the address arguments that \<^verbatim>\<open>packet_handler.h\<close> has, so the file does not
  compile against the library as it is; the model takes the missing values as parameters.

  \<^bold>\<open>Not modelled.\<close> The code behind \<^verbatim>\<open>return 0\<close> of the raw socket proof of concept, which is unreachable; \<^verbatim>\<open>POC/GLIB_TRIAL\<close>, four calls of
  GLib, whose code is not in the repository; \<^verbatim>\<open>POC/UDP/client-src\<close>, a greeting; the build files.
\<close>

end
